(* ===== verification/Prelude.thy ===== *)
theory Prelude
  imports Main "HOL-Library.Word" "HOL-Library.Sublist" "HOL-Library.Char_ord"
    "HOL-Library.List_Lexorder"
begin

text \<open>
  What every component of the development shares: the machine types of the sources, fallible
  computations (\<open>'e + 'a\<close>, \<open>Inl\<close> the error), stateful fallible computations
  (the state survives an error, as the members of a C++ object do) and the sequencing operators
  \<open>bindR\<close>, \<open>bindM\<close> and \<open>bindO\<close> that stand for the early return
  \<^verbatim>\<open>if (!r.ok()) return r.status();\<close> of the sources. The inversion rules of the
  sequencing operators are collected in \<open>bind_inv\<close>, their frame rules in \<open>frame\<close>.
\<close>

unbundle bit_operations_syntax

section \<open>Types\<close>

type_synonym u64 = "64 word"
type_synonym u32 = "32 word"
type_synonym bytes = string

named_theorems bind_inv \<open>inversion of sequenced computations\<close>
named_theorems wp \<open>outcome rules of stateful computations\<close>
named_theorems outcome \<open>outcome rules of the operations on the log\<close>
named_theorems frame \<open>which part of the state a computation leaves alone\<close>

section \<open>Fallible computations\<close>

definition bindR :: "'e + 'a \<Rightarrow> ('a \<Rightarrow> 'e + 'b) \<Rightarrow> 'e + 'b" where
  "bindR m f = (case m of Inl e \<Rightarrow> Inl e | Inr a \<Rightarrow> f a)"

lemma bindR_simps [simp]:
  "bindR (Inl e) f = Inl e"
  "bindR (Inr a) f = f a"
  by (simp_all add: bindR_def)

lemma bindR_Inr [bind_inv]: "bindR m f = Inr b \<longleftrightarrow> (\<exists>a. m = Inr a \<and> f a = Inr b)"
  by (cases m) simp_all

lemma bindR_Inl [bind_inv]:
  "bindR m f = Inl e \<longleftrightarrow> m = Inl e \<or> (\<exists>a. m = Inr a \<and> f a = Inl e)"
  by (cases m) simp_all

text \<open>The guard \<^verbatim>\<open>if (bad) return status;\<close>.\<close>

definition failIf :: "bool \<Rightarrow> 'e \<Rightarrow> 'e + unit" where
  "failIf b e = (if b then Inl e else Inr ())"

lemma failIf_Inr [simp]: "failIf b e = Inr u \<longleftrightarrow> \<not> b"
  by (simp add: failIf_def)

lemma failIf_Inl [simp]: "failIf b e = Inl e' \<longleftrightarrow> b \<and> e' = e"
  by (auto simp: failIf_def)

lemma failIf_cases [simp]: "failIf True e = Inl e" "failIf False e = Inr ()"
  by (simp_all add: failIf_def)

section \<open>Stateful fallible computations\<close>

type_synonym ('s, 'e, 'a) op = "'s \<Rightarrow> ('e + 'a) \<times> 's"

definition retM :: "'a \<Rightarrow> ('s, 'e, 'a) op" where
  "retM a s = (Inr a, s)"

definition failM :: "'e \<Rightarrow> ('s, 'e, 'a) op" where
  "failM e s = (Inl e, s)"

definition liftM :: "'e + 'a \<Rightarrow> ('s, 'e, 'a) op" where
  "liftM r s = (r, s)"

definition askM :: "('s \<Rightarrow> 'e + 'a) \<Rightarrow> ('s, 'e, 'a) op" where
  "askM f s = (f s, s)"

definition bindM :: "('s, 'e, 'a) op \<Rightarrow> ('a \<Rightarrow> ('s, 'e, 'b) op) \<Rightarrow> ('s, 'e, 'b) op" where
  "bindM m f s = (case m s of (Inl e, s') \<Rightarrow> (Inl e, s') | (Inr a, s') \<Rightarrow> f a s')"

lemma op_simps [simp]:
  "retM a s = (Inr a, s)"
  "failM e s = (Inl e, s)"
  "liftM r s = (r, s)"
  "askM f s = (f s, s)"
  by (simp_all add: retM_def failM_def liftM_def askM_def)

lemma bindM_Inr [bind_inv]:
  "bindM m f s = (Inr b, s') \<longleftrightarrow> (\<exists>a s1. m s = (Inr a, s1) \<and> f a s1 = (Inr b, s'))"
  by (auto simp: bindM_def split: prod.splits sum.splits)

lemma bindM_Inl [bind_inv]:
  "bindM m f s = (Inl e, s') \<longleftrightarrow>
     m s = (Inl e, s') \<or> (\<exists>a s1. m s = (Inr a, s1) \<and> f a s1 = (Inl e, s'))"
  by (auto simp: bindM_def split: prod.splits sum.splits)

lemma bindM_step [simp]:
  "m s = (Inl e, s') \<Longrightarrow> bindM m f s = (Inl e, s')"
  "m s = (Inr a, s') \<Longrightarrow> bindM m f s = f a s'"
  by (simp_all add: bindM_def)

lemma bindM_liftM: "bindM (liftM r) f s = (case r of Inl e \<Rightarrow> (Inl e, s) | Inr a \<Rightarrow> f a s)"
  by (simp add: bindM_def split: sum.splits)

text \<open>A computation that leaves a component \<open>g\<close> of the state alone, whatever its result.\<close>

definition keeps :: "('s \<Rightarrow> 'c) \<Rightarrow> ('s, 'e, 'a) op \<Rightarrow> bool" where
  "keeps g m \<longleftrightarrow> (\<forall>s. g (snd (m s)) = g s)"

lemma keepsI: "(\<And>s r s'. m s = (r, s') \<Longrightarrow> g s' = g s) \<Longrightarrow> keeps g m"
  unfolding keeps_def by (metis prod.collapse)

lemma keepsD: "keeps g m \<Longrightarrow> m s = (r, s') \<Longrightarrow> g s' = g s"
  unfolding keeps_def by (metis snd_conv)

lemma keeps_basic [frame]:
  "keeps g (retM a)" "keeps g (failM e)" "keeps g (liftM r)" "keeps g (askM f)"
  by (simp_all add: keeps_def)

lemma keeps_bindM [frame]:
  "keeps g m \<Longrightarrow> (\<And>a. keeps g (f a)) \<Longrightarrow> keeps g (bindM m f)"
  by (auto simp: keeps_def bindM_def split: prod.splits sum.splits) (metis snd_conv)+

lemma keeps_if [frame]: "keeps g m \<Longrightarrow> keeps g m' \<Longrightarrow> keeps g (if b then m else m')"
  by simp

text \<open>
  The outcome of a computation from one state: \<open>Q\<close> of the result and the final state on
  success, \<open>R\<close> of the error and the final state otherwise. The rules of \<open>wp\<close> follow the
  sequencing operators, so that a proof about a handler walks through its early returns in order.
\<close>

definition runs ::
  "('s, 'e, 'a) op \<Rightarrow> 's \<Rightarrow> ('a \<Rightarrow> 's \<Rightarrow> bool) \<Rightarrow> ('e \<Rightarrow> 's \<Rightarrow> bool) \<Rightarrow> bool" where
  "runs m s Q R \<longleftrightarrow> (case m s of (Inr a, s') \<Rightarrow> Q a s' | (Inl e, s') \<Rightarrow> R e s')"

lemma runsD:
  "runs m s Q R \<Longrightarrow> m s = (Inr a, s') \<Longrightarrow> Q a s'"
  "runs m s Q R \<Longrightarrow> m s = (Inl e, s') \<Longrightarrow> R e s'"
  by (simp_all add: runs_def)

lemma runs_bindM: "runs m s (\<lambda>a s1. runs (f a) s1 Q R) R \<Longrightarrow> runs (bindM m f) s Q R"
  by (auto simp: runs_def bindM_def split: prod.splits sum.splits)

lemma runs_basic [wp]:
  "Q a s \<Longrightarrow> runs (retM a) s Q R"
  "R e s \<Longrightarrow> runs (failM e) s Q R"
  by (simp_all add: runs_def)

lemma runs_liftM [wp]:
  "(\<And>a. r = Inr a \<Longrightarrow> Q a s) \<Longrightarrow> (\<And>e. r = Inl e \<Longrightarrow> R e s) \<Longrightarrow> runs (liftM r) s Q R"
  by (simp add: runs_def split: sum.split)

lemma runs_askM [wp]:
  "(\<And>a. f s = Inr a \<Longrightarrow> Q a s) \<Longrightarrow> (\<And>e. f s = Inl e \<Longrightarrow> R e s) \<Longrightarrow> runs (askM f) s Q R"
  by (simp add: runs_def split: sum.split)

lemma runs_if [wp]:
  "(b \<Longrightarrow> runs m s Q R) \<Longrightarrow> (\<not> b \<Longrightarrow> runs m' s Q R) \<Longrightarrow> runs (if b then m else m') s Q R"
  by simp

lemma runs_option [wp]:
  "(x = None \<Longrightarrow> runs m s Q R) \<Longrightarrow> (\<And>a. x = Some a \<Longrightarrow> runs (f a) s Q R) \<Longrightarrow>
   runs (case x of None \<Rightarrow> m | Some a \<Rightarrow> f a) s Q R"
  by (simp split: option.split)

lemma runs_mono:
  "runs m s Q R \<Longrightarrow> (\<And>a s'. Q a s' \<Longrightarrow> Q' a s') \<Longrightarrow> (\<And>e s'. R e s' \<Longrightarrow> R' e s') \<Longrightarrow> runs m s Q' R'"
  by (auto simp: runs_def split: prod.splits sum.splits)

declare runs_bindM [wp]

section \<open>Computations that may not return\<close>

text \<open>
  A computation with a loop that the operating system may interrupt for ever has the result
  \<open>None\<close> when it does not return.
\<close>

type_synonym ('s, 'e, 'a) pop = "'s \<Rightarrow> (('e + 'a) \<times> 's) option"

definition bindO :: "('s, 'e, 'a) pop \<Rightarrow> ('a \<Rightarrow> ('s, 'e, 'b) pop) \<Rightarrow> ('s, 'e, 'b) pop" where
  "bindO m f s = (case m s of None \<Rightarrow> None | Some (Inl e, s') \<Rightarrow> Some (Inl e, s')
     | Some (Inr a, s') \<Rightarrow> f a s')"

definition totalO :: "('s, 'e, 'a) op \<Rightarrow> ('s, 'e, 'a) pop" where
  "totalO m s = Some (m s)"

lemma totalO_simp [simp]: "totalO m s = Some (m s)"
  by (simp add: totalO_def)

lemma bindO_Inr [bind_inv]:
  "bindO m f s = Some (Inr b, s') \<longleftrightarrow>
     (\<exists>a s1. m s = Some (Inr a, s1) \<and> f a s1 = Some (Inr b, s'))"
  by (auto simp: bindO_def split: option.splits prod.splits sum.splits)

lemma bindO_Inl [bind_inv]:
  "bindO m f s = Some (Inl e, s') \<longleftrightarrow>
     m s = Some (Inl e, s') \<or> (\<exists>a s1. m s = Some (Inr a, s1) \<and> f a s1 = Some (Inl e, s'))"
  by (auto simp: bindO_def split: option.splits prod.splits sum.splits)

lemma bindO_step [simp]:
  "m s = None \<Longrightarrow> bindO m f s = None"
  "m s = Some (Inl e, s') \<Longrightarrow> bindO m f s = Some (Inl e, s')"
  "m s = Some (Inr a, s') \<Longrightarrow> bindO m f s = f a s'"
  by (simp_all add: bindO_def)

lemma bindO_returns [frame]:
  "(\<And>s. m s \<noteq> None) \<Longrightarrow> (\<And>a s. f a s \<noteq> None) \<Longrightarrow> bindO m f s \<noteq> None"
  by (auto simp: bindO_def split: option.splits sum.splits)

text \<open>Partial correctness: \<open>Q\<close> after success, \<open>E\<close> after an error.\<close>

definition hoareO ::
  "('s \<Rightarrow> bool) \<Rightarrow> ('s, 'e, 'a) pop \<Rightarrow> ('a \<Rightarrow> 's \<Rightarrow> bool) \<Rightarrow> ('s \<Rightarrow> bool) \<Rightarrow> bool" where
  "hoareO P m Q E \<longleftrightarrow>
     (\<forall>s r s'. P s \<longrightarrow> m s = Some (r, s') \<longrightarrow> (case r of Inr a \<Rightarrow> Q a s' | Inl _ \<Rightarrow> E s'))"

lemma hoareOI:
  "(\<And>s a s'. P s \<Longrightarrow> m s = Some (Inr a, s') \<Longrightarrow> Q a s') \<Longrightarrow>
   (\<And>s e s'. P s \<Longrightarrow> m s = Some (Inl e, s') \<Longrightarrow> E s') \<Longrightarrow> hoareO P m Q E"
  unfolding hoareO_def by (metis sum.case sum.exhaust)

lemma hoareOD:
  assumes "hoareO P m Q E" and "P s"
  shows "m s = Some (Inr a, s') \<Longrightarrow> Q a s'" and "m s = Some (Inl e, s') \<Longrightarrow> E s'"
  using assms by (fastforce simp: hoareO_def)+

lemma hoareO_bindO:
  "hoareO P m M E \<Longrightarrow> (\<And>a. hoareO (M a) (f a) Q E) \<Longrightarrow> hoareO P (bindO m f) Q E"
  unfolding hoareO_def bindO_def
  by (auto split: option.splits prod.splits sum.splits) (metis sum.case(2) sum.case(1))+

lemma hoareO_post: "hoareO P m Q E \<Longrightarrow> (\<And>a s. Q a s \<Longrightarrow> Q' a s) \<Longrightarrow> hoareO P m Q' E"
  unfolding hoareO_def by (fastforce split: sum.splits)

lemma hoareO_totalO:
  "(\<And>s. P s \<Longrightarrow> case m s of (Inr a, s') \<Rightarrow> Q a s' | (Inl _, s') \<Rightarrow> E s') \<Longrightarrow> hoareO P (totalO m) Q E"
  unfolding hoareO_def by (fastforce split: prod.splits sum.splits)

lemma hoareO_runs: "runs m c Q (\<lambda>_. R) \<Longrightarrow> hoareO (\<lambda>s. s = c) (totalO m) Q R"
  by (rule hoareO_totalO) (simp add: runs_def)

section \<open>Decimal numbers\<close>

text \<open>\<^verbatim>\<open>std::to_string\<close> of an unsigned number.\<close>

fun dec_digits :: "nat \<Rightarrow> string" where
  "dec_digits n =
     (if n < 10 then [char_of (48 + n)] else dec_digits (n div 10) @ [char_of (48 + n mod 10)])"

declare dec_digits.simps [simp del]

definition to_string :: "u64 \<Rightarrow> string" where
  "to_string w = dec_digits (unat w)"

lemma dec_digits_nonempty [simp]: "dec_digits n \<noteq> []"
  by (subst dec_digits.simps) simp

text \<open>Reading the digits back.\<close>

definition dec_value :: "string \<Rightarrow> nat" where
  "dec_value s = foldl (\<lambda>a c. 10 * a + (of_char c - 48)) 0 s"

lemma of_char_digit: "d < 10 \<Longrightarrow> of_char (char_of (48 + d :: nat)) = 48 + (d :: nat)"
  by simp

lemma dec_value_digits [simp]: "dec_value (dec_digits n) = n"
proof (induction n rule: dec_digits.induct)
  case (1 n)
  show ?case
  proof (cases "n < 10")
    case True
    then show ?thesis by (subst dec_digits.simps) (simp add: dec_value_def)
  next
    case False
    with "1.IH" have IH: "dec_value (dec_digits (n div 10)) = n div 10" by simp
    from False have "dec_value (dec_digits n) =
        10 * dec_value (dec_digits (n div 10)) + n mod 10"
      by (subst dec_digits.simps) (simp add: dec_value_def)
    with IH show ?thesis by simp
  qed
qed

lemma to_string_inj [simp]: "to_string a = to_string b \<longleftrightarrow> a = b"
  by (metis to_string_def dec_value_digits word_unat_eq_iff)

lemma dec_digits_chars: "c \<in> set (dec_digits n) \<Longrightarrow> (48 :: nat) \<le> of_char c \<and> of_char c \<le> (57 :: nat)"
proof (induction n arbitrary: c rule: dec_digits.induct)
  case (1 n)
  show ?case
  proof (cases "n < 10")
    case True
    with "1.prems" show ?thesis by (subst (asm) dec_digits.simps) auto
  next
    case False
    with "1.prems" have "c \<in> set (dec_digits (n div 10)) \<or> c = char_of (48 + n mod 10)"
      by (subst (asm) dec_digits.simps) auto
    with "1.IH" False show ?thesis by auto
  qed
qed

section \<open>Words\<close>

lemma unat_Suc_word: "w + 1 \<noteq> 0 \<Longrightarrow> unat (w + 1 :: 'a::len word) = Suc (unat w)"
  by (metis unatSuc add.commute)

lemma unat_of_nat_u64: "n < 2 ^ 64 \<Longrightarrow> unat (of_nat n :: u64) = n"
  by (simp add: unat_of_nat)

lemma unat_u64_bound: "n \<le> unat (w :: u64) \<Longrightarrow> n < 2 ^ 64"
  using unsigned_less [where ?'a = nat, of w] by simp

lemma word_Suc_neq_0: "(w :: 'a::len word) < v \<Longrightarrow> w + 1 \<noteq> 0"
proof
  assume "w < v" and "w + 1 = 0"
  then have "w = - 1" by (simp add: eq_neg_iff_add_eq_0)
  with \<open>w < v\<close> show False by simp
qed

lemma word_less_Suc: "(w :: 'a::len word) + 1 \<noteq> 0 \<Longrightarrow> v < w + 1 \<longleftrightarrow> v \<le> w"
  by (simp add: word_less_nat_alt word_le_nat_alt unat_Suc_word less_Suc_eq_le)

lemma unat_add_no_wrap:
  "unat (a :: u64) + unat (b :: u64) < 2 ^ 64 \<Longrightarrow> unat (a + b) = unat a + unat b"
  by (simp add: unat_word_ariths)

lemma unat_ucast_u64: "unat (ucast (x :: u32) :: u64) = unat x"
proof -
  have "unat x < 2 ^ 64" using unsigned_less [where ?'a = nat, of x] by simp
  then show ?thesis by (simp add: unsigned_ucast_eq take_bit_nat_eq_self)
qed

end
