(* ===== verification/Status.thy ===== *)
theory Status
  imports Prelude
begin

text \<open>
  \<^verbatim>\<open>src/common/\<close> and the error headers of \<^verbatim>\<open>src/storage/\<close>: the class
  \<^verbatim>\<open>Status\<close>, \<^verbatim>\<open>Result<T>\<close>, the limits, the translation of
  operating-system errors (\<^verbatim>\<open>io_error.h\<close>) and of RocksDB statuses
  (\<^verbatim>\<open>rocksdb_status.h\<close>), and the fault injector.

  A function of the sources that returns \<^verbatim>\<open>Result<T>\<close> returns \<open>'a result\<close> here,
  one that returns \<^verbatim>\<open>Status\<close> returns \<open>unit result\<close>: \<open>Inr ()\<close> is
  \<^verbatim>\<open>Status::Ok()\<close> and \<open>Inl s\<close> a status whose \<^verbatim>\<open>ok()\<close> is false.
  Where the sources keep a \<^verbatim>\<open>Status\<close> as data it is the record \<open>status\<close>.
\<close>

section \<open>The class Status\<close>

text \<open>The gRPC codes the sources name.\<close>

datatype status_code = OK | CANCELLED | INVALID_ARGUMENT | DEADLINE_EXCEEDED | NOT_FOUND
  | ALREADY_EXISTS | PERMISSION_DENIED | UNAUTHENTICATED | RESOURCE_EXHAUSTED | ABORTED
  | OUT_OF_RANGE | INTERNAL | UNAVAILABLE | DATA_LOSS

record status =
  st_code :: status_code
  st_message :: string
  st_requires_server_exit :: bool
  st_storage_diagnostic :: string

type_synonym 'a result = "status + 'a"

definition status_Ok :: status where
  "status_Ok = \<lparr>st_code = OK, st_message = [], st_requires_server_exit = False,
     st_storage_diagnostic = []\<rparr>"

definition mk_status :: "status_code \<Rightarrow> string \<Rightarrow> status" where
  "mk_status c m = \<lparr>st_code = c, st_message = m, st_requires_server_exit = False,
     st_storage_diagnostic = []\<rparr>"

definition status_Fatal :: "status_code \<Rightarrow> string \<Rightarrow> status" where
  "status_Fatal c m = (mk_status c m)\<lparr>st_requires_server_exit := True\<rparr>"

definition status_ok :: "status \<Rightarrow> bool" where
  "status_ok s \<longleftrightarrow> st_code s = OK"

definition WithStorageDiagnostic :: "status \<Rightarrow> string \<Rightarrow> string \<Rightarrow> status" where
  "WithStorageDiagnostic s operation error =
     s\<lparr>st_storage_diagnostic := ''operation='' @ operation @ ''; error='' @ error\<rparr>"

definition StorageCorruption :: "string \<Rightarrow> string \<Rightarrow> status" where
  "StorageCorruption operation error =
     WithStorageDiagnostic (mk_status DATA_LOSS error) operation error"

text \<open>
  The number of a code (\<^verbatim>\<open>static_cast<int>\<close> of a gRPC enumerator) is a parameter: the
  enumeration is gRPC's.
\<close>

definition FatalLogMessage :: "(status_code \<Rightarrow> nat) \<Rightarrow> status \<Rightarrow> string" where
  "FatalLogMessage code_int s =
     ''fatal storage error: '' @
     (if st_storage_diagnostic s = [] then ''operation=storage; error=unclassified failure''
      else st_storage_diagnostic s) @
     ''; grpc_code='' @ dec_digits (code_int (st_code s))"

definition ToGrpc :: "status \<Rightarrow> status_code \<times> string" where
  "ToGrpc s = (if status_ok s then (OK, []) else (st_code s, st_message s))"

text \<open>A \<^verbatim>\<open>Status\<close> value as the result of a function.\<close>

definition to_result :: "status \<Rightarrow> unit result" where
  "to_result s = (if status_ok s then Inr () else Inl s)"

definition of_result :: "'a result \<Rightarrow> status" where
  "of_result r = (case r of Inl s \<Rightarrow> s | Inr _ \<Rightarrow> status_Ok)"

lemma of_result_simps [simp]: "of_result (Inl s) = s" "of_result (Inr a) = status_Ok"
  by (simp_all add: of_result_def)

lemma status_simps [simp]:
  "st_code status_Ok = OK" "st_requires_server_exit status_Ok = False"
  "st_code (mk_status c m) = c" "st_message (mk_status c m) = m"
  "st_requires_server_exit (mk_status c m) = False"
  "st_storage_diagnostic (mk_status c m) = []"
  "st_code (status_Fatal c m) = c" "st_requires_server_exit (status_Fatal c m) = True"
  "st_message (status_Fatal c m) = m"
  "st_code (WithStorageDiagnostic s a b) = st_code s"
  "st_message (WithStorageDiagnostic s a b) = st_message s"
  "st_requires_server_exit (WithStorageDiagnostic s a b) = st_requires_server_exit s"
  "st_code (StorageCorruption a b) = DATA_LOSS"
  "st_requires_server_exit (StorageCorruption a b) = False"
  by (simp_all add: status_Ok_def mk_status_def status_Fatal_def WithStorageDiagnostic_def
      StorageCorruption_def)

lemma status_ok_simps [simp]:
  "status_ok status_Ok"
  "status_ok (mk_status c m) \<longleftrightarrow> c = OK"
  "status_ok (status_Fatal c m) \<longleftrightarrow> c = OK"
  "status_ok (WithStorageDiagnostic s a b) \<longleftrightarrow> status_ok s"
  "\<not> status_ok (StorageCorruption a b)"
  by (simp_all add: status_ok_def)

lemma to_result_Inr [simp]: "to_result s = Inr u \<longleftrightarrow> status_ok s"
  by (simp add: to_result_def)

lemma to_result_Inl: "to_result s = Inl e \<longleftrightarrow> \<not> status_ok s \<and> e = s"
  by (auto simp: to_result_def)

text \<open>A status that makes the server exit: \<^verbatim>\<open>requires_server_exit()\<close> or data loss.\<close>

definition is_fatal :: "status \<Rightarrow> bool" where
  "is_fatal s \<longleftrightarrow> st_requires_server_exit s \<or> st_code s = DATA_LOSS"

section \<open>Limits\<close>

definition kGrpcMessageBytes :: nat where "kGrpcMessageBytes = 64 * 1024 * 1024"
definition kMessagePageSoftBytes :: u64 where "kMessagePageSoftBytes = 17 * 1024 * 1024"
definition kObjectTokenRandomBytes :: nat where "kObjectTokenRandomBytes = 32"
definition kObjectTokenEncodedBytes :: nat where "kObjectTokenEncodedBytes = 43"
definition kMaxObjectNameBytes :: nat where "kMaxObjectNameBytes = 255"
definition kMaxObjectTypeBytes :: nat where "kMaxObjectTypeBytes = 255"
definition kMaxObjectDescriptionBytes :: nat where "kMaxObjectDescriptionBytes = 4096"
definition kMaxObjectBytes :: nat where "kMaxObjectBytes = 4 * 1024 * 1024"
definition kMaxObjectKeys :: nat where "kMaxObjectKeys = 1024"

lemmas limits = kGrpcMessageBytes_def kMessagePageSoftBytes_def kObjectTokenRandomBytes_def
  kObjectTokenEncodedBytes_def kMaxObjectNameBytes_def kMaxObjectTypeBytes_def
  kMaxObjectDescriptionBytes_def kMaxObjectBytes_def kMaxObjectKeys_def

section \<open>Operating-system errors\<close>

datatype errno = ENOSPC | EDQUOT | ENOENT | EEXIST | EISDIR | EPERM | ELOOP | EINTR | Errno nat

definition ErrnoMessage :: "(errno \<Rightarrow> string) \<Rightarrow> string \<Rightarrow> errno \<Rightarrow> string" where
  "ErrnoMessage strerror operation error = operation @ '': '' @ strerror error"

definition ObjectIoStatus :: "(errno \<Rightarrow> string) \<Rightarrow> string \<Rightarrow> errno \<Rightarrow> status" where
  "ObjectIoStatus strerror operation error =
     (if error = ENOSPC \<or> error = EDQUOT
      then mk_status RESOURCE_EXHAUSTED (ErrnoMessage strerror operation error)
      else mk_status UNAVAILABLE (ErrnoMessage strerror operation error))"

lemma ObjectIoStatus_not_fatal [simp]:
  "\<not> is_fatal (ObjectIoStatus strerror operation error)"
  "st_code (ObjectIoStatus strerror operation error) \<noteq> OK"
  by (simp_all add: ObjectIoStatus_def is_fatal_def)

section \<open>RocksDB statuses\<close>

text \<open>
  The observable part of a \<^verbatim>\<open>rocksdb::Status\<close>: its error enumerators and its free-form
  state. \<^verbatim>\<open>ToString()\<close> is a parameter.
\<close>

datatype rocks_code = rocksOk | rocksNotFound | rocksCorruption | rocksOther nat

record rocks_status =
  rs_code :: rocks_code
  rs_subcode :: nat
  rs_severity :: nat
  rs_state :: string

definition rocks_ok :: "rocks_status \<Rightarrow> bool" where
  "rocks_ok s \<longleftrightarrow> rs_code s = rocksOk"

definition rocks_not_found :: "rocks_status \<Rightarrow> bool" where
  "rocks_not_found s \<longleftrightarrow> rs_code s = rocksNotFound"

definition RocksToStatus :: "(rocks_status \<Rightarrow> string) \<Rightarrow> rocks_status \<Rightarrow> string \<Rightarrow> unit result" where
  "RocksToStatus rocks_ToString s operation =
     (if rocks_ok s then Inr ()
      else
        let code = (if rs_code s = rocksCorruption then DATA_LOSS else UNAVAILABLE);
            diagnostic = s\<lparr>rs_state := []\<rparr>
        in Inl (WithStorageDiagnostic
             (status_Fatal code (operation @ '': '' @ rocks_ToString s))
             operation (rocks_ToString diagnostic)))"

lemma RocksToStatus_Inr [simp]: "RocksToStatus f s op = Inr u \<longleftrightarrow> rocks_ok s"
  by (simp add: RocksToStatus_def Let_def)

lemma RocksToStatus_fatal:
  "RocksToStatus f s op = Inl e \<Longrightarrow> st_requires_server_exit e \<and> st_code e \<noteq> OK"
  by (auto simp: RocksToStatus_def Let_def split: if_splits)

section \<open>Fault injection\<close>

datatype storage_fault_point = kBeforeInitializationCommit | kAfterInitializationCommit
  | kBeforeCommit | kAfterCommit | kAfterTemporaryFileCreate | kBeforeTemporaryFileWrite
  | kAfterTemporaryFileWrite | kBeforeFileFsync | kAfterFileFsync | kBeforeRename | kAfterRename
  | kBeforeDirectoryFsync | kAfterDirectoryFsync

type_synonym storage_fault_injector = "(storage_fault_point \<Rightarrow> status) option"

definition InjectStorageFault :: "storage_fault_injector \<Rightarrow> storage_fault_point \<Rightarrow> unit result" where
  "InjectStorageFault injector point =
     (case injector of None \<Rightarrow> Inr () | Some f \<Rightarrow> to_result (f point))"

lemma InjectStorageFault_None [simp]: "InjectStorageFault None p = Inr ()"
  by (simp add: InjectStorageFault_def)

end
