(* ===== verification/Encoding.thy ===== *)
theory Encoding
  imports Status
begin

text \<open>
  \<^verbatim>\<open>src/storage/encoding.h\<close> and the keys built on it in
  \<^verbatim>\<open>src/storage/unified_storage.cpp\<close>: the big-endian encoding of 64-bit numbers, the numeric
  keys, the credential keys and their decoders. The interface \<open>key_codec\<close> states what the
  storage relies on: decoding inverts encoding, encodings have eight bytes, and the bytewise order
  of the keys is the numeric order, which is what makes an iterator over the messages a scan in
  sequence order.
\<close>

section \<open>The encoding of 64-bit numbers\<close>

definition EncodeUint64 :: "u64 \<Rightarrow> bytes" where
  "EncodeUint64 value =
     map (\<lambda>i. char_of (unat (drop_bit (i * 8) value AND 0xff))) [7, 6, 5, 4, 3, 2, 1, 0]"

definition DecodeUint64 :: "bytes \<Rightarrow> u64" where
  "DecodeUint64 value =
     (if length value \<noteq> 8 then 0 else foldl (\<lambda>out ch. push_bit 8 out OR of_char ch) 0 value)"

text \<open>Both on natural numbers: base-256 digits, most significant first.\<close>

definition be_value :: "bytes \<Rightarrow> nat" where
  "be_value s = foldl (\<lambda>a c. 256 * a + of_char c) 0 s"

lemma be_value_Nil [simp]: "be_value [] = 0"
  by (simp add: be_value_def)

lemma be_value_snoc [simp]: "be_value (s @ [c]) = 256 * be_value s + of_char c"
  by (simp add: be_value_def)

lemma of_char_less_256 [simp]: "of_char c < (256 :: nat)"
  using nat_of_char_less_256 by blast

lemma be_value_bound: "be_value s < 256 ^ length s"
proof (induction s rule: rev_induct)
  case Nil
  then show ?case by simp
next
  case (snoc c s)
  have "of_char c < (256 :: nat)" by simp
  with snoc show ?case by (simp del: of_char_less_256)
qed

lemma be_value_Cons: "be_value (c # s) = of_char c * 256 ^ length s + be_value s"
  by (induction s rule: rev_induct)
    (simp_all add: be_value_def append_Cons [symmetric] algebra_simps del: append_Cons)


lemma byte_or_eq_add: "push_bit 8 (w :: 'a::len word) OR of_char c = 256 * w + of_char c"
proof -
  have c: "(of_char c :: 'a word) = take_bit 8 (of_char c)"
  proof -
    have "take_bit 8 (of_char c :: nat) = of_char c"
      by (simp add: take_bit_eq_mod)
    then have "take_bit 8 (of_nat (of_char c) :: 'a word) = of_nat (of_char c)"
      by (simp only: take_bit_of_nat)
    then show ?thesis by (simp add: of_nat_of_char)
  qed
  have "push_bit 8 w AND (of_char c :: 'a word) = 0"
    by (subst c) (rule bit_eqI, auto simp: bit_simps)
  then have "push_bit 8 w + of_char c = push_bit 8 w OR of_char c"
    by (rule disjunctive_add_eq_or)
  then show ?thesis by (simp add: push_bit_eq_mult mult.commute)
qed

lemma foldl_decode: "foldl (\<lambda>out ch. push_bit 8 out OR of_char ch) (0 :: u64) s = of_nat (be_value s)"
  by (induction s rule: rev_induct) (simp_all add: byte_or_eq_add of_nat_of_char)

lemma unat_DecodeUint64: "length s = 8 \<Longrightarrow> unat (DecodeUint64 s) = be_value s"
  using be_value_bound [of s] by (simp add: DecodeUint64_def foldl_decode unat_of_nat)

lemma length_EncodeUint64 [simp]: "length (EncodeUint64 v) = 8"
  by (simp add: EncodeUint64_def)

lemma encode_digit: "unat (drop_bit (i * 8) (v :: u64) AND 0xff) = unat v div 256 ^ i mod 256"
proof -
  have "(0xff :: u64) = mask 8" by (simp add: mask_eq_exp_minus_1)
  then have "unat (drop_bit (i * 8) v AND 0xff) = unat (take_bit 8 (drop_bit (i * 8) v))"
    by (simp add: take_bit_eq_mask)
  also have "\<dots> = unat v div 2 ^ (i * 8) mod 2 ^ 8"
    by (simp only: unsigned_take_bit_eq unat_drop_bit_eq) (simp add: drop_bit_eq_div take_bit_eq_mod)
  also have "(2 :: nat) ^ (i * 8) = 256 ^ i" by (simp add: power_mult mult.commute [of i])
  finally show ?thesis by simp
qed

lemma EncodeUint64_digits:
  "EncodeUint64 v = map (\<lambda>i. char_of (unat v div 256 ^ i mod 256)) [7, 6, 5, 4, 3, 2, 1, 0]"
  unfolding EncodeUint64_def by (intro map_cong refl arg_cong [where f = char_of] encode_digit)

lemma horner_step: "256 * (n div 256 ^ Suc i) + n div 256 ^ i mod 256 = n div (256 :: nat) ^ i"
  by (simp add: div_mult2_eq power_Suc2 del: power_Suc)

lemma be_value_EncodeUint64: "be_value (EncodeUint64 v) = unat v"
proof -
  let ?d = "\<lambda>i. unat v div 256 ^ i"
  have top: "?d 7 mod 256 = ?d 7"
    using unsigned_less [where ?'a = nat, of v] by (simp add: less_mult_imp_div_less)
  have "be_value (EncodeUint64 v) =
    256 * (256 * (256 * (256 * (256 * (256 * (256 * (?d 7 mod 256) + ?d 6 mod 256) + ?d 5 mod 256)
      + ?d 4 mod 256) + ?d 3 mod 256) + ?d 2 mod 256) + ?d 1 mod 256) + ?d 0 mod 256"
    by (simp only: EncodeUint64_digits be_value_def list.map foldl.simps of_char_of mod_mod_trivial) simp
  also have "\<dots> = ?d 0"
    unfolding top
    using horner_step [of "unat v" 6] horner_step [of "unat v" 5] horner_step [of "unat v" 4]
      horner_step [of "unat v" 3] horner_step [of "unat v" 2] horner_step [of "unat v" 1]
      horner_step [of "unat v" 0]
    by (simp only: eval_nat_numeral BitM.simps One_nat_def)
  finally show ?thesis by simp
qed

lemma Decode_Encode: "DecodeUint64 (EncodeUint64 v) = v"
  by (simp add: word_unat_eq_iff unat_DecodeUint64 be_value_EncodeUint64)

lemma be_value_inj: "length s = length t \<Longrightarrow> be_value s = be_value t \<Longrightarrow> s = t"
proof (induction s t rule: rev_induct2)
  case (4 c s d t)
  then have eq: "256 * be_value s + of_char c = 256 * be_value t + of_char d" by simp
  then have "(256 * be_value s + of_char c) mod 256 = (256 * be_value t + of_char d) mod 256"
    by simp
  then have "c = d" by simp
  with eq 4 show ?case by simp
qed simp_all

lemma Encode_Decode: "length s = 8 \<Longrightarrow> EncodeUint64 (DecodeUint64 s) = s"
  by (rule be_value_inj) (simp_all add: be_value_EncodeUint64 unat_DecodeUint64)

lemma be_value_less: "length s = length t \<Longrightarrow> s < t \<longleftrightarrow> be_value s < be_value t"
proof (induction s t rule: list_induct2)
  case Nil
  then show ?case by simp
next
  case (Cons c s d t)
  let ?b = "256 ^ length t :: nat"
  have s: "be_value s < ?b" and t: "be_value t < ?b"
    using be_value_bound [of s] be_value_bound [of t] Cons.hyps by simp_all
  have lt: "of_char x * ?b + m < of_char y * ?b + n" if "x < y" "m < ?b" for x y :: char and m n
  proof -
    have "Suc (of_char x) \<le> (of_char y :: nat)" using that by (simp add: less_char_def)
    then have "Suc (of_char x) * ?b \<le> of_char y * ?b" by (rule mult_le_mono1)
    with that show ?thesis by simp
  qed
  consider "c < d" | "c = d" | "d < c" by fastforce
  then show ?case
  proof cases
    case 1
    then show ?thesis using lt [OF 1 s] Cons.hyps by (simp add: be_value_Cons)
  next
    case 2
    then show ?thesis using Cons by (simp add: be_value_Cons)
  next
    case 3
    then show ?thesis using lt [OF 3 t, of "be_value s"] Cons.hyps by (auto simp: be_value_Cons)
  qed
qed

lemma Encode_less: "EncodeUint64 a < EncodeUint64 b \<longleftrightarrow> a < b"
  by (simp add: be_value_less be_value_EncodeUint64 word_less_nat_alt)

section \<open>Keys\<close>

definition kSchemaVersionKey :: bytes where "kSchemaVersionKey = ''meta:schema_version''"
definition kMaxSeqKey :: bytes where "kMaxSeqKey = ''meta:max_seq''"
definition kNextUuidKey :: bytes where "kNextUuidKey = ''meta:next_uuid''"
definition kNextChannelIdKey :: bytes where "kNextChannelIdKey = ''meta:next_channel_id''"
definition kNextObjectIdKey :: bytes where "kNextObjectIdKey = ''meta:next_object_id''"
definition kChannelPrefix :: bytes where "kChannelPrefix = ''ch/''"
definition kTokenPrefix :: bytes where "kTokenPrefix = ''token/''"
definition kMessagePrefix :: bytes where "kMessagePrefix = ''msg/''"
definition kUuidPrefix :: bytes where "kUuidPrefix = ''uuid/''"
definition kPreparingObjectPrefix :: bytes where "kPreparingObjectPrefix = ''preparing/''"
definition kCommittedObjectPrefix :: bytes where "kCommittedObjectPrefix = ''object/''"

lemmas key_constants = kSchemaVersionKey_def kMaxSeqKey_def kNextUuidKey_def kNextChannelIdKey_def
  kNextObjectIdKey_def kChannelPrefix_def kTokenPrefix_def kMessagePrefix_def kUuidPrefix_def
  kPreparingObjectPrefix_def kCommittedObjectPrefix_def

definition NumericKey :: "bytes \<Rightarrow> u64 \<Rightarrow> bytes" where
  "NumericKey pre value = pre @ EncodeUint64 value"

definition TokenKey :: "u64 \<Rightarrow> bytes \<Rightarrow> bytes" where
  "TokenKey prin token = NumericKey kTokenPrefix prin @ token"

definition DecodeRequiredUint64 :: "bytes \<Rightarrow> string \<Rightarrow> u64 result" where
  "DecodeRequiredUint64 value description =
     (if length value \<noteq> 8
      then Inl (StorageCorruption (''decode '' @ description) (''invalid '' @ description @ '' encoding''))
      else Inr (DecodeUint64 value))"

definition DecodeNumericKey :: "bytes \<Rightarrow> bytes \<Rightarrow> string \<Rightarrow> u64 result" where
  "DecodeNumericKey key pre description =
     (let prefix_size = length pre in
      if length key \<noteq> prefix_size + 8 \<or> take prefix_size key \<noteq> pre
      then Inl (StorageCorruption (''decode '' @ description) (''invalid '' @ description @ '' key''))
      else Inr (DecodeUint64 (take 8 (drop prefix_size key))))"

section \<open>What the storage relies on\<close>

text \<open>
  Bytewise order and prefixes: every key that starts with \<open>p\<close> comes before every larger key
  that does not, so the keys with a common prefix are contiguous in an iteration.
\<close>

lemma append_less_append [simp]: "p @ a < p @ b \<longleftrightarrow> a < (b :: bytes)"
  by (induction p) auto

lemma append_le_append [simp]: "p @ a \<le> p @ b \<longleftrightarrow> a \<le> (b :: bytes)"
  by (auto simp: le_less)

lemma beyond_prefix:
  fixes k :: bytes
  assumes "\<not> prefix p k" and "p @ a \<le> k"
  shows "p @ b < k"
  using assms
proof (induction p arbitrary: k)
  case Nil
  then show ?case by simp
next
  case (Cons c p)
  then obtain d k' where k: "k = d # k'" by (cases k) auto
  show ?case
  proof (cases "c = d")
    case True
    with Cons.prems k have "p @ b < k'" by (intro Cons.IH) auto
    with True k show ?thesis by simp
  next
    case False
    with Cons.prems k show ?thesis by auto
  qed
qed

lemma prefix_run_takeWhile:
  fixes es :: "(bytes \<times> bytes) list"
  assumes sorted: "sorted_wrt (<) (map fst es)"
    and lower: "\<And>k. k \<in> set (map fst es) \<Longrightarrow> p @ a \<le> k"
  shows "set (takeWhile (\<lambda>(k, _). prefix p k) es) = {(k, v) \<in> set es. prefix p k}"
  using assms
proof (induction es)
  case Nil
  then show ?case by simp
next
  case (Cons e es)
  obtain k0 v0 where e: "e = (k0, v0)" by (cases e)
  show ?case
  proof (cases "prefix p k0")
    case True
    with Cons e show ?thesis by auto
  next
    case False
    have "\<not> prefix p k" if "(k, v) \<in> set es" for k v
    proof
      assume "prefix p k"
      then obtain b where k: "k = p @ b" by (auto simp: prefix_def)
      have "p @ a \<le> k0" using Cons.prems(2) e by simp
      with False have "p @ b < k0" by (rule beyond_prefix)
      moreover have "k0 < k" using Cons.prems(1) e that by force
      ultimately show False using k by simp
    qed
    with False e show ?thesis by auto
  qed
qed

locale key_codec =
  fixes enc :: "u64 \<Rightarrow> bytes" and dec :: "bytes \<Rightarrow> u64" and width :: nat
  assumes enc_length: "length (enc v) = width"
    and dec_enc: "dec (enc v) = v"
    and enc_dec: "length s = width \<Longrightarrow> enc (dec s) = s"
    and enc_less: "enc a < enc b \<longleftrightarrow> a < b"
begin

lemma enc_inj: "enc a = enc b \<longleftrightarrow> a = b"
  by (metis dec_enc)

lemma enc_le: "enc a \<le> enc b \<longleftrightarrow> a \<le> b"
  by (auto simp: le_less enc_less enc_inj)

lemma key_inj: "p @ enc a = p @ enc b \<longleftrightarrow> a = b"
  by (simp add: enc_inj)

lemma tailed_key_inj: "p @ enc a @ s = p @ enc b @ t \<longleftrightarrow> a = b \<and> s = t"
  by (auto simp: enc_length enc_inj)

lemma key_shape: "length k = length p + width \<Longrightarrow> prefix p k \<Longrightarrow> k = p @ enc (dec (drop (length p) k))"
  by (auto simp: prefix_def enc_dec)

text \<open>
  The entries an ordered iteration yields from a start key on, cut off where the prefix ends: when
  the keys with the prefix \<open>p\<close> are exactly the encodings of \<open>0, \<dots>, hi\<close>, it is the run
  \<open>from, \<dots>, hi\<close> in order, without gaps.
\<close>

lemma ordered_run:
  fixes es :: "(bytes \<times> bytes) list"
  assumes sorted: "sorted_wrt (<) (map fst es)"
    and keys: "\<And>k. k \<in> set (map fst es) \<longleftrightarrow> k \<in> D \<and> p @ enc from \<le> k"
    and dense: "\<And>k. k \<in> D \<and> prefix p k \<longleftrightarrow> (\<exists>s \<le> hi. k = p @ enc s)"
  shows "map fst (takeWhile (\<lambda>(k, _). prefix p k) es) =
    map (\<lambda>n. p @ enc (of_nat n)) [unat from..<Suc (unat hi)]"
proof (rule sorted_distinct_set_unique)
  let ?t = "takeWhile (\<lambda>(k, _). prefix p k) es"
  let ?run = "map (\<lambda>n. p @ enc (of_nat n)) [unat from..<Suc (unat hi)]"
  have "map fst es = map fst ?t @ map fst (dropWhile (\<lambda>(k, _). prefix p k) es)"
    by (metis map_append takeWhile_dropWhile_id)
  with sorted have st: "sorted_wrt (<) (map fst ?t)"
    by (metis sorted_wrt_append)
  then show "sorted (map fst ?t)" and "distinct (map fst ?t)"
    by (simp_all add: strict_sorted_iff)
  have un: "unat (of_nat n :: u64) = n" if "n \<le> unat hi" for n
    using that by (intro unat_of_nat_u64) (rule unat_u64_bound)
  have sr: "sorted_wrt (<) ?run"
    unfolding sorted_wrt_map
    by (rule sorted_wrt_mono_rel [OF _ sorted_wrt_upt])
      (auto simp: enc_less word_less_nat_alt un)
  then show "sorted ?run" and "distinct ?run" by (simp_all add: strict_sorted_iff)
  have lower: "p @ enc from \<le> k" if "k \<in> set (map fst es)" for k
    using keys that by blast
  have "k \<in> set (map fst ?t) \<longleftrightarrow> k \<in> set (map fst es) \<and> prefix p k" for k
    using prefix_run_takeWhile [OF sorted lower] by force
  then have t: "k \<in> set (map fst ?t) \<longleftrightarrow> (\<exists>s \<le> hi. k = p @ enc s) \<and> p @ enc from \<le> k" for k
    using keys dense by blast
  have run: "k \<in> set ?run \<longleftrightarrow> (\<exists>n. unat from \<le> n \<and> n \<le> unat hi \<and> k = p @ enc (of_nat n))" for k
    by (auto simp: less_Suc_eq_le simp del: upt_Suc)
  show "set (map fst ?t) = set ?run"
  proof (intro set_eqI iffI)
    fix k assume "k \<in> set (map fst ?t)"
    then obtain s where "s \<le> hi" "k = p @ enc s" "p @ enc from \<le> k"
      using t by blast
    then have "unat from \<le> unat s" "unat s \<le> unat hi" "k = p @ enc (of_nat (unat s))"
      by (auto simp: enc_le word_le_nat_alt)
    then show "k \<in> set ?run" unfolding run by blast
  next
    fix k assume "k \<in> set ?run"
    then obtain n where "unat from \<le> n" "n \<le> unat hi" "k = p @ enc (of_nat n)"
      unfolding run by blast
    then show "k \<in> set (map fst ?t)"
      unfolding t by (auto simp: enc_le word_le_nat_alt un intro!: exI [of _ "of_nat n"])
  qed
qed

end

interpretation be64: key_codec EncodeUint64 DecodeUint64 8
  by unfold_locales (simp_all add: Decode_Encode Encode_Decode Encode_less)

section \<open>The keys of the storage\<close>

lemma DecodeRequired_Encode [simp]: "DecodeRequiredUint64 (EncodeUint64 v) d = Inr v"
  by (simp add: DecodeRequiredUint64_def be64.dec_enc)

lemma DecodeRequired_iff: "DecodeRequiredUint64 s d = Inr v \<longleftrightarrow> s = EncodeUint64 v"
  by (auto simp: DecodeRequiredUint64_def be64.dec_enc be64.enc_dec)

lemma EncodeUint64_inj [simp]: "EncodeUint64 a = EncodeUint64 b \<longleftrightarrow> a = b"
  by (rule be64.enc_inj)

lemma NumericKey_inj [simp]: "NumericKey p a = NumericKey p b \<longleftrightarrow> a = b"
  by (simp add: NumericKey_def)

lemma NumericKey_less [simp]: "NumericKey p a < NumericKey p b \<longleftrightarrow> a < b"
  by (simp add: NumericKey_def be64.enc_less)

lemma prefix_NumericKey [simp]: "prefix p (NumericKey p v)"
  by (simp add: NumericKey_def)

lemma DecodeNumericKey_iff: "DecodeNumericKey k p d = Inr v \<longleftrightarrow> k = NumericKey p v"
proof
  assume "DecodeNumericKey k p d = Inr v"
  then have len: "length k = length p + 8" and pre: "take (length p) k = p"
    and v: "v = DecodeUint64 (take 8 (drop (length p) k))"
    by (auto simp: DecodeNumericKey_def Let_def split: if_splits)
  from len v have "EncodeUint64 v = drop (length p) k" by (simp add: be64.enc_dec)
  with pre show "k = NumericKey p v" by (metis NumericKey_def append_take_drop_id)
next
  assume "k = NumericKey p v"
  then show "DecodeNumericKey k p d = Inr v"
    by (simp add: DecodeNumericKey_def NumericKey_def be64.dec_enc)
qed

lemma DecodeNumericKey_NumericKey [simp]: "DecodeNumericKey (NumericKey p v) p d = Inr v"
  by (simp add: DecodeNumericKey_iff)

lemma TokenKey_inj [simp]: "TokenKey a s = TokenKey b t \<longleftrightarrow> a = b \<and> s = t"
  by (simp add: TokenKey_def NumericKey_def be64.tailed_key_inj)

text \<open>No two kinds of keys of a column family meet.\<close>

lemma key_kinds [simp]:
  "NumericKey kChannelPrefix a \<noteq> NumericKey kUuidPrefix b"
  "NumericKey kUuidPrefix a \<noteq> NumericKey kChannelPrefix b"
  "NumericKey kPreparingObjectPrefix a \<noteq> NumericKey kCommittedObjectPrefix b"
  "NumericKey kCommittedObjectPrefix a \<noteq> NumericKey kPreparingObjectPrefix b"
  "TokenKey p t \<noteq> NumericKey kChannelPrefix b" "NumericKey kChannelPrefix b \<noteq> TokenKey p t"
  "TokenKey p t \<noteq> NumericKey kUuidPrefix b" "NumericKey kUuidPrefix b \<noteq> TokenKey p t"
  by (simp_all add: NumericKey_def TokenKey_def key_constants)

lemma fixed_keys [simp]:
  "kMaxSeqKey \<noteq> kNextUuidKey" "kMaxSeqKey \<noteq> kNextChannelIdKey" "kMaxSeqKey \<noteq> kNextObjectIdKey"
  "kMaxSeqKey \<noteq> kSchemaVersionKey" "kNextUuidKey \<noteq> kMaxSeqKey" "kNextUuidKey \<noteq> kNextChannelIdKey"
  "kNextUuidKey \<noteq> kNextObjectIdKey" "kNextUuidKey \<noteq> kSchemaVersionKey"
  "kNextChannelIdKey \<noteq> kMaxSeqKey" "kNextChannelIdKey \<noteq> kNextUuidKey"
  "kNextChannelIdKey \<noteq> kNextObjectIdKey" "kNextChannelIdKey \<noteq> kSchemaVersionKey"
  "kNextObjectIdKey \<noteq> kMaxSeqKey" "kNextObjectIdKey \<noteq> kNextUuidKey"
  "kNextObjectIdKey \<noteq> kNextChannelIdKey" "kNextObjectIdKey \<noteq> kSchemaVersionKey"
  "kSchemaVersionKey \<noteq> kMaxSeqKey" "kSchemaVersionKey \<noteq> kNextUuidKey"
  "kSchemaVersionKey \<noteq> kNextChannelIdKey" "kSchemaVersionKey \<noteq> kNextObjectIdKey"
  by (simp_all add: key_constants)

abbreviation fixed_meta_keys :: "bytes set" where
  "fixed_meta_keys \<equiv> {kSchemaVersionKey, kMaxSeqKey, kNextUuidKey, kNextChannelIdKey, kNextObjectIdKey}"

lemma fixed_key_kinds:
  "k \<in> fixed_meta_keys \<Longrightarrow> k \<noteq> NumericKey kChannelPrefix a"
  "k \<in> fixed_meta_keys \<Longrightarrow> k \<noteq> NumericKey kUuidPrefix a"
  "k \<in> fixed_meta_keys \<Longrightarrow> k \<noteq> TokenKey p t"
  by (auto simp: NumericKey_def TokenKey_def key_constants)

lemmas fixed_key_neq [simp] = fixed_key_kinds [OF insertI1]
  fixed_key_kinds [OF insertI2, OF insertI1]
  fixed_key_kinds [OF insertI2, OF insertI2, OF insertI1]
  fixed_key_kinds [OF insertI2, OF insertI2, OF insertI2, OF insertI1]
  fixed_key_kinds [OF insertI2, OF insertI2, OF insertI2, OF insertI2, OF insertI1]

lemmas fixed_key_neq_sym [simp] = fixed_key_neq [THEN not_sym]

text \<open>
  C39: A message, channel, uuid or object key decodes to exactly the number it was built from, and
  nothing else decodes: \<^verbatim>\<open>DecodeNumericKey\<close> accepts a key if and only if it is
  \<^verbatim>\<open>NumericKey\<close> of the number it returns.
\<close>

theorem numeric_key_roundtrip: "DecodeNumericKey k p d = Inr v \<longleftrightarrow> k = NumericKey p v"
  by (rule DecodeNumericKey_iff)


end
