(* ===== verification/Wire.thy ===== *)
theory Wire
  imports Complex_Main Encoding
begin

text \<open>
  The data the server exchanges and stores, and the interfaces of the code that is not part of the
  repository. Messages, channels, object keys and requests are the records that the sources read and
  write through the generated protobuf classes; the stored object and the object record come from
  \<^verbatim>\<open>unified_storage.h\<close> and \<^verbatim>\<open>object_record.proto\<close>.

  RocksDB, protobuf and the operating system are parameters: the records \<open>rocksdb\<close>,
  \<open>proto\<close> and \<open>posix\<close> hold the functions the sources call. What the development relies
  on is stated as the predicates \<open>rocks_laws\<close> and \<open>proto_laws\<close> here and
  \<open>posix_laws\<close> with the object files; the fields marked as specification only occur in these
  predicates and in theorems, never in the model of a function of the sources.
\<close>

section \<open>Messages, channels, objects\<close>

record object_key =
  ok_object_id :: u64
  ok_object_token :: string

record event_message =
  msg_seq :: u64
  msg_channel_id :: u64
  msg_principal :: u64
  msg_recipients :: "u64 list"
  msg_payload :: string
  msg_ts_ms :: u64
  msg_uuid :: u64
  msg_object_keys :: "object_key list"

text \<open>A default-constructed protobuf message.\<close>

definition empty_message :: event_message where
  "empty_message = \<lparr>msg_seq = 0, msg_channel_id = 0, msg_principal = 0, msg_recipients = [],
     msg_payload = [], msg_ts_ms = 0, msg_uuid = 0, msg_object_keys = []\<rparr>"

text \<open>Protobuf enumerations are open: a message may carry a value no enumerator names.\<close>

datatype visibility = VISIBILITY_PUBLIC | VISIBILITY_PROTECTED | VISIBILITY_PRIVATE
  | VISIBILITY_VALUE nat

datatype channel_filter = CHANNEL_FILTER_ALL | CHANNEL_FILTER_JOINED | CHANNEL_FILTER_OWNED
  | CHANNEL_FILTER_VALUE nat

record channel_info =
  ch_channel_id :: u64
  ch_name :: string
  ch_visibility :: visibility
  ch_protocol :: string
  ch_description :: string
  ch_creator :: "u64 option"
  ch_members :: "u64 list"

record stored_object =
  so_object_id :: u64
  so_object_token :: string
  so_creator_principal :: u64
  so_name :: string
  so_type :: string
  so_description :: string
  so_nbytes :: u64

record object_record =
  rec_object_id :: u64
  rec_object_token :: string
  rec_creator_principal :: u64
  rec_name :: string
  rec_type :: string
  rec_description :: string
  rec_nbytes :: u64

text \<open>JSON values as \<^verbatim>\<open>google.protobuf.Struct\<close> holds them; a number is a finite double.\<close>

datatype json = NullValue | NumberValue rat | StringValue string | BoolValue bool
  | StructValue "(string \<times> json) list" | ListValue "json list"

section \<open>Protobuf\<close>

record proto =
  message_SerializeToString :: "event_message \<Rightarrow> bytes option"
  message_ParseFromString :: "bytes \<Rightarrow> event_message option"
  message_ByteSizeLong :: "event_message \<Rightarrow> u64"
  channel_SerializeToString :: "channel_info \<Rightarrow> bytes option"
  channel_ParseFromString :: "bytes \<Rightarrow> channel_info option"
  record_SerializeToString :: "object_record \<Rightarrow> bytes option"
  record_ParseFromString :: "bytes \<Rightarrow> object_record option"
  Visibility_IsValid :: "visibility \<Rightarrow> bool"
  JsonStringToMessage :: "string \<Rightarrow> (string \<times> json) list option"

text \<open>Documented behaviour of protobuf: what is serialized parses back to the same message, and the
  enumerators the sources name are valid values of their enumeration.\<close>

definition proto_laws :: "proto \<Rightarrow> bool" where
  "proto_laws P \<longleftrightarrow>
     (\<forall>m b. message_SerializeToString P m = Some b \<longrightarrow> message_ParseFromString P b = Some m) \<and>
     (\<forall>m b. channel_SerializeToString P m = Some b \<longrightarrow> channel_ParseFromString P b = Some m) \<and>
     (\<forall>m b. record_SerializeToString P m = Some b \<longrightarrow> record_ParseFromString P b = Some m) \<and>
     Visibility_IsValid P VISIBILITY_PUBLIC \<and> Visibility_IsValid P VISIBILITY_PROTECTED \<and>
     Visibility_IsValid P VISIBILITY_PRIVATE"

lemma proto_lawsD:
  assumes "proto_laws P"
  shows "message_SerializeToString P m = Some b \<Longrightarrow> message_ParseFromString P b = Some m"
    and "channel_SerializeToString P c = Some b \<Longrightarrow> channel_ParseFromString P b = Some c"
    and "record_SerializeToString P r = Some b \<Longrightarrow> record_ParseFromString P b = Some r"
    and "Visibility_IsValid P VISIBILITY_PUBLIC" "Visibility_IsValid P VISIBILITY_PROTECTED"
    "Visibility_IsValid P VISIBILITY_PRIVATE"
  using assms by (auto simp: proto_laws_def)

section \<open>RocksDB\<close>

text \<open>The three column families and the write batch, which records the operations put into it.\<close>

datatype cf = Meta | Messages | Objects

datatype write_op = Put cf bytes bytes | Delete cf bytes

type_synonym write_batch = "write_op list"

type_synonym kv = "cf \<times> bytes \<rightharpoonup> bytes"

primrec apply_write :: "write_op \<Rightarrow> kv \<Rightarrow> kv" where
  "apply_write (Put c k v) m = m((c, k) \<mapsto> v)"
| "apply_write (Delete c k) m = m((c, k) := None)"

definition apply_batch :: "write_batch \<Rightarrow> kv \<Rightarrow> kv" where
  "apply_batch b m = fold apply_write b m"

lemma apply_batch_simps [simp]:
  "apply_batch [] m = m"
  "apply_batch (w # b) m = apply_batch b (apply_write w m)"
  by (simp_all add: apply_batch_def)

lemma apply_batch_append [simp]: "apply_batch (b @ c) m = apply_batch c (apply_batch b m)"
  by (simp add: apply_batch_def)

text \<open>
  \<open>db_Iterate s c k\<close> is a run of an iterator over the snapshot \<open>s\<close>: the entries it yields
  from \<^verbatim>\<open>Seek(k)\<close> on while \<^verbatim>\<open>Valid()\<close>, and its \<^verbatim>\<open>status()\<close> once it
  is no longer valid. \<open>db_Latest\<close> is the view an iterator without an explicit snapshot reads.
  The last two fields are specification only: what a database or a snapshot holds.
\<close>

record ('db, 'snap) rocksdb =
  db_GetSnapshot :: "'db \<Rightarrow> 'snap option"
  db_Latest :: "'db \<Rightarrow> 'snap"
  db_Get :: "'snap \<Rightarrow> cf \<Rightarrow> bytes \<Rightarrow> rocks_status \<times> bytes"
  db_MultiGet :: "'snap \<Rightarrow> (cf \<times> bytes) list \<Rightarrow> (rocks_status \<times> bytes) list"
  db_Iterate :: "'snap \<Rightarrow> cf \<Rightarrow> bytes \<Rightarrow> (bytes \<times> bytes) list \<times> rocks_status"
  db_Write :: "'db \<Rightarrow> write_batch \<Rightarrow> rocks_status \<times> 'db"
  status_ToString :: "rocks_status \<Rightarrow> string"
  db_contents :: "'db \<Rightarrow> kv"
  snap_contents :: "'snap \<Rightarrow> kv"

text \<open>A read result agrees with what the snapshot holds, unless it reports an error.\<close>

definition read_agrees :: "bytes option \<Rightarrow> rocks_status \<times> bytes \<Rightarrow> bool" where
  "read_agrees v r \<longleftrightarrow> (rocks_ok (fst r) \<longrightarrow> v = Some (snd r)) \<and> (rocks_not_found (fst r) \<longrightarrow> v = None)"

text \<open>Documented behaviour of RocksDB: snapshots are consistent views, reads agree with them, an
  iterator yields the entries in bytewise key order without skipping any, and a write batch is
  applied completely or, when the write fails, possibly not at all.\<close>

definition rocks_laws :: "('db, 'snap) rocksdb \<Rightarrow> bool" where
  "rocks_laws R \<longleftrightarrow>
     (\<forall>db s. db_GetSnapshot R db = Some s \<longrightarrow> snap_contents R s = db_contents R db) \<and>
     (\<forall>db. snap_contents R (db_Latest R db) = db_contents R db) \<and>
     (\<forall>s c k. read_agrees (snap_contents R s (c, k)) (db_Get R s c k)) \<and>
     (\<forall>s ks. list_all2 (\<lambda>k r. read_agrees (snap_contents R s k) r) ks (db_MultiGet R s ks)) \<and>
     (\<forall>s c k es st. db_Iterate R s c k = (es, st) \<longrightarrow>
        sorted_wrt (<) (map fst es) \<and>
        (\<forall>k' v. (k', v) \<in> set es \<longrightarrow> snap_contents R s (c, k') = Some v \<and> k \<le> k') \<and>
        (\<forall>k' v. snap_contents R s (c, k') = Some v \<and> k \<le> k' \<and>
            (rocks_ok st \<or> (\<exists>(k'', _) \<in> set es. k' \<le> k'')) \<longrightarrow> (k', v) \<in> set es)) \<and>
     (\<forall>db b st db'. db_Write R db b = (st, db') \<longrightarrow>
        db_contents R db' = apply_batch b (db_contents R db) \<or>
        \<not> rocks_ok st \<and> db_contents R db' = db_contents R db)"

lemma rocks_lawsD:
  assumes "rocks_laws R"
  shows rocks_snapshot: "db_GetSnapshot R db = Some s \<Longrightarrow> snap_contents R s = db_contents R db"
    and rocks_latest: "snap_contents R (db_Latest R db) = db_contents R db"
    and rocks_get_ok: "db_Get R s c k = (st, v) \<Longrightarrow> rocks_ok st \<Longrightarrow> snap_contents R s (c, k) = Some v"
    and rocks_get_missing:
      "db_Get R s c k = (st, v) \<Longrightarrow> rocks_not_found st \<Longrightarrow> snap_contents R s (c, k) = None"
    and rocks_multiget:
      "list_all2 (\<lambda>k r. read_agrees (snap_contents R s k) r) ks (db_MultiGet R s ks)"
    and rocks_write: "db_Write R db b = (st, db') \<Longrightarrow>
        db_contents R db' = apply_batch b (db_contents R db) \<or>
        \<not> rocks_ok st \<and> db_contents R db' = db_contents R db"
proof -
  from assms have get: "read_agrees (snap_contents R s (c, k)) (db_Get R s c k)"
    by (simp add: rocks_laws_def)
  show "db_Get R s c k = (st, v) \<Longrightarrow> rocks_ok st \<Longrightarrow> snap_contents R s (c, k) = Some v"
    "db_Get R s c k = (st, v) \<Longrightarrow> rocks_not_found st \<Longrightarrow> snap_contents R s (c, k) = None"
    using get by (auto simp: read_agrees_def)
qed (use assms in \<open>simp_all add: rocks_laws_def\<close>)

lemma rocks_iterate:
  assumes "rocks_laws R" and "db_Iterate R s c k = (es, st)"
  shows "sorted_wrt (<) (map fst es)"
    and "(k', v) \<in> set es \<Longrightarrow> snap_contents R s (c, k') = Some v \<and> k \<le> k'"
    and "snap_contents R s (c, k') = Some v \<Longrightarrow> k \<le> k' \<Longrightarrow> rocks_ok st \<Longrightarrow> (k', v) \<in> set es"
    and "snap_contents R s (c, k') = Some v \<Longrightarrow> k \<le> k' \<Longrightarrow> (k'', w) \<in> set es \<Longrightarrow> k' \<le> k'' \<Longrightarrow>
      (k', v) \<in> set es"
  using assms unfolding rocks_laws_def by blast+

text \<open>The \<^verbatim>\<open>status()\<close> of an iterator that still has \<open>rest\<close> to yield: it is not an
  error while the iterator is valid.\<close>

definition iter_status :: "(bytes \<times> bytes) list \<Rightarrow> rocks_status \<Rightarrow> rocks_status" where
  "iter_status rest final =
     (if rest = [] then final
      else \<lparr>rs_code = rocksOk, rs_subcode = 0, rs_severity = 0, rs_state = []\<rparr>)"

lemma iter_status_ok [simp]: "rocks_ok (iter_status rest final) \<longleftrightarrow> rest \<noteq> [] \<or> rocks_ok final"
  by (simp add: iter_status_def rocks_ok_def)

end
