(* ===== verification/System_Messages.thy ===== *)
theory System_Messages
  imports Wire
begin

text \<open>
  The messages the server itself writes: the initialization message of a new storage
  (\<^verbatim>\<open>unified_storage.cpp\<close>), the payloads of the channel events
  (\<^verbatim>\<open>open_event_core.cpp\<close>), and the predicates the storage checks them with when a scan
  reads them back.
\<close>

section \<open>Payloads\<close>

definition kHex :: string where
  "kHex = ''0123456789abcdef''"

definition JsonChar :: "char \<Rightarrow> string" where
  "JsonChar ch =
     (let n = of_char ch :: nat in
      if ch = CHR 0x22 \<or> ch = CHR 0x5C then [CHR 0x5C, ch]
      else if n < 0x20 then [CHR 0x5C] @ ''u00'' @ [kHex ! (n div 16), kHex ! (n mod 16)]
      else [ch])"

definition JsonString :: "string \<Rightarrow> string" where
  "JsonString value = [CHR 0x22] @ concat (map JsonChar value) @ [CHR 0x22]"

definition visibility_name :: "visibility \<Rightarrow> string" where
  "visibility_name v =
     (if v = VISIBILITY_PRIVATE then ''private''
      else if v = VISIBILITY_PROTECTED then ''protected'' else ''public'')"

fun join_members :: "u64 list \<Rightarrow> string" where
  "join_members [] = []"
| "join_members [m] = to_string m"
| "join_members (m # ms) = to_string m @ '','' @ join_members ms"

text \<open>An absent creator reads as the default value zero.\<close>

definition creator_value :: "channel_info \<Rightarrow> u64" where
  "creator_value channel = (case ch_creator channel of None \<Rightarrow> 0 | Some p \<Rightarrow> p)"

definition ChannelInitializedPayload :: "channel_info \<Rightarrow> string" where
  \<open>ChannelInitializedPayload channel =
     ''{"kind":"system.channel_initialized","data":{"schema_version":1,"name":'' @
     JsonString (ch_name channel) @ '',"protocol":'' @ JsonString (ch_protocol channel) @
     '',"description":'' @ JsonString (ch_description channel) @ '',"visibility":"'' @
     visibility_name (ch_visibility channel) @ ''","creator":'' @
     to_string (creator_value channel) @ '',"members":['' @
     join_members (ch_members channel) @ '']}}''\<close>

definition MemberChangedPayload :: "string \<Rightarrow> u64 \<Rightarrow> string" where
  \<open>MemberChangedPayload kind member =
     ''{"kind":"'' @ kind @ ''","data":{"schema_version":1,"member":'' @ to_string member @ ''}}''\<close>

text \<open>The clock is an argument; a time before the epoch is written as zero.\<close>

definition InitializationMessage :: "int \<Rightarrow> event_message" where
  \<open>InitializationMessage event_ms = empty_message\<lparr>msg_ts_ms := word_of_int (max 0 event_ms),
     msg_payload := ''{"kind":"system.initialization","data":{"schema_version":1}}''\<rparr>\<close>

section \<open>Checks\<close>

definition has_schema_1 :: "(string \<times> json) list \<Rightarrow> bool" where
  "has_schema_1 data_fields \<longleftrightarrow> map_of data_fields ''schema_version'' = Some (NumberValue 1)"

definition ValidInitializationMessage :: "proto \<Rightarrow> event_message \<Rightarrow> bool" where
  "ValidInitializationMessage P message =
     (if msg_seq message \<noteq> 0 \<or> msg_uuid message \<noteq> 0 \<or> msg_principal message \<noteq> 0 \<or>
        msg_channel_id message \<noteq> 0 \<or> msg_recipients message \<noteq> [] \<or> msg_object_keys message \<noteq> []
      then False
      else case JsonStringToMessage P (msg_payload message) of
        None \<Rightarrow> False
      | Some flds \<Rightarrow>
          (case (map_of flds ''kind'', map_of flds ''data'') of
             (Some (StringValue kind), Some (StructValue data_fields)) \<Rightarrow>
               kind = ''system.initialization'' \<and> has_schema_1 data_fields \<and>
               map_of flds ''seq'' = None \<and> map_of flds ''channel_id'' = None \<and>
               map_of flds ''principal'' = None \<and> map_of flds ''uuid'' = None
           | _ \<Rightarrow> False))"

definition is_principal :: "json \<Rightarrow> bool" where
  "is_principal value =
     (case value of
        NumberValue x \<Rightarrow> x > 0 \<and> of_int \<lfloor>x\<rfloor> = x \<and> x \<le> 18446744073709551616
      | _ \<Rightarrow> False)"

definition is_string_field :: "(string \<times> json) list \<Rightarrow> string \<Rightarrow> bool" where
  "is_string_field flds field =
     (case map_of flds field of Some (StringValue _) \<Rightarrow> True | _ \<Rightarrow> False)"

definition valid_channel_event :: "string \<Rightarrow> (string \<times> json) list \<Rightarrow> bool" where
  "valid_channel_event kind data_fields =
     (if kind = ''system.member_added'' \<or> kind = ''system.member_removed''
      then (case map_of data_fields ''member'' of None \<Rightarrow> False | Some member \<Rightarrow> is_principal member)
      else if kind \<noteq> ''system.channel_initialized'' then False
      else if \<not> list_all (is_string_field data_fields) [''name'', ''protocol'', ''description'', ''visibility'']
      then False
      else if map_of data_fields ''visibility'' \<notin>
        {Some (StringValue ''public''), Some (StringValue ''protected''), Some (StringValue ''private'')}
      then False
      else (case (map_of data_fields ''creator'', map_of data_fields ''members'') of
             (Some creator, Some (ListValue members)) \<Rightarrow>
               is_principal creator \<and> members \<noteq> [] \<and> list_all is_principal members
           | _ \<Rightarrow> False))"

definition ValidChannelSystemMessage :: "proto \<Rightarrow> event_message \<Rightarrow> bool" where
  "ValidChannelSystemMessage P message =
     (if msg_recipients message \<noteq> [] \<or> msg_object_keys message \<noteq> [] then False
      else case JsonStringToMessage P (msg_payload message) of
        None \<Rightarrow> False
      | Some flds \<Rightarrow>
          (case (map_of flds ''kind'', map_of flds ''data'') of
             (Some (StringValue kind), Some (StructValue data_fields)) \<Rightarrow>
               map_of flds ''seq'' = None \<and> map_of flds ''channel_id'' = None \<and>
               map_of flds ''principal'' = None \<and> map_of flds ''uuid'' = None \<and>
               map_of flds ''ts_ms'' = None \<and>
               has_schema_1 data_fields \<and> valid_channel_event kind data_fields
           | _ \<Rightarrow> False))"

end
