(* ===== verification/Object_File_Store.thy ===== *)
theory Object_File_Store
  imports Wire
begin

text \<open>
  \<^verbatim>\<open>src/storage/object_file_store.cpp\<close>: one file per object in a flat directory, written
  to a temporary name, synced, renamed without replacing and the directory synced; read back by
  range; removed on cleanup. The system calls are a parameter (\<open>posix\<close>) over an opaque state
  of the operating system; \<open>posix_laws\<close> states their documented effect on the directory.
  The loops retry on \<^verbatim>\<open>EINTR\<close>, so a call returns an option, \<open>None\<close> when it never
  returns; \<open>Write_returns\<close> and \<open>ReadRange_returns\<close> show that it does return when only
  finitely many interrupts are pending.
\<close>

section \<open>The operating system\<close>

datatype dir_entry = RegularFile bytes | OtherEntry

text \<open>
  \<open>os_dir\<close> (the object directory), \<open>os_fds\<close> (the name a descriptor was opened on) and
  \<open>os_interrupts\<close> (a bound on the interrupts still to come) are specification only.
\<close>

record 'os posix =
  os_openat_create :: "'os \<Rightarrow> string \<Rightarrow> (errno + nat) \<times> 'os"
  os_openat_read :: "'os \<Rightarrow> string \<Rightarrow> (errno + nat) \<times> 'os"
  os_write :: "'os \<Rightarrow> nat \<Rightarrow> bytes \<Rightarrow> (errno + nat) \<times> 'os"
  os_pread :: "'os \<Rightarrow> nat \<Rightarrow> nat \<Rightarrow> nat \<Rightarrow> (errno + bytes) \<times> 'os"
  os_fstat :: "'os \<Rightarrow> nat \<Rightarrow> (errno + bool \<times> int) \<times> 'os"
  os_fsync :: "'os \<Rightarrow> nat \<Rightarrow> (errno + unit) \<times> 'os"
  os_fsync_directory :: "'os \<Rightarrow> (errno + unit) \<times> 'os"
  os_close :: "'os \<Rightarrow> nat \<Rightarrow> (errno + unit) \<times> 'os"
  os_rename_noreplace :: "'os \<Rightarrow> string \<Rightarrow> string \<Rightarrow> (errno + unit) \<times> 'os"
  os_unlinkat :: "'os \<Rightarrow> string \<Rightarrow> (errno + unit) \<times> 'os"
  os_getrandom :: "'os \<Rightarrow> nat \<Rightarrow> (errno + bytes) \<times> 'os"
  os_strerror :: "errno \<Rightarrow> string"
  CRYPTO_memcmp :: "bytes \<Rightarrow> bytes \<Rightarrow> nat \<Rightarrow> int"
  os_dir :: "'os \<Rightarrow> string \<rightharpoonup> dir_entry"
  os_fds :: "'os \<Rightarrow> nat \<rightharpoonup> string"
  os_interrupts :: "'os \<Rightarrow> nat"

text \<open>A call that was interrupted uses up a pending interrupt; no call adds one.\<close>

definition counts_interrupt :: "'os posix \<Rightarrow> 'os \<Rightarrow> (errno + 'a) \<times> 'os \<Rightarrow> bool" where
  "counts_interrupt X os r \<longleftrightarrow>
     (if fst r = Inl EINTR then os_interrupts X (snd r) < os_interrupts X os
      else os_interrupts X (snd r) \<le> os_interrupts X os)"

text \<open>A call that changes nothing in the directory and keeps the open descriptors.\<close>

definition quiet :: "'os posix \<Rightarrow> 'os \<Rightarrow> 'a \<times> 'os \<Rightarrow> bool" where
  "quiet X os r \<longleftrightarrow> os_dir X (snd r) = os_dir X os \<and> os_fds X (snd r) = os_fds X os"

definition write_law :: "'os posix \<Rightarrow> bool" where
  "write_law X \<longleftrightarrow> (\<forall>os fd bs n d r os'.
     os_write X os fd bs = (r, os') \<and> os_fds X os fd = Some n \<and> os_dir X os n = Some (RegularFile d) \<longrightarrow>
     os_fds X os' = os_fds X os \<and>
     (case r of Inr k \<Rightarrow> k \<le> length bs \<and> os_dir X os' = (os_dir X os)(n \<mapsto> RegularFile (d @ take k bs))
      | Inl e \<Rightarrow> if e = EINTR then os_dir X os' = os_dir X os
          else \<exists>d'. os_dir X os' = (os_dir X os)(n \<mapsto> RegularFile d')))"

definition pread_law :: "'os posix \<Rightarrow> bool" where
  "pread_law X \<longleftrightarrow> (\<forall>os fd count off n d bs os'.
     os_pread X os fd count off = (Inr bs, os') \<and> os_fds X os fd = Some n \<and>
     os_dir X os n = Some (RegularFile d) \<longrightarrow>
     length bs \<le> count \<and> bs = take (length bs) (drop off d) \<and>
     (bs = [] \<longrightarrow> count = 0 \<or> length d \<le> off))"

definition fstat_law :: "'os posix \<Rightarrow> bool" where
  "fstat_law X \<longleftrightarrow> (\<forall>os fd n f reg size os'.
     os_fstat X os fd = (Inr (reg, size), os') \<and> os_fds X os fd = Some n \<and> os_dir X os n = Some f \<longrightarrow>
     (case f of RegularFile d \<Rightarrow> reg \<and> size = int (length d) \<and> size < 2 ^ 63 | OtherEntry \<Rightarrow> \<not> reg))"

definition open_law :: "'os posix \<Rightarrow> bool" where
  "open_law X \<longleftrightarrow>
     (\<forall>os n r os'. os_openat_create X os n = (r, os') \<longrightarrow>
        (case r of Inl _ \<Rightarrow> os_dir X os' = os_dir X os
         | Inr fd \<Rightarrow> os_dir X os n = None \<and> os_dir X os' = (os_dir X os)(n \<mapsto> RegularFile []) \<and>
             os_fds X os' fd = Some n)) \<and>
     (\<forall>os n r os'. os_openat_read X os n = (r, os') \<longrightarrow>
        os_dir X os' = os_dir X os \<and>
        (case r of Inl e \<Rightarrow> e = ENOENT \<or> e = ELOOP \<longrightarrow> (\<nexists>d. os_dir X os n = Some (RegularFile d))
         | Inr fd \<Rightarrow> os_dir X os n \<noteq> None \<and> os_fds X os' fd = Some n))"

definition directory_law :: "'os posix \<Rightarrow> bool" where
  "directory_law X \<longleftrightarrow>
     (\<forall>os a b r os'. os_rename_noreplace X os a b = (r, os') \<longrightarrow>
        (case r of Inl _ \<Rightarrow> os_dir X os' = os_dir X os
         | Inr _ \<Rightarrow> os_dir X os a \<noteq> None \<and> os_dir X os b = None \<and>
             os_dir X os' = (os_dir X os)(a := None, b := os_dir X os a))) \<and>
     (\<forall>os n r os'. os_unlinkat X os n = (r, os') \<longrightarrow>
        (case r of Inl e \<Rightarrow> os_dir X os' = os_dir X os \<and> (e = ENOENT \<longrightarrow> os_dir X os n = None)
         | Inr _ \<Rightarrow> os_dir X os' = (os_dir X os)(n := None)))"

definition getrandom_law :: "'os posix \<Rightarrow> bool" where
  "getrandom_law X \<longleftrightarrow> (\<forall>os n bs os'. os_getrandom X os n = (Inr bs, os') \<longrightarrow>
     length bs \<le> n \<and> (0 < n \<longrightarrow> bs \<noteq> []))"

definition quiet_law :: "'os posix \<Rightarrow> bool" where
  "quiet_law X \<longleftrightarrow>
     (\<forall>os fd. quiet X os (os_fsync X os fd)) \<and> (\<forall>os. quiet X os (os_fsync_directory X os)) \<and>
     (\<forall>os fd. quiet X os (os_fstat X os fd)) \<and>
     (\<forall>os fd n off. quiet X os (os_pread X os fd n off)) \<and>
     (\<forall>os n. quiet X os (os_getrandom X os n)) \<and>
     (\<forall>os fd. os_dir X (snd (os_close X os fd)) = os_dir X os)"

definition interrupt_law :: "'os posix \<Rightarrow> bool" where
  "interrupt_law X \<longleftrightarrow>
     (\<forall>os fd bs. counts_interrupt X os (os_write X os fd bs)) \<and>
     (\<forall>os fd n off. counts_interrupt X os (os_pread X os fd n off)) \<and>
     (\<forall>os n. counts_interrupt X os (os_openat_read X os n)) \<and>
     (\<forall>os n. counts_interrupt X os (os_getrandom X os n))"

definition posix_laws :: "'os posix \<Rightarrow> bool" where
  "posix_laws X \<longleftrightarrow> open_law X \<and> write_law X \<and> pread_law X \<and> fstat_law X \<and> directory_law X \<and>
     getrandom_law X \<and> quiet_law X \<and> interrupt_law X \<and>
     (\<forall>a b. CRYPTO_memcmp X a b (length a) = 0 \<longleftrightarrow> take (length a) b = a)"

section \<open>Names and single steps\<close>

definition FinalName :: "u64 \<Rightarrow> string" where
  "FinalName object_id = to_string object_id"

definition TemporaryName :: "u64 \<Rightarrow> string" where
  "TemporaryName object_id = ''.tmp.'' @ to_string object_id"

lemma object_names [simp]:
  "FinalName a = FinalName b \<longleftrightarrow> a = b"
  "TemporaryName a = TemporaryName b \<longleftrightarrow> a = b"
  by (simp_all add: FinalName_def TemporaryName_def)

lemma temporary_not_final [simp]: "TemporaryName a \<noteq> FinalName b" "FinalName b \<noteq> TemporaryName a"
proof -
  have "CHR ''.'' \<notin> set (FinalName b)"
    using dec_digits_chars [of "CHR ''.''"] by (force simp: FinalName_def to_string_def)
  moreover have "CHR ''.'' \<in> set (TemporaryName a)" by (simp add: TemporaryName_def)
  ultimately show "TemporaryName a \<noteq> FinalName b" "FinalName b \<noteq> TemporaryName a" by metis+
qed

definition CloseFile :: "'os posix \<Rightarrow> nat \<Rightarrow> string \<Rightarrow> ('os, status, unit) op" where
  "CloseFile X fd description os =
     (case os_close X os fd of
        (Inr _, os') \<Rightarrow> (Inr (), os')
      | (Inl e, os') \<Rightarrow> (Inl (ObjectIoStatus (os_strerror X) (''close '' @ description) e), os'))"

definition UnlinkKnownPath :: "'os posix \<Rightarrow> string \<Rightarrow> ('os, status, unit) op" where
  "UnlinkKnownPath X name os =
     (case os_unlinkat X os name of
        (Inr _, os') \<Rightarrow> (Inr (), os')
      | (Inl e, os') \<Rightarrow>
          if e = ENOENT then (Inr (), os')
          else if e = EISDIR \<or> e = EPERM
          then (Inl (StorageCorruption ''remove object path''
                  (''object path is not a removable file: '' @ name)), os')
          else (Inl (ObjectIoStatus (os_strerror X) (''remove object path '' @ name) e), os'))"

definition ConstantTimeEquals :: "'os posix \<Rightarrow> string \<Rightarrow> string \<Rightarrow> bool" where
  "ConstantTimeEquals X left right =
     (if length left \<noteq> length right then False else CRYPTO_memcmp X left right (length left) = 0)"

lemma ConstantTimeEquals_eq [simp]: "posix_laws X \<Longrightarrow> ConstantTimeEquals X a b \<longleftrightarrow> a = b"
  unfolding ConstantTimeEquals_def posix_laws_def by (metis order_refl take_all)

section \<open>Writing an object file\<close>

text \<open>A fault point passed while the descriptor is open closes it before returning.\<close>

definition inject_closing ::
  "'os posix \<Rightarrow> storage_fault_injector \<Rightarrow> nat \<Rightarrow> storage_fault_point \<Rightarrow> ('os, status, unit) op" where
  "inject_closing X injector fd point os =
     (case InjectStorageFault injector point of
        Inr _ \<Rightarrow> (Inr (), os)
      | Inl injected \<Rightarrow> (Inl injected, snd (os_close X os fd)))"

definition kSsizeMax :: nat where "kSsizeMax = 2 ^ 63 - 1"

partial_function (option) write_loop ::
  "'os posix \<Rightarrow> nat \<Rightarrow> bytes \<Rightarrow> nat \<Rightarrow> 'os \<Rightarrow> ((status + unit) \<times> 'os) option" where
  "write_loop X fd data written os =
     (if written < length data then
        let remaining = length data - written;
            count = min remaining kSsizeMax;
            res = os_write X os fd (take count (drop written data));
            os' = snd res
        in case fst res of
          Inl e \<Rightarrow>
            if e = EINTR then write_loop X fd data written os'
            else Some (Inl (ObjectIoStatus (os_strerror X) ''write temporary object file'' e),
                       snd (os_close X os' fd))
        | Inr n \<Rightarrow>
            if n = 0
            then Some (Inl (mk_status UNAVAILABLE ''write temporary object file returned zero''),
                       snd (os_close X os' fd))
            else write_loop X fd data (written + n) os'
      else Some (Inr (), os))"

definition fsync_closing :: "'os posix \<Rightarrow> nat \<Rightarrow> ('os, status, unit) op" where
  "fsync_closing X fd os =
     (case os_fsync X os fd of
        (Inr _, os') \<Rightarrow> (Inr (), os')
      | (Inl e, os') \<Rightarrow> (Inl (ObjectIoStatus (os_strerror X) ''fsync temporary object file'' e),
          snd (os_close X os' fd)))"

definition rename_final :: "'os posix \<Rightarrow> string \<Rightarrow> string \<Rightarrow> ('os, status, unit) op" where
  "rename_final X temporary final os =
     (case os_rename_noreplace X os temporary final of
        (Inr _, os') \<Rightarrow> (Inr (), os')
      | (Inl e, os') \<Rightarrow>
          if e = EEXIST
          then (Inl (StorageCorruption ''rename temporary object file''
                  (''unexpected existing final object file: '' @ final)), os')
          else (Inl (ObjectIoStatus (os_strerror X) ''rename temporary object file'' e), os'))"

definition fsync_directory :: "'os posix \<Rightarrow> string \<Rightarrow> ('os, status, unit) op" where
  "fsync_directory X description os =
     (case os_fsync_directory X os of
        (Inr _, os') \<Rightarrow> (Inr (), os')
      | (Inl e, os') \<Rightarrow> (Inl (ObjectIoStatus (os_strerror X) description e), os'))"

definition create_temporary :: "'os posix \<Rightarrow> string \<Rightarrow> ('os, status, nat) op" where
  "create_temporary X temporary os =
     (case os_openat_create X os temporary of
        (Inr fd, os') \<Rightarrow> (Inr fd, os')
      | (Inl e, os') \<Rightarrow>
          if e = EEXIST
          then (Inl (StorageCorruption ''create temporary object file''
                  (''unexpected existing temporary object file: '' @ temporary)), os')
          else (Inl (ObjectIoStatus (os_strerror X) ''create temporary object file'' e), os'))"

definition Write ::
  "'os posix \<Rightarrow> storage_fault_injector \<Rightarrow> u64 \<Rightarrow> bytes \<Rightarrow> ('os, status, unit) pop" where
  "Write X injector object_id data =
     bindO (totalO (create_temporary X (TemporaryName object_id))) (\<lambda>fd.
     bindO (totalO (inject_closing X injector fd kAfterTemporaryFileCreate)) (\<lambda>_.
     bindO (totalO (inject_closing X injector fd kBeforeTemporaryFileWrite)) (\<lambda>_.
     bindO (write_loop X fd data 0) (\<lambda>_.
     bindO (totalO (inject_closing X injector fd kAfterTemporaryFileWrite)) (\<lambda>_.
     bindO (totalO (inject_closing X injector fd kBeforeFileFsync)) (\<lambda>_.
     bindO (totalO (fsync_closing X fd)) (\<lambda>_.
     bindO (totalO (inject_closing X injector fd kAfterFileFsync)) (\<lambda>_.
     bindO (totalO (CloseFile X fd ''temporary object file'')) (\<lambda>_.
     bindO (totalO (liftM (InjectStorageFault injector kBeforeRename))) (\<lambda>_.
     bindO (totalO (rename_final X (TemporaryName object_id) (FinalName object_id))) (\<lambda>_.
     bindO (totalO (liftM (InjectStorageFault injector kAfterRename))) (\<lambda>_.
     bindO (totalO (liftM (InjectStorageFault injector kBeforeDirectoryFsync))) (\<lambda>_.
     bindO (totalO (fsync_directory X ''fsync object directory'')) (\<lambda>_.
     totalO (liftM (InjectStorageFault injector kAfterDirectoryFsync))))))))))))))))"

section \<open>Removing object files\<close>

primrec Cleanup_loop :: "'os posix \<Rightarrow> u64 list \<Rightarrow> ('os, status, unit) op" where
  "Cleanup_loop X [] = retM ()"
| "Cleanup_loop X (object_id # object_ids) =
     bindM (UnlinkKnownPath X (TemporaryName object_id)) (\<lambda>_.
     bindM (UnlinkKnownPath X (FinalName object_id)) (\<lambda>_.
     Cleanup_loop X object_ids))"

definition Cleanup :: "'os posix \<Rightarrow> u64 list \<Rightarrow> ('os, status, unit) op" where
  "Cleanup X object_ids =
     bindM (Cleanup_loop X object_ids) (\<lambda>_.
     if object_ids = [] then retM ()
     else fsync_directory X ''fsync object directory after cleanup'')"

section \<open>Reading a range\<close>

partial_function (option) open_read_loop ::
  "'os posix \<Rightarrow> string \<Rightarrow> 'os \<Rightarrow> ((errno + nat) \<times> 'os) option" where
  "open_read_loop X name os =
     (let res = os_openat_read X os name in
      if fst res = Inl EINTR then open_read_loop X name (snd res) else Some res)"

definition open_committed :: "'os posix \<Rightarrow> string \<Rightarrow> ('os, status, nat) pop" where
  "open_committed X final os =
     (case open_read_loop X final os of
        None \<Rightarrow> None
      | Some (Inr fd, os') \<Rightarrow> Some (Inr fd, os')
      | Some (Inl e, os') \<Rightarrow>
          let operation = ''open committed object file '' @ final in
          if e = ENOENT \<or> e = ELOOP
          then Some (Inl (StorageCorruption operation (ErrnoMessage (os_strerror X) operation e)), os')
          else Some (Inl (ObjectIoStatus (os_strerror X) operation e), os'))"

definition stat_committed :: "'os posix \<Rightarrow> string \<Rightarrow> nat \<Rightarrow> u64 \<Rightarrow> ('os, status, unit) op" where
  "stat_committed X final fd expected_size os =
     (case os_fstat X os fd of
        (Inl e, os') \<Rightarrow>
          (Inl (ObjectIoStatus (os_strerror X) (''stat committed object file '' @ final) e),
           snd (os_close X os' fd))
      | (Inr (regular, st_size), os') \<Rightarrow>
          if \<not> regular \<or> st_size < 0 \<or> (word_of_int st_size :: u64) \<noteq> expected_size
          then (Inl (StorageCorruption ''stat committed object file''
                  (''committed object file type or size mismatch: '' @ final)), snd (os_close X os' fd))
          else (Inr (), os'))"

text \<open>\<open>data\<close> is the part of the buffer that has been read.\<close>

partial_function (option) pread_loop ::
  "'os posix \<Rightarrow> string \<Rightarrow> nat \<Rightarrow> nat \<Rightarrow> nat \<Rightarrow> bytes \<Rightarrow> 'os \<Rightarrow> ((status + bytes) \<times> 'os) option" where
  "pread_loop X final fd count offset data os =
     (if length data < count then
        let res = os_pread X os fd (count - length data) (offset + length data);
            os' = snd res
        in case fst res of
          Inl e \<Rightarrow>
            if e = EINTR then pread_loop X final fd count offset data os'
            else Some (Inl (ObjectIoStatus (os_strerror X) (''read committed object file range '' @ final) e),
                       snd (os_close X os' fd))
        | Inr bs \<Rightarrow>
            if bs = []
            then Some (Inl (StorageCorruption ''read committed object file''
                         (''committed object file is truncated: '' @ final)), snd (os_close X os' fd))
            else pread_loop X final fd count offset (data @ bs) os'
      else Some (Inr data, os))"

definition ReadRange :: "'os posix \<Rightarrow> u64 \<Rightarrow> u64 \<Rightarrow> u64 \<Rightarrow> u64 \<Rightarrow> ('os, status, bytes) pop" where
  "ReadRange X object_id expected_size offset nbytes =
     (if object_id = 0 \<or> expected_size = 0 \<or> unat expected_size > kMaxObjectBytes
      then totalO (failM (StorageCorruption ''read committed object file'' ''invalid committed object metadata''))
      else if nbytes = 0
      then totalO (failM (mk_status INVALID_ARGUMENT ''nbytes must be greater than 0''))
      else if offset > expected_size
      then totalO (failM (mk_status OUT_OF_RANGE ''offset exceeds object size''))
      else
        let final = FinalName object_id;
            remaining = expected_size - offset;
            count = unat (min nbytes remaining)
        in
          bindO (open_committed X final) (\<lambda>fd.
          bindO (totalO (stat_committed X final fd expected_size)) (\<lambda>_.
          bindO (pread_loop X final fd count (unat offset) []) (\<lambda>data.
          bindO (totalO (CloseFile X fd ''committed object file'')) (\<lambda>_.
          totalO (retM data))))))"

section \<open>The loops return\<close>

lemma interruptD:
  assumes "interrupt_law X"
  shows "os_write X os fd bs = (Inl EINTR, os') \<Longrightarrow> os_interrupts X os' < os_interrupts X os"
    and "os_write X os fd bs = (r, os') \<Longrightarrow> os_interrupts X os' \<le> os_interrupts X os"
    and "os_pread X os fd n off = (Inl EINTR, os') \<Longrightarrow> os_interrupts X os' < os_interrupts X os"
    and "os_pread X os fd n off = (r', os') \<Longrightarrow> os_interrupts X os' \<le> os_interrupts X os"
    and "os_openat_read X os nm = (Inl EINTR, os') \<Longrightarrow> os_interrupts X os' < os_interrupts X os"
    and "os_getrandom X os n = (Inl EINTR, os') \<Longrightarrow> os_interrupts X os' < os_interrupts X os"
    and "os_getrandom X os n = (r'', os') \<Longrightarrow> os_interrupts X os' \<le> os_interrupts X os"
proof -
  have c: "counts_interrupt X os r \<Longrightarrow> os_interrupts X (snd r) \<le> os_interrupts X os"
    "counts_interrupt X os r \<Longrightarrow> fst r = Inl EINTR \<Longrightarrow> os_interrupts X (snd r) < os_interrupts X os"
    for r :: "(errno + 'c) \<times> 'a"
    by (auto simp: counts_interrupt_def split: if_splits)
  note law = assms [unfolded interrupt_law_def]
  show "os_write X os fd bs = (Inl EINTR, os') \<Longrightarrow> os_interrupts X os' < os_interrupts X os"
    "os_write X os fd bs = (r, os') \<Longrightarrow> os_interrupts X os' \<le> os_interrupts X os"
    using law c by (metis fst_conv snd_conv)+
  show "os_pread X os fd n off = (Inl EINTR, os') \<Longrightarrow> os_interrupts X os' < os_interrupts X os"
    "os_pread X os fd n off = (r', os') \<Longrightarrow> os_interrupts X os' \<le> os_interrupts X os"
    using law c by (metis fst_conv snd_conv)+
  show "os_openat_read X os nm = (Inl EINTR, os') \<Longrightarrow> os_interrupts X os' < os_interrupts X os"
    using law c by (metis fst_conv snd_conv)
  show "os_getrandom X os n = (Inl EINTR, os') \<Longrightarrow> os_interrupts X os' < os_interrupts X os"
    "os_getrandom X os n = (r'', os') \<Longrightarrow> os_interrupts X os' \<le> os_interrupts X os"
    using law c by (metis fst_conv snd_conv)+
qed

lemma write_loop_returns:
  assumes "interrupt_law X"
  shows "write_loop X fd data written os \<noteq> None"
proof (induction "length data - written + os_interrupts X os" arbitrary: written os
    rule: less_induct)
  case less
  show ?case
  proof (cases "written < length data")
    case True
    obtain r os' where w: "os_write X os fd (take (min (length data - written) kSsizeMax)
        (drop written data)) = (r, os')" by fastforce
    have ints: "r = Inl EINTR \<Longrightarrow> os_interrupts X os' < os_interrupts X os"
      "os_interrupts X os' \<le> os_interrupts X os"
      using interruptD(1,2) [OF assms] w by blast+
    have "r = Inl EINTR \<Longrightarrow> write_loop X fd data written os' \<noteq> None"
      using ints(1) by (intro less) auto
    moreover have "r = Inr n \<Longrightarrow> n \<noteq> 0 \<Longrightarrow> write_loop X fd data (written + n) os' \<noteq> None" for n
      using ints(2) True by (intro less) auto
    ultimately show ?thesis using w True
      by (subst write_loop.simps) (auto simp: Let_def split: sum.splits)
  qed (simp add: write_loop.simps)
qed

lemma open_read_loop_returns:
  assumes "interrupt_law X"
  shows "open_read_loop X name os \<noteq> None"
proof (induction "os_interrupts X os" arbitrary: os rule: less_induct)
  case less
  then show ?case
    using interruptD(5) [OF assms, of os name]
    by (subst open_read_loop.simps) (auto simp: Let_def prod_eq_iff)
qed

lemma pread_loop_returns:
  assumes "interrupt_law X"
  shows "pread_loop X final fd count offset data os \<noteq> None"
proof (induction "count - length data + os_interrupts X os" arbitrary: data os rule: less_induct)
  case less
  show ?case
  proof (cases "length data < count")
    case True
    obtain r os' where w: "os_pread X os fd (count - length data) (offset + length data) = (r, os')"
      by fastforce
    have ints: "r = Inl EINTR \<Longrightarrow> os_interrupts X os' < os_interrupts X os"
      "os_interrupts X os' \<le> os_interrupts X os"
      using interruptD(3,4) [OF assms] w by blast+
    have "r = Inl EINTR \<Longrightarrow> pread_loop X final fd count offset data os' \<noteq> None"
      using ints(1) by (intro less) auto
    moreover have "r = Inr bs \<Longrightarrow> bs \<noteq> [] \<Longrightarrow> pread_loop X final fd count offset (data @ bs) os' \<noteq> None"
      for bs
      using True ints(2) by (intro less, cases bs) auto
    ultimately show ?thesis using w True
      by (subst pread_loop.simps) (auto simp: Let_def split: sum.splits)
  qed (simp add: pread_loop.simps)
qed

lemma Write_returns: "interrupt_law X \<Longrightarrow> Write X injector object_id data os \<noteq> None"
  unfolding Write_def by (intro bindO_returns write_loop_returns) simp_all

lemma ReadRange_returns: "interrupt_law X \<Longrightarrow> ReadRange X object_id expected offset nbytes os \<noteq> None"
proof -
  assume law: "interrupt_law X"
  have "open_committed X n s \<noteq> None" for n s
    using open_read_loop_returns [OF law, of n s]
    by (auto simp: open_committed_def Let_def split: option.splits sum.splits)
  then show ?thesis
    unfolding ReadRange_def
    by (simp only: Let_def split: if_split, intro conjI impI bindO_returns pread_loop_returns law)
      simp_all
qed

section \<open>Effects on the directory\<close>

lemma posix_lawsD:
  assumes "posix_laws X"
  shows "open_law X" "write_law X" "pread_law X" "fstat_law X" "directory_law X"
    "getrandom_law X" "quiet_law X" "interrupt_law X"
  using assms by (simp_all add: posix_laws_def)

lemma quietD:
  assumes "posix_laws X"
  shows "os_fsync X os fd = (r, os') \<Longrightarrow> os_dir X os' = os_dir X os \<and> os_fds X os' = os_fds X os"
    and "os_fsync_directory X os = (r, os') \<Longrightarrow> os_dir X os' = os_dir X os"
    and "os_fstat X os fd = (r', os') \<Longrightarrow> os_dir X os' = os_dir X os \<and> os_fds X os' = os_fds X os"
    and "os_pread X os fd n off = (r'', os') \<Longrightarrow> os_dir X os' = os_dir X os \<and> os_fds X os' = os_fds X os"
    and "os_getrandom X os n = (r'', os') \<Longrightarrow> os_dir X os' = os_dir X os"
    and "os_close X os fd = (r, os') \<Longrightarrow> os_dir X os' = os_dir X os"
  using posix_lawsD(7) [OF assms] unfolding quiet_law_def quiet_def by (metis snd_conv)+

lemma write_lawD:
  assumes "posix_laws X" and "os_write X os fd bs = (r, os')"
    and "os_fds X os fd = Some n" and "os_dir X os n = Some (RegularFile d)"
  shows "r = Inr k \<Longrightarrow> k \<le> length bs \<and> os_fds X os' = os_fds X os \<and>
      os_dir X os' = (os_dir X os)(n \<mapsto> RegularFile (d @ take k bs))"
    and "r = Inl EINTR \<Longrightarrow> os_fds X os' = os_fds X os \<and> os_dir X os' = os_dir X os"
    and "r = Inl e \<Longrightarrow> \<exists>d'. os_dir X os' = (os_dir X os)(n \<mapsto> RegularFile d')"
  using posix_lawsD(2) [OF assms(1)] assms(2-4) unfolding write_law_def
  by (fastforce split: if_splits intro: exI [of _ d])+

text \<open>While the descriptor is open on the temporary file, the directory is \<open>d0\<close> plus that file.\<close>

definition temp_open :: "'os posix \<Rightarrow> (string \<rightharpoonup> dir_entry) \<Rightarrow> string \<Rightarrow> bytes \<Rightarrow> nat \<Rightarrow> 'os \<Rightarrow> bool" where
  "temp_open X d0 n content fd os \<longleftrightarrow>
     os_dir X os = d0(n \<mapsto> RegularFile content) \<and> os_fds X os fd = Some n"

definition agrees_except :: "'os posix \<Rightarrow> (string \<rightharpoonup> dir_entry) \<Rightarrow> string set \<Rightarrow> 'os \<Rightarrow> bool" where
  "agrees_except X d0 N os \<longleftrightarrow> (\<forall>n. n \<notin> N \<longrightarrow> os_dir X os n = d0 n)"

lemma close_dir [simp]: "posix_laws X \<Longrightarrow> os_dir X (snd (os_close X os fd)) = os_dir X os"
  using quietD(6) by (metis prod.collapse)

lemma write_loop_step:
  assumes "written < length data"
    and "os_write X os fd (take (min (length data - written) kSsizeMax) (drop written data)) = (r1, os1)"
  shows "write_loop X fd data written os =
    (case r1 of
       Inl e \<Rightarrow> if e = EINTR then write_loop X fd data written os1
         else Some (Inl (ObjectIoStatus (os_strerror X) ''write temporary object file'' e),
                    snd (os_close X os1 fd))
     | Inr k \<Rightarrow> if k = 0
         then Some (Inl (mk_status UNAVAILABLE ''write temporary object file returned zero''),
                    snd (os_close X os1 fd))
         else write_loop X fd data (written + k) os1)"
  using assms by (subst write_loop.simps) (simp add: Let_def split: sum.split)

lemma write_loop_triple:
  assumes laws: "posix_laws X"
  shows "written \<le> length data \<Longrightarrow> temp_open X d0 n (take written data) fd os \<Longrightarrow>
    write_loop X fd data written os = Some (r, os') \<Longrightarrow>
    (case r of Inr _ \<Rightarrow> temp_open X d0 n data fd os' | Inl _ \<Rightarrow> agrees_except X d0 {n} os')"
proof (induction "length data - written + os_interrupts X os" arbitrary: written os
    rule: less_induct)
  case less
  show ?case
  proof (cases "written < length data")
    case True
    let ?chunk = "take (min (length data - written) kSsizeMax) (drop written data)"
    obtain r1 os1 where w: "os_write X os fd ?chunk = (r1, os1)" by fastforce
    have os: "os_fds X os fd = Some n" "os_dir X os n = Some (RegularFile (take written data))"
      and dir: "os_dir X os = d0(n \<mapsto> RegularFile (take written data))"
      using less.prems(2) by (simp_all add: temp_open_def)
    note eff = write_lawD [OF laws w os]
    note ints = interruptD(1,2) [OF posix_lawsD(8) [OF laws]]
    note ret = less.prems(3) [unfolded write_loop_step [OF True w]]
    show ?thesis
    proof (cases r1)
      case (Inl e)
      show ?thesis
      proof (cases "e = EINTR")
        case True
        with Inl eff(2) less.prems(2) have "temp_open X d0 n (take written data) fd os1"
          by (simp add: temp_open_def)
        with True Inl ret show ?thesis
          using less.hyps [of written os1] ints(1) w less.prems(1) by fastforce
      next
        case False
        from Inl eff(3) obtain d' where "os_dir X os1 = (os_dir X os)(n \<mapsto> RegularFile d')" by blast
        with False Inl ret dir laws show ?thesis by (auto simp: agrees_except_def)
      qed
    next
      case (Inr k)
      then have k: "k \<le> length ?chunk" using eff(1) by blast
      then have "take k ?chunk = take k (drop written data)" by (auto simp: min_def split: if_splits)
      then have opened: "temp_open X d0 n (take (written + k) data) fd os1"
        using eff(1) [OF Inr] os(1) dir by (simp add: temp_open_def take_add)
      show ?thesis
      proof (cases "k = 0")
        case True
        with Inr ret opened laws show ?thesis by (auto simp: agrees_except_def temp_open_def)
      next
        case False
        with Inr ret opened show ?thesis
          using less.hyps [of "written + k" os1] ints(2) [OF w] k \<open>written < length data\<close> by fastforce
      qed
    qed
  next
    case False
    with less.prems(3) have "r = Inr ()" "os' = os" by (simp_all add: write_loop.simps)
    with False less.prems(2) show ?thesis by simp
  qed
qed

lemma openD:
  assumes "posix_laws X"
  shows "os_openat_create X os n = (Inl e, os') \<Longrightarrow> os_dir X os' = os_dir X os"
    and "os_openat_create X os n = (Inr fd, os') \<Longrightarrow> os_dir X os n = None \<and>
      os_dir X os' = (os_dir X os)(n \<mapsto> RegularFile []) \<and> os_fds X os' fd = Some n"
    and "os_openat_read X os n = (r, os') \<Longrightarrow> os_dir X os' = os_dir X os"
    and "os_openat_read X os n = (Inr fd, os') \<Longrightarrow> os_dir X os n \<noteq> None \<and> os_fds X os' fd = Some n"
    and "os_openat_read X os n = (Inl e, os') \<Longrightarrow> os_dir X os n = Some (RegularFile d) \<Longrightarrow> e \<noteq> ENOENT \<and> e \<noteq> ELOOP"
  using posix_lawsD(1) [OF assms] unfolding open_law_def by (fastforce split: sum.splits)+

lemma directoryD:
  assumes "posix_laws X"
  shows "os_rename_noreplace X os a b = (Inl e, os') \<Longrightarrow> os_dir X os' = os_dir X os"
    and "os_rename_noreplace X os a b = (Inr u, os') \<Longrightarrow> os_dir X os a \<noteq> None \<and> os_dir X os b = None \<and>
      os_dir X os' = (os_dir X os)(a := None, b := os_dir X os a)"
    and "os_unlinkat X os n = (Inl e, os') \<Longrightarrow> os_dir X os' = os_dir X os"
    and "os_unlinkat X os n = (Inl ENOENT, os') \<Longrightarrow> os_dir X os n = None \<and> os_dir X os' = os_dir X os"
    and "os_unlinkat X os n = (Inr u, os') \<Longrightarrow> os_dir X os' = (os_dir X os)(n := None)"
  using posix_lawsD(5) [OF assms] unfolding directory_law_def by (fastforce split: sum.splits)+

text \<open>
  The steps of a write, as triples over the directory \<open>d0\<close> it started from: the temporary file
  is open with some content, it is complete and closed, it has been renamed.
\<close>

definition wr_open :: "'os posix \<Rightarrow> (string \<rightharpoonup> dir_entry) \<Rightarrow> string \<Rightarrow> bytes \<Rightarrow> nat \<Rightarrow> 'os \<Rightarrow> bool" where
  "wr_open X d0 t c fd os \<longleftrightarrow> d0 t = None \<and> temp_open X d0 t c fd os"

definition wr_closed :: "'os posix \<Rightarrow> (string \<rightharpoonup> dir_entry) \<Rightarrow> string \<Rightarrow> bytes \<Rightarrow> 'os \<Rightarrow> bool" where
  "wr_closed X d0 t c os \<longleftrightarrow> d0 t = None \<and> os_dir X os = d0(t \<mapsto> RegularFile c)"

definition wr_renamed ::
  "'os posix \<Rightarrow> (string \<rightharpoonup> dir_entry) \<Rightarrow> string \<Rightarrow> string \<Rightarrow> bytes \<Rightarrow> 'os \<Rightarrow> bool" where
  "wr_renamed X d0 t f c os \<longleftrightarrow> d0 t = None \<and> d0 f = None \<and> os_dir X os = d0(f \<mapsto> RegularFile c)"

lemmas wr_defs = wr_open_def wr_closed_def wr_renamed_def temp_open_def agrees_except_def

lemma wr_inject:
  "posix_laws X \<Longrightarrow> hoareO (wr_open X d0 t c fd) (totalO (inject_closing X injector fd p))
     (\<lambda>_. wr_open X d0 t c fd) (agrees_except X d0 {t, f})"
  by (intro hoareO_totalO) (auto simp: inject_closing_def wr_defs split: sum.splits)

lemma wr_lift:
  "hoareO (wr_closed X d0 t c) (totalO (liftM r)) (\<lambda>_. wr_closed X d0 t c) (agrees_except X d0 {t, f})"
  "hoareO (wr_renamed X d0 t f c) (totalO (liftM r)) (\<lambda>_. wr_renamed X d0 t f c)
     (agrees_except X d0 {t, f})"
  by (intro hoareO_totalO; auto simp: wr_defs split: sum.splits)+

lemma wr_create:
  "posix_laws X \<Longrightarrow> hoareO (\<lambda>os. os_dir X os = d0) (totalO (create_temporary X t))
     (wr_open X d0 t []) (agrees_except X d0 {t, f})"
  by (intro hoareO_totalO)
    (auto simp: create_temporary_def wr_defs dest: openD(1,2) split: prod.splits sum.splits)

lemma wr_write:
  assumes "posix_laws X"
  shows "hoareO (wr_open X d0 t [] fd) (write_loop X fd data 0) (\<lambda>_. wr_open X d0 t data fd)
    (agrees_except X d0 {t, f})"
  using write_loop_triple [OF assms, of 0 data d0 t fd]
  by (intro hoareOI) (force simp: wr_open_def agrees_except_def)+

lemma wr_fsync:
  "posix_laws X \<Longrightarrow> hoareO (wr_open X d0 t c fd) (totalO (fsync_closing X fd))
     (\<lambda>_. wr_open X d0 t c fd) (agrees_except X d0 {t, f})"
  by (intro hoareO_totalO)
    (auto simp: fsync_closing_def wr_defs dest: quietD(1) split: prod.splits sum.splits)

lemma wr_close:
  "posix_laws X \<Longrightarrow> hoareO (wr_open X d0 t c fd) (totalO (CloseFile X fd m))
     (\<lambda>_. wr_closed X d0 t c) (agrees_except X d0 {t, f})"
  by (intro hoareO_totalO)
    (auto simp: CloseFile_def wr_defs dest: quietD(6) split: prod.splits sum.splits)

lemma wr_rename:
  "posix_laws X \<Longrightarrow> t \<noteq> f \<Longrightarrow> hoareO (wr_closed X d0 t c) (totalO (rename_final X t f))
     (\<lambda>_. wr_renamed X d0 t f c) (agrees_except X d0 {t, f})"
  by (intro hoareO_totalO)
    (auto simp: rename_final_def wr_defs fun_eq_iff dest: directoryD(1,2) split: prod.splits sum.splits)

lemma wr_fsync_directory:
  "posix_laws X \<Longrightarrow> hoareO (wr_renamed X d0 t f c) (totalO (fsync_directory X m))
     (\<lambda>_. wr_renamed X d0 t f c) (agrees_except X d0 {t, f})"
  by (intro hoareO_totalO)
    (auto simp: fsync_directory_def wr_defs dest: quietD(2) split: prod.splits sum.splits)

text \<open>
  The whole write: on success the final name holds exactly the data and nothing else has changed;
  on an error only the two names of this object can differ.
\<close>

lemma Write_triple:
  assumes laws: "posix_laws X"
  shows "hoareO (\<lambda>os. os_dir X os = d0) (Write X injector object_id data)
    (\<lambda>_. wr_renamed X d0 (TemporaryName object_id) (FinalName object_id) data)
    (agrees_except X d0 {TemporaryName object_id, FinalName object_id})"
  unfolding Write_def
  by (rule wr_create [OF laws, THEN hoareO_bindO] wr_inject [OF laws, THEN hoareO_bindO]
      wr_write [OF laws, THEN hoareO_bindO] wr_fsync [OF laws, THEN hoareO_bindO]
      wr_close [OF laws, THEN hoareO_bindO] wr_lift [THEN hoareO_bindO]
      wr_rename [OF laws temporary_not_final(1), THEN hoareO_bindO]
      wr_fsync_directory [OF laws, THEN hoareO_bindO] wr_lift)+

lemma UnlinkKnownPath_dir:
  assumes "posix_laws X" and "UnlinkKnownPath X name os = (r, os')"
  shows "n \<noteq> name \<Longrightarrow> os_dir X os' n = os_dir X os n"
    and "r = Inr u \<Longrightarrow> os_dir X os' = (os_dir X os)(name := None)"
  using assms
  by (auto simp: UnlinkKnownPath_def fun_eq_iff split: prod.splits sum.splits if_splits
      dest: directoryD(3,4,5) [OF assms(1)])

definition file_names :: "u64 list \<Rightarrow> string set" where
  "file_names ids = TemporaryName ` set ids \<union> FinalName ` set ids"

lemma Cleanup_loop_dir:
  assumes "posix_laws X"
  shows "Cleanup_loop X ids os = (r, os') \<Longrightarrow>
    agrees_except X (os_dir X os) (file_names ids) os' \<and>
    (r = Inr () \<longrightarrow> os_dir X os' = (\<lambda>n. if n \<in> file_names ids then None else os_dir X os n))"
proof (induction ids arbitrary: os)
  case Nil
  then show ?case by (simp add: agrees_except_def file_names_def)
next
  case (Cons i ids)
  obtain r1 os1 where t: "UnlinkKnownPath X (TemporaryName i) os = (r1, os1)" by fastforce
  obtain r2 os2 where f: "UnlinkKnownPath X (FinalName i) os1 = (r2, os2)" by fastforce
  note t' = UnlinkKnownPath_dir [OF assms t] and f' = UnlinkKnownPath_dir [OF assms f]
  show ?case
  proof (cases "r1 = Inr () \<and> r2 = Inr ()")
    case True
    with Cons.prems t f have "Cleanup_loop X ids os2 = (r, os')" by simp
    from Cons.IH [OF this] True t'(2) f'(2) show ?thesis
      by (auto simp: agrees_except_def file_names_def fun_eq_iff)
  next
    case False
    then consider e where "r1 = Inl e" | e where "r1 = Inr ()" "r2 = Inl e"
      by (metis old.sum.exhaust unit.exhaust)
    then show ?thesis
    proof cases
      case 1
      with Cons.prems t have "r = Inl e" "os' = os1" by simp_all
      with t'(1) show ?thesis by (auto simp: agrees_except_def file_names_def)
    next
      case 2
      with Cons.prems t f have "r = Inl e" "os' = os2" by simp_all
      with t'(1) f'(1) show ?thesis by (auto simp: agrees_except_def file_names_def)
    qed
  qed
qed

lemma fsync_directory_dir:
  "posix_laws X \<Longrightarrow> fsync_directory X m os = (r, os') \<Longrightarrow> os_dir X os' = os_dir X os"
  by (auto simp: fsync_directory_def dest: quietD(2) split: prod.splits sum.splits)

lemma Cleanup_dir:
  assumes laws: "posix_laws X" and run: "Cleanup X ids os = (r, os')"
  shows "agrees_except X (os_dir X os) (file_names ids) os'"
    and "r = Inr () \<Longrightarrow> os_dir X os' = (\<lambda>n. if n \<in> file_names ids then None else os_dir X os n)"
proof -
  obtain r1 os1 where l: "Cleanup_loop X ids os = (r1, os1)" by fastforce
  note l' = Cleanup_loop_dir [OF laws l]
  have "os_dir X os' = os_dir X os1 \<and> (r = Inr () \<longrightarrow> r1 = Inr ())"
    using run l fsync_directory_dir [OF laws]
    by (cases r1) (auto simp: Cleanup_def split: if_splits)
  with l' show "agrees_except X (os_dir X os) (file_names ids) os'"
    and "r = Inr () \<Longrightarrow> os_dir X os' = (\<lambda>n. if n \<in> file_names ids then None else os_dir X os n)"
    by (auto simp: agrees_except_def)
qed

section \<open>What a read returns\<close>

lemma open_read_loop_dir:
  assumes laws: "posix_laws X"
  shows "open_read_loop X n os = Some (r, os') \<Longrightarrow> os_dir X os' = os_dir X os \<and>
    (\<forall>fd. r = Inr fd \<longrightarrow> os_dir X os n \<noteq> None \<and> os_fds X os' fd = Some n)"
proof (induction "os_interrupts X os" arbitrary: os rule: less_induct)
  case less
  obtain r1 os1 where o: "os_openat_read X os n = (r1, os1)" by fastforce
  show ?case
  proof (cases "r1 = Inl EINTR")
    case True
    with o less.prems have "open_read_loop X n os1 = Some (r, os')"
      by (subst (asm) open_read_loop.simps) simp
    moreover have "os_interrupts X os1 < os_interrupts X os"
      using interruptD(5) [OF posix_lawsD(8) [OF laws]] o True by blast
    ultimately show ?thesis using less.hyps [of os1] openD(3) [OF laws o] by auto
  next
    case False
    with o less.prems have "r = r1" "os' = os1" by (subst (asm) open_read_loop.simps, simp)+
    with o show ?thesis using openD(3,4) [OF laws] by metis
  qed
qed

lemma pread_loop_step:
  assumes "length data < count"
    and "os_pread X os fd (count - length data) (offset + length data) = (r1, os1)"
  shows "pread_loop X final fd count offset data os =
    (case r1 of
       Inl e \<Rightarrow> if e = EINTR then pread_loop X final fd count offset data os1
         else Some (Inl (ObjectIoStatus (os_strerror X) (''read committed object file range '' @ final) e),
                    snd (os_close X os1 fd))
     | Inr bs \<Rightarrow> if bs = []
         then Some (Inl (StorageCorruption ''read committed object file''
                      (''committed object file is truncated: '' @ final)), snd (os_close X os1 fd))
         else pread_loop X final fd count offset (data @ bs) os1)"
  using assms by (subst pread_loop.simps) (simp add: Let_def split: sum.split)

lemma pread_loop_data:
  assumes laws: "posix_laws X"
    and law: "pread_law X"
  shows "os_fds X os fd = Some n \<Longrightarrow> os_dir X os n = Some (RegularFile d) \<Longrightarrow>
    data = take (length data) (drop offset d) \<Longrightarrow> length data \<le> count \<Longrightarrow>
    pread_loop X final fd count offset data os = Some (r, os') \<Longrightarrow>
    os_dir X os' = os_dir X os \<and> (\<forall>bs. r = Inr bs \<longrightarrow> bs = take count (drop offset d))"
proof (induction "count - length data + os_interrupts X os" arbitrary: data os rule: less_induct)
  case less
  show ?case
  proof (cases "length data < count")
    case True
    obtain r1 os1 where w: "os_pread X os fd (count - length data) (offset + length data) = (r1, os1)"
      by fastforce
    have q: "os_dir X os1 = os_dir X os" "os_fds X os1 = os_fds X os"
      using quietD(4) [OF laws w] by simp_all
    note ret = less.prems(5) [unfolded pread_loop_step [OF True w]]
    have ints: "r1 = Inl EINTR \<Longrightarrow> os_interrupts X os1 < os_interrupts X os"
      "os_interrupts X os1 \<le> os_interrupts X os"
      using interruptD(3,4) [OF posix_lawsD(8) [OF laws]] w by blast+
    show ?thesis
    proof (cases r1)
      case (Inl e)
      then show ?thesis
        using ret q less.prems(1-4) less.hyps [of data os1] ints(1) laws by (cases "e = EINTR") auto
    next
      case (Inr bs)
      have bs: "length bs \<le> count - length data"
        "bs = take (length bs) (drop (offset + length data) d)"
        using law w Inr less.prems(1,2) unfolding pread_law_def by blast+
      have more: "data @ bs = take (length (data @ bs)) (drop offset d)"
        using less.prems(3) bs(2) by (simp add: take_add add.commute [of offset])
      show ?thesis
      proof (cases "bs = []")
        case True
        with ret q Inr laws show ?thesis by (auto simp del: append_Cons append_Nil)
      next
        case False
        then have "0 < length bs" by simp
        then have "count - length (data @ bs) + os_interrupts X os1
            < count - length data + os_interrupts X os"
          using ints(2) bs(1) True unfolding length_append by linarith
        from less.hyps [OF this _ _ more] show ?thesis
          using False ret q less.prems(1,2) bs(1) True Inr by simp
      qed
    qed
  next
    case False
    with less.prems(5) have "r = Inr data" "os' = os" by (simp_all add: pread_loop.simps)
    with False less.prems(3,4) show ?thesis by (metis le_antisym not_less sum.inject(2))
  qed
qed

lemma ReadRange_data:
  assumes laws: "posix_laws X"
    and run: "ReadRange X object_id expected offset nbytes os = Some (Inr bs, os')"
  shows "\<exists>d. os_dir X os (FinalName object_id) = Some (RegularFile d) \<and> length d = unat expected \<and>
    bs = take (unat nbytes) (drop (unat offset) d) \<and> os_dir X os' = os_dir X os"
proof -
  let ?f = "FinalName object_id" and ?count = "unat (min nbytes (expected - offset))"
  have guards: "\<not> (object_id = 0 \<or> expected = 0 \<or> unat expected > kMaxObjectBytes)" "nbytes \<noteq> 0"
    "\<not> offset > expected"
    using run by (auto simp: ReadRange_def split: if_splits)
  from run guards obtain fd os1 os2 os3 where
      o: "open_committed X ?f os = Some (Inr fd, os1)"
    and st: "stat_committed X ?f fd expected os1 = (Inr (), os2)"
    and rd: "pread_loop X ?f fd ?count (unat offset) [] os2 = Some (Inr bs, os3)"
    and cl: "CloseFile X fd ''committed object file'' os3 = (Inr (), os')"
    by (auto simp: ReadRange_def Let_def bind_inv)
  from o have "open_read_loop X ?f os = Some (Inr fd, os1)"
    by (auto simp: open_committed_def Let_def split: option.splits sum.splits if_splits)
  from open_read_loop_dir [OF laws this] have o1: "os_dir X os1 = os_dir X os"
    "os_dir X os ?f \<noteq> None" "os_fds X os1 fd = Some ?f" by simp_all
  then obtain f where f: "os_dir X os1 ?f = Some f" by auto
  obtain sz where fst: "os_fstat X os1 fd = (Inr (True, sz), os2)" "0 \<le> sz" "word_of_int sz = expected"
    using st by (auto simp: stat_committed_def split: prod.splits sum.splits if_splits)
  with posix_lawsD(4) [OF laws] o1(3) f obtain d where d: "f = RegularFile d" "sz = int (length d)" "sz < 2 ^ 63"
    unfolding fstat_law_def by (fastforce split: dir_entry.splits)
  have len: "length d = unat expected"
    using d(2,3) fst(3) by (auto simp: unat_of_nat)
  note q = quietD(3) [OF laws fst(1)]
  have "os_dir X os3 = os_dir X os2 \<and> bs = take ?count (drop (unat offset) d)"
    using pread_loop_data [OF laws posix_lawsD(3) [OF laws] _ _ _ _ rd, of ?f d] o1 f d(1) q by simp
  moreover have "take ?count (drop (unat offset) d) = take (unat nbytes) (drop (unat offset) d)"
    using guards(3) len by (simp add: min_def unat_sub word_le_nat_alt not_less)
  moreover have "os_dir X os' = os_dir X os3"
    using cl by (auto simp: CloseFile_def dest: quietD(6) [OF laws] split: prod.splits sum.splits)
  ultimately show ?thesis using o1 f d(1) len q by auto
qed

text \<open>Reading leaves the directory alone, whether it succeeds or not.\<close>

lemma pread_loop_dir:
  assumes laws: "posix_laws X"
  shows "pread_loop X final fd count offset data os = Some (r, os') \<Longrightarrow> os_dir X os' = os_dir X os"
proof (induction "count - length data + os_interrupts X os" arbitrary: data os rule: less_induct)
  case less
  show ?case
  proof (cases "length data < count")
    case True
    obtain r1 os1 where w: "os_pread X os fd (count - length data) (offset + length data) = (r1, os1)"
      by fastforce
    have q: "os_dir X os1 = os_dir X os" using quietD(4) [OF laws w] by simp
    have cl: "os_dir X (snd (os_close X os1 fd)) = os_dir X os1" using quietD(6) [OF laws] by (metis prod.collapse)
    note ret = less.prems [unfolded pread_loop_step [OF True w]]
    have ints: "r1 = Inl EINTR \<Longrightarrow> os_interrupts X os1 < os_interrupts X os"
      "os_interrupts X os1 \<le> os_interrupts X os"
      using interruptD(3,4) [OF posix_lawsD(8) [OF laws]] w by blast+
    show ?thesis
    proof (cases r1)
      case (Inl e)
      then show ?thesis using ret q cl less.hyps [of data os1] ints(1) by (cases "e = EINTR") auto
    next
      case (Inr bs)
      have "bs \<noteq> [] \<Longrightarrow> count - length (data @ bs) + os_interrupts X os1 < count - length data + os_interrupts X os"
        using ints(2) True by (cases bs) auto
      then show ?thesis using ret q cl Inr less.hyps [of "data @ bs" os1] by (cases "bs = []") auto
    qed
  next
    case False
    with less.prems show ?thesis by (simp add: pread_loop.simps)
  qed
qed

lemma ReadRange_dir:
  assumes laws: "posix_laws X" and run: "ReadRange X object_id expected offset nbytes os = Some (r, os')"
  shows "os_dir X os' = os_dir X os"
proof -
  let ?D = "\<lambda>s. os_dir X s = os_dir X os"
  have close: "os_dir X (snd (os_close X s fd)) = os_dir X s" for s fd
    using quietD(6) [OF laws] by (metis prod.collapse)
  have opened: "hoareO ?D (open_committed X n) (\<lambda>_. ?D) ?D" for n
    by (rule hoareOI) (auto simp: open_committed_def Let_def dest!: open_read_loop_dir [OF laws]
        split: option.splits sum.splits if_splits)
  have stat: "hoareO ?D (totalO (stat_committed X n fd k)) (\<lambda>_. ?D) ?D" for n fd k
    by (rule hoareO_totalO)
      (auto simp: stat_committed_def close dest!: quietD(3) [OF laws] split: prod.splits sum.splits)
  have data: "hoareO ?D (pread_loop X n fd k off bs) (\<lambda>_. ?D) ?D" for n fd k off bs
    by (rule hoareOI) (auto dest!: pread_loop_dir [OF laws])
  have closed: "hoareO ?D (totalO (CloseFile X fd n)) (\<lambda>_. ?D) ?D" for fd n
    by (rule hoareO_totalO) (auto simp: CloseFile_def dest!: quietD(6) [OF laws] split: prod.splits sum.splits)
  have const: "hoareO ?D (totalO (retM a)) (\<lambda>_. ?D) ?D" "hoareO ?D (totalO (failM e)) (\<lambda>_. ?D) ?D"
    for a :: bytes and e
    by (rule hoareO_totalO, simp)+
  have "hoareO ?D (ReadRange X object_id expected offset nbytes) (\<lambda>_. ?D) ?D"
    unfolding ReadRange_def Let_def
    by (split if_split)+ (intro conjI impI const hoareO_bindO [OF opened] hoareO_bindO [OF stat]
        hoareO_bindO [OF data] hoareO_bindO [OF closed])
  from hoareOD [OF this refl] run show ?thesis by (cases r) auto
qed

end
