(* ===== verification/Unified_Storage.thy ===== *)
theory Unified_Storage
  imports System_Messages Object_File_Store
begin

text \<open>
  \<^verbatim>\<open>src/storage/unified_storage.cpp\<close>: the typed reads and writes over the database, the
  scans, the validation on opening and the recovery of unfinished objects. A read takes the snapshot
  it reads from; a writer returns the write batch extended by its operation; \<open>Commit\<close> and the
  functions that touch the object files change the state \<open>disk\<close>.
\<close>

section \<open>Environment and state\<close>

text \<open>
  The environment of the server: the three libraries, the fault injector and the limits of
  \<^verbatim>\<open>OpenEventCore\<close>. The state on disk is the database and the operating system.
\<close>

record ('db, 'snap, 'os) env =
  rocks :: "('db, 'snap) rocksdb"
  proto_lib :: proto
  posix_api :: "'os posix"
  fault_injector :: storage_fault_injector
  max_payload_bytes :: u64
  max_scan_records :: u64
  response_soft_limit_bytes :: u64
  has_fatal_error_handler :: bool

record ('db, 'os) disk =
  d_db :: 'db
  d_os :: 'os

definition env_laws :: "('db, 'snap, 'os) env \<Rightarrow> bool" where
  "env_laws E \<longleftrightarrow> rocks_laws (rocks E) \<and> proto_laws (proto_lib E) \<and> posix_laws (posix_api E)"

abbreviation contents :: "('db, 'snap, 'os) env \<Rightarrow> ('db, 'os, 'z) disk_scheme \<Rightarrow> kv" where
  "contents E s \<equiv> db_contents (rocks E) (d_db s)"

abbreviation snap_view :: "('db, 'snap, 'os) env \<Rightarrow> 'snap \<Rightarrow> kv" where
  "snap_view E \<equiv> snap_contents (rocks E)"

abbreviation rocks_result :: "('db, 'snap, 'os) env \<Rightarrow> rocks_status \<Rightarrow> string \<Rightarrow> unit result" where
  "rocks_result E \<equiv> RocksToStatus (status_ToString (rocks E))"

definition kSchemaVersion :: u64 where "kSchemaVersion = 6"

section \<open>Stored values\<close>

definition SerializeObject :: "proto \<Rightarrow> stored_object \<Rightarrow> bytes result" where
  "SerializeObject P ob =
     (let rec = \<lparr>rec_object_id = so_object_id ob, rec_object_token = so_object_token ob,
        rec_creator_principal = so_creator_principal ob, rec_name = so_name ob, rec_type = so_type ob,
        rec_description = so_description ob, rec_nbytes = so_nbytes ob\<rparr>
      in case record_SerializeToString P rec of
        None \<Rightarrow> Inl (mk_status INTERNAL ''serialize object metadata failed'')
      | Some payload \<Rightarrow> Inr payload)"

definition is_base64url_char :: "char \<Rightarrow> bool" where
  "is_base64url_char ch \<longleftrightarrow> (CHR ''A'' \<le> ch \<and> ch \<le> CHR ''Z'') \<or> (CHR ''a'' \<le> ch \<and> ch \<le> CHR ''z'') \<or>
     (CHR ''0'' \<le> ch \<and> ch \<le> CHR ''9'') \<or> ch = CHR ''-'' \<or> ch = CHR ''_''"

definition IsBase64UrlToken :: "string \<Rightarrow> bool" where
  "IsBase64UrlToken token \<longleftrightarrow>
     length token = kObjectTokenEncodedBytes \<and> list_all is_base64url_char token"

definition ParseObject :: "proto \<Rightarrow> bytes \<Rightarrow> u64 \<Rightarrow> stored_object result" where
  "ParseObject P payload expected_id =
     (let corrupt = Inl (StorageCorruption ''decode object metadata'' ''invalid stored object metadata'') in
      case record_ParseFromString P payload of
        None \<Rightarrow> corrupt
      | Some rec \<Rightarrow>
          if rec_object_id rec \<noteq> expected_id \<or> expected_id = 0 \<or>
             \<not> IsBase64UrlToken (rec_object_token rec) \<or> rec_creator_principal rec = 0 \<or>
             rec_name rec = [] \<or> length (rec_name rec) > kMaxObjectNameBytes \<or>
             rec_type rec = [] \<or> length (rec_type rec) > kMaxObjectTypeBytes \<or>
             length (rec_description rec) > kMaxObjectDescriptionBytes \<or> rec_nbytes rec = 0 \<or>
             unat (rec_nbytes rec) > kMaxObjectBytes
          then corrupt
          else Inr \<lparr>so_object_id = rec_object_id rec, so_object_token = rec_object_token rec,
            so_creator_principal = rec_creator_principal rec, so_name = rec_name rec,
            so_type = rec_type rec, so_description = rec_description rec, so_nbytes = rec_nbytes rec\<rparr>)"

definition ValidStoredChannel :: "proto \<Rightarrow> channel_info \<Rightarrow> bool" where
  "ValidStoredChannel P channel \<longleftrightarrow>
     ch_channel_id channel \<noteq> 0 \<and>
     (case ch_creator channel of
        None \<Rightarrow> False
      | Some creator \<Rightarrow> creator \<noteq> 0 \<and> ch_name channel \<noteq> [] \<and> length (ch_name channel) \<le> 255 \<and>
          length (ch_protocol channel) \<le> 255 \<and> length (ch_description channel) \<le> 4096 \<and>
          Visibility_IsValid P (ch_visibility channel) \<and>
          creator \<in> set (ch_members channel) \<and> 0 \<notin> set (ch_members channel))"

section \<open>Snapshots and commits\<close>

definition CreateSnapshot :: "('db, 'snap, 'os) env \<Rightarrow> 'db \<Rightarrow> 'snap result" where
  "CreateSnapshot E db =
     (case db_GetSnapshot (rocks E) db of
        None \<Rightarrow> Inl (WithStorageDiagnostic (status_Fatal UNAVAILABLE ''create storage snapshot failed'')
                   ''create storage snapshot'' ''RocksDB returned no snapshot'')
      | Some snapshot \<Rightarrow> Inr snapshot)"

definition Commit ::
  "('db, 'snap, 'os) env \<Rightarrow> write_batch \<Rightarrow> (('db, 'os, 'z) disk_scheme, status, unit) op" where
  "Commit E batch s =
     (case InjectStorageFault (fault_injector E) kBeforeCommit of
        Inl injected \<Rightarrow>
          (Inl (WithStorageDiagnostic (status_Fatal (st_code injected) (st_message injected))
             ''commit storage batch'' ''injected failure before write''), s)
      | Inr _ \<Rightarrow>
          let (st, db') = db_Write (rocks E) (d_db s) batch;
              s' = s\<lparr>d_db := db'\<rparr>
          in case rocks_result E st ''commit storage batch'' of
               Inl e \<Rightarrow> (Inl e, s')
             | Inr _ \<Rightarrow>
                 (case InjectStorageFault (fault_injector E) kAfterCommit of
                    Inr _ \<Rightarrow> (Inr (), s')
                  | Inl injected \<Rightarrow>
                      (Inl (WithStorageDiagnostic (status_Fatal (st_code injected) (st_message injected))
                         ''commit storage batch'' ''injected failure after write''), s')))"

section \<open>Reads\<close>

definition GetRequiredUint64 :: "('db, 'snap, 'os) env \<Rightarrow> 'snap \<Rightarrow> bytes \<Rightarrow> u64 result" where
  "GetRequiredUint64 E snapshot key =
     (let (st, value) = db_Get (rocks E) snapshot Meta key in
      if rocks_not_found st
      then Inl (StorageCorruption (''read '' @ key) (''missing required storage key: '' @ key))
      else bindR (rocks_result E st (''read '' @ key)) (\<lambda>_. DecodeRequiredUint64 value key))"

definition GetMaxSeq :: "('db, 'snap, 'os) env \<Rightarrow> 'snap \<Rightarrow> u64 result" where
  "GetMaxSeq E snapshot = GetRequiredUint64 E snapshot kMaxSeqKey"

definition GetNextUuid :: "('db, 'snap, 'os) env \<Rightarrow> 'snap \<Rightarrow> u64 result" where
  "GetNextUuid E snapshot = GetRequiredUint64 E snapshot kNextUuidKey"

definition GetNextChannelId :: "('db, 'snap, 'os) env \<Rightarrow> 'snap \<Rightarrow> u64 result" where
  "GetNextChannelId E snapshot = GetRequiredUint64 E snapshot kNextChannelIdKey"

definition GetNextObjectId :: "('db, 'snap, 'os) env \<Rightarrow> 'snap \<Rightarrow> u64 result" where
  "GetNextObjectId E snapshot = GetRequiredUint64 E snapshot kNextObjectIdKey"

definition GetUsedUuidSeq :: "('db, 'snap, 'os) env \<Rightarrow> 'snap \<Rightarrow> u64 \<Rightarrow> u64 option result" where
  "GetUsedUuidSeq E snapshot uuid =
     (let (st, value) = db_Get (rocks E) snapshot Meta (NumericKey kUuidPrefix uuid) in
      if rocks_not_found st then Inr None
      else bindR (rocks_result E st ''read used uuid'') (\<lambda>_.
           bindR (DecodeRequiredUint64 value ''used uuid'') (\<lambda>seq.
           if (uuid = 0) \<noteq> (seq = 0)
           then Inl (StorageCorruption ''read used uuid'' ''invalid stored UUID mapping'')
           else Inr (Some seq))))"

definition HasToken :: "('db, 'snap, 'os) env \<Rightarrow> 'snap \<Rightarrow> u64 \<Rightarrow> string \<Rightarrow> bool result" where
  "HasToken E snapshot prin token =
     (let (st, value) = db_Get (rocks E) snapshot Meta (TokenKey prin token) in
      if rocks_not_found st then Inr False
      else bindR (rocks_result E st ''read credential'') (\<lambda>_.
           if value \<noteq> [] then Inl (StorageCorruption ''read credential'' ''invalid stored credential'')
           else Inr True))"

definition decode_channel :: "proto \<Rightarrow> bytes \<Rightarrow> u64 \<Rightarrow> string \<Rightarrow> channel_info result" where
  "decode_channel P value channel_id operation =
     (case channel_ParseFromString P value of
        None \<Rightarrow> Inl (StorageCorruption operation ''invalid stored channel'')
      | Some channel \<Rightarrow>
          if ch_channel_id channel \<noteq> channel_id \<or> \<not> ValidStoredChannel P channel
          then Inl (StorageCorruption operation ''invalid stored channel'')
          else Inr channel)"

definition GetChannel :: "('db, 'snap, 'os) env \<Rightarrow> 'snap \<Rightarrow> u64 \<Rightarrow> channel_info option result" where
  "GetChannel E snapshot channel_id =
     (let (st, value) = db_Get (rocks E) snapshot Meta (NumericKey kChannelPrefix channel_id) in
      if rocks_not_found st then Inr None
      else bindR (rocks_result E st ''read channel'') (\<lambda>_.
           bindR (decode_channel (proto_lib E) value channel_id ''read channel'') (\<lambda>channel.
           Inr (Some channel))))"

text \<open>The loop over the iterator returns the channels and what the iterator still has to yield.\<close>

fun ListChannels_loop :: "proto \<Rightarrow> (bytes \<times> bytes) list \<Rightarrow> channel_info list \<Rightarrow>
    (channel_info list \<times> (bytes \<times> bytes) list) result" where
  "ListChannels_loop P [] channels = Inr (channels, [])"
| "ListChannels_loop P ((key, value) # rest) channels =
     (if \<not> prefix kChannelPrefix key then Inr (channels, (key, value) # rest)
      else bindR (DecodeNumericKey key kChannelPrefix ''channel'') (\<lambda>channel_id.
           bindR (decode_channel P value channel_id ''list channels'') (\<lambda>channel.
           ListChannels_loop P rest (channels @ [channel]))))"

definition ListChannels :: "('db, 'snap, 'os) env \<Rightarrow> 'snap \<Rightarrow> channel_info list result" where
  "ListChannels E snapshot =
     (let (entries, final) = db_Iterate (rocks E) snapshot Meta kChannelPrefix in
      bindR (ListChannels_loop (proto_lib E) entries []) (\<lambda>(channels, rest).
      bindR (rocks_result E (iter_status rest final) ''list channels'') (\<lambda>_. Inr channels)))"

definition GetObject :: "('db, 'snap, 'os) env \<Rightarrow> 'snap \<Rightarrow> bytes \<Rightarrow> u64 \<Rightarrow> stored_object option result" where
  "GetObject E snapshot pre object_id =
     (let (st, value) = db_Get (rocks E) snapshot Objects (NumericKey pre object_id) in
      if rocks_not_found st then Inr None
      else bindR (rocks_result E st ''read object metadata'') (\<lambda>_.
           bindR (ParseObject (proto_lib E) value object_id) (\<lambda>ob. Inr (Some ob))))"

definition GetPreparingObject :: "('db, 'snap, 'os) env \<Rightarrow> 'snap \<Rightarrow> u64 \<Rightarrow> stored_object option result" where
  "GetPreparingObject E snapshot object_id = GetObject E snapshot kPreparingObjectPrefix object_id"

definition GetCommittedObject :: "('db, 'snap, 'os) env \<Rightarrow> 'snap \<Rightarrow> u64 \<Rightarrow> stored_object option result" where
  "GetCommittedObject E snapshot object_id = GetObject E snapshot kCommittedObjectPrefix object_id"

text \<open>The results of \<^verbatim>\<open>MultiGet\<close> are turned into objects in order, up to the first error.\<close>

fun decode_objects :: "('db, 'snap, 'os) env \<Rightarrow> u64 list \<Rightarrow> (rocks_status \<times> bytes) list \<Rightarrow>
    stored_object option list result" where
  "decode_objects E (object_id # ids) ((st, value) # rs) =
     (if rocks_not_found st
      then bindR (decode_objects E ids rs) (\<lambda>obs. Inr (None # obs))
      else bindR (rocks_result E st ''read object metadata'') (\<lambda>_.
           bindR (ParseObject (proto_lib E) value object_id) (\<lambda>ob.
           bindR (decode_objects E ids rs) (\<lambda>obs. Inr (Some ob # obs)))))"
| "decode_objects E _ _ = Inr []"

definition GetCommittedObjects ::
  "('db, 'snap, 'os) env \<Rightarrow> 'snap \<Rightarrow> u64 list \<Rightarrow> stored_object option list result" where
  "GetCommittedObjects E snapshot object_ids =
     (if object_ids = [] then Inr []
      else decode_objects E object_ids
        (db_MultiGet (rocks E) snapshot (map (\<lambda>i. (Objects, NumericKey kCommittedObjectPrefix i)) object_ids)))"

section \<open>The scan over the messages\<close>

datatype message_scan_action = kContinue | kStopBefore | kStopAfter

text \<open>
  A visitor is called with the state it captures (\<open>'v\<close>) and returns it updated, as the lambda
  expressions of the sources update the variables they capture by reference.
\<close>

type_synonym 'v message_visitor = "'v \<Rightarrow> event_message \<Rightarrow> message_scan_action result \<times> 'v"

definition valid_object_key :: "object_key \<Rightarrow> bool" where
  "valid_object_key k \<longleftrightarrow> ok_object_id k \<noteq> 0 \<and> IsBase64UrlToken (ok_object_token k)"

definition DecodeStoredMessage :: "proto \<Rightarrow> u64 \<Rightarrow> bytes \<Rightarrow> event_message result" where
  "DecodeStoredMessage P seq value =
     (case message_ParseFromString P value of
        None \<Rightarrow> Inl (StorageCorruption ''scan messages'' ''invalid stored message'')
      | Some message \<Rightarrow>
          if msg_seq message \<noteq> seq
          then Inl (StorageCorruption ''scan messages'' ''invalid stored message'')
          else if (if seq = 0 then \<not> ValidInitializationMessage P message
                   else msg_uuid message = 0 \<or> msg_channel_id message = 0 \<or>
                     (msg_principal message = 0 \<and> \<not> ValidChannelSystemMessage P message) \<or>
                     0 \<in> set (msg_recipients message))
          then Inl (StorageCorruption ''scan messages'' ''invalid stored message reserved fields'')
          else if length (msg_object_keys message) > kMaxObjectKeys \<or>
             \<not> list_all valid_object_key (msg_object_keys message)
          then Inl (StorageCorruption ''scan messages'' ''invalid stored message object reference'')
          else Inr message)"

text \<open>
  The loop either returns from the function or breaks, with the entries the iterator still points
  at, the number of records scanned and the next sequence number.
\<close>

datatype 'v scan_exit =
    ScanReturn "u64 result" 'v
  | ScanBreak "(bytes \<times> bytes) list" u64 u64 'v

definition missing_message :: "u64 \<Rightarrow> status" where
  "missing_message next_seq =
     StorageCorruption ''scan messages'' (''missing stored message at seq '' @ to_string next_seq)"

fun ScanMessages_loop :: "proto \<Rightarrow> u64 \<Rightarrow> u64 \<Rightarrow> 'v message_visitor \<Rightarrow>
    (bytes \<times> bytes) list \<Rightarrow> u64 \<Rightarrow> u64 \<Rightarrow> 'v \<Rightarrow> 'v scan_exit" where
  "ScanMessages_loop P last_seq max_records visitor [] scanned next_seq v = ScanBreak [] scanned next_seq v"
| "ScanMessages_loop P last_seq max_records visitor ((key, value) # rest) scanned next_seq v =
     (if \<not> prefix kMessagePrefix key then ScanBreak ((key, value) # rest) scanned next_seq v
      else case DecodeNumericKey key kMessagePrefix ''message'' of
        Inl e \<Rightarrow> ScanReturn (Inl e) v
      | Inr seq \<Rightarrow>
          if seq > last_seq then ScanBreak ((key, value) # rest) scanned next_seq v
          else if seq \<noteq> next_seq then ScanReturn (Inl (missing_message next_seq)) v
          else if scanned \<ge> max_records then ScanBreak ((key, value) # rest) scanned next_seq v
          else case DecodeStoredMessage P seq value of
            Inl e \<Rightarrow> ScanReturn (Inl e) v
          | Inr message \<Rightarrow>
              (case visitor v message of
                 (Inl e, v') \<Rightarrow> ScanReturn (Inl e) v'
               | (Inr kStopBefore, v') \<Rightarrow> ScanReturn (Inr seq) v'
               | (Inr kStopAfter, v') \<Rightarrow> ScanReturn (Inr (seq + 1)) v'
               | (Inr kContinue, v') \<Rightarrow>
                   ScanMessages_loop P last_seq max_records visitor rest (scanned + 1) (seq + 1) v'))"

text \<open>\<^verbatim>\<open>!it->Valid() || !starts_with || DecodeUint64(substr) > last_seq\<close> after the loop.\<close>

definition past_last :: "(bytes \<times> bytes) list \<Rightarrow> u64 \<Rightarrow> bool" where
  "past_last rest last_seq =
     (case rest of
        [] \<Rightarrow> True
      | (key, _) # _ \<Rightarrow> \<not> prefix kMessagePrefix key \<or>
          DecodeUint64 (drop (length kMessagePrefix) key) > last_seq)"

definition ScanMessages :: "('db, 'snap, 'os) env \<Rightarrow> 'snap \<Rightarrow> u64 \<Rightarrow> u64 \<Rightarrow> u64 \<Rightarrow>
    'v message_visitor \<Rightarrow> 'v \<Rightarrow> u64 result \<times> 'v" where
  "ScanMessages E snapshot from_seq last_seq max_records visitor v =
     (let (entries, final) = db_Iterate (rocks E) snapshot Messages (NumericKey kMessagePrefix from_seq) in
      case ScanMessages_loop (proto_lib E) last_seq max_records visitor entries 0 from_seq v of
        ScanReturn r v' \<Rightarrow> (r, v')
      | ScanBreak rest scanned next_seq v' \<Rightarrow>
          (bindR (rocks_result E (iter_status rest final) ''scan messages'') (\<lambda>_.
           if scanned < max_records \<and> next_seq \<le> last_seq \<and> past_last rest last_seq
           then Inl (missing_message next_seq) else Inr next_seq), v'))"

section \<open>Writes\<close>

text \<open>A writer appends its operation to the batch.\<close>

definition SetMaxSeq :: "write_batch \<Rightarrow> u64 \<Rightarrow> write_batch result" where
  "SetMaxSeq batch seq = Inr (batch @ [Put Meta kMaxSeqKey (EncodeUint64 seq)])"

definition SetNextUuid :: "write_batch \<Rightarrow> u64 \<Rightarrow> write_batch result" where
  "SetNextUuid batch uuid =
     (if uuid = 0 then Inl (mk_status INVALID_ARGUMENT ''next uuid must be nonzero'')
      else Inr (batch @ [Put Meta kNextUuidKey (EncodeUint64 uuid)]))"

definition PutUsedUuid :: "write_batch \<Rightarrow> u64 \<Rightarrow> u64 \<Rightarrow> write_batch result" where
  "PutUsedUuid batch uuid seq =
     (if uuid = 0 \<or> seq = 0 then Inl (mk_status INVALID_ARGUMENT ''used uuid and seq must be nonzero'')
      else Inr (batch @ [Put Meta (NumericKey kUuidPrefix uuid) (EncodeUint64 seq)]))"

definition SetNextChannelId :: "write_batch \<Rightarrow> u64 \<Rightarrow> write_batch result" where
  "SetNextChannelId batch channel_id = Inr (batch @ [Put Meta kNextChannelIdKey (EncodeUint64 channel_id)])"

definition SetNextObjectId :: "write_batch \<Rightarrow> u64 \<Rightarrow> write_batch result" where
  "SetNextObjectId batch object_id = Inr (batch @ [Put Meta kNextObjectIdKey (EncodeUint64 object_id)])"

definition PutMessage :: "proto \<Rightarrow> write_batch \<Rightarrow> event_message \<Rightarrow> write_batch result" where
  "PutMessage P batch message =
     (case message_SerializeToString P message of
        None \<Rightarrow> Inl (mk_status INTERNAL ''serialize message failed'')
      | Some payload \<Rightarrow> Inr (batch @ [Put Messages (NumericKey kMessagePrefix (msg_seq message)) payload]))"

definition PutChannel :: "proto \<Rightarrow> write_batch \<Rightarrow> channel_info \<Rightarrow> write_batch result" where
  "PutChannel P batch channel =
     (case channel_SerializeToString P channel of
        None \<Rightarrow> Inl (mk_status INTERNAL ''serialize channel failed'')
      | Some payload \<Rightarrow> Inr (batch @ [Put Meta (NumericKey kChannelPrefix (ch_channel_id channel)) payload]))"

definition PutToken :: "write_batch \<Rightarrow> u64 \<Rightarrow> string \<Rightarrow> write_batch result" where
  "PutToken batch prin token = Inr (batch @ [Put Meta (TokenKey prin token) []])"

definition DeleteToken :: "write_batch \<Rightarrow> u64 \<Rightarrow> string \<Rightarrow> write_batch" where
  "DeleteToken batch prin token = batch @ [Delete Meta (TokenKey prin token)]"

definition PutPreparingObject :: "proto \<Rightarrow> write_batch \<Rightarrow> stored_object \<Rightarrow> write_batch result" where
  "PutPreparingObject P batch ob =
     bindR (SerializeObject P ob) (\<lambda>payload.
     Inr (batch @ [Put Objects (NumericKey kPreparingObjectPrefix (so_object_id ob)) payload]))"

definition PutCommittedObject :: "proto \<Rightarrow> write_batch \<Rightarrow> stored_object \<Rightarrow> write_batch result" where
  "PutCommittedObject P batch ob =
     bindR (SerializeObject P ob) (\<lambda>payload.
     Inr (batch @ [Delete Objects (NumericKey kPreparingObjectPrefix (so_object_id ob)),
                   Put Objects (NumericKey kCommittedObjectPrefix (so_object_id ob)) payload]))"

definition DeletePreparingObject :: "write_batch \<Rightarrow> u64 \<Rightarrow> write_batch" where
  "DeletePreparingObject batch object_id =
     batch @ [Delete Objects (NumericKey kPreparingObjectPrefix object_id)]"

section \<open>Object files\<close>

text \<open>Running a computation of the object file store on the operating system in the state.\<close>

definition on_os :: "('os, status, 'a) op \<Rightarrow> (('db, 'os, 'z) disk_scheme, status, 'a) op" where
  "on_os m s = (let (r, os') = m (d_os s) in (r, s\<lparr>d_os := os'\<rparr>))"

definition on_os_pop :: "('os, status, 'a) pop \<Rightarrow> (('db, 'os, 'z) disk_scheme, status, 'a) pop" where
  "on_os_pop m s = (case m (d_os s) of None \<Rightarrow> None | Some (r, os') \<Rightarrow> Some (r, s\<lparr>d_os := os'\<rparr>))"

definition WriteObjectFile :: "('db, 'snap, 'os) env \<Rightarrow> u64 \<Rightarrow> bytes \<Rightarrow>
    (('db, 'os, 'z) disk_scheme, status, unit) pop" where
  "WriteObjectFile E object_id data = on_os_pop (Write (posix_api E) (fault_injector E) object_id data)"

definition CleanupObjectFiles :: "('db, 'snap, 'os) env \<Rightarrow> u64 \<Rightarrow>
    (('db, 'os, 'z) disk_scheme, status, unit) op" where
  "CleanupObjectFiles E object_id = on_os (Cleanup (posix_api E) [object_id])"

definition ReadObjectFile :: "('db, 'snap, 'os) env \<Rightarrow> stored_object \<Rightarrow> u64 \<Rightarrow> u64 \<Rightarrow>
    (('db, 'os, 'z) disk_scheme, status, bytes) pop" where
  "ReadObjectFile E ob offset nbytes =
     on_os_pop (ReadRange (posix_api E) (so_object_id ob) (so_nbytes ob) offset nbytes)"

section \<open>Recovery and validation\<close>

fun ListPreparingObjects_loop :: "proto \<Rightarrow> (bytes \<times> bytes) list \<Rightarrow> stored_object list \<Rightarrow>
    (stored_object list \<times> (bytes \<times> bytes) list) result" where
  "ListPreparingObjects_loop P [] objects = Inr (objects, [])"
| "ListPreparingObjects_loop P ((key, value) # rest) objects =
     (if \<not> prefix kPreparingObjectPrefix key then Inr (objects, (key, value) # rest)
      else bindR (DecodeNumericKey key kPreparingObjectPrefix ''preparing object'') (\<lambda>object_id.
           bindR (ParseObject P value object_id) (\<lambda>ob.
           ListPreparingObjects_loop P rest (objects @ [ob]))))"

definition ListPreparingObjects :: "('db, 'snap, 'os) env \<Rightarrow> 'db \<Rightarrow> stored_object list result" where
  "ListPreparingObjects E db =
     (let (entries, final) = db_Iterate (rocks E) (db_Latest (rocks E) db) Objects kPreparingObjectPrefix in
      bindR (ListPreparingObjects_loop (proto_lib E) entries []) (\<lambda>(objects, rest).
      bindR (rocks_result E (iter_status rest final) ''list preparing objects'') (\<lambda>_. Inr objects)))"

primrec check_not_committed :: "('db, 'snap, 'os) env \<Rightarrow> 'snap \<Rightarrow> stored_object list \<Rightarrow> unit result" where
  "check_not_committed E snapshot [] = Inr ()"
| "check_not_committed E snapshot (ob # obs) =
     bindR (GetCommittedObject E snapshot (so_object_id ob)) (\<lambda>committed.
     if committed \<noteq> None
     then Inl (StorageCorruption ''recover preparing objects''
                ''object ID has both PREPARING and COMMITTED metadata'')
     else check_not_committed E snapshot obs)"

definition RecoverPreparingObjects ::
  "('db, 'snap, 'os) env \<Rightarrow> (('db, 'os, 'z) disk_scheme, status, unit) op" where
  "RecoverPreparingObjects E =
     bindM (askM (\<lambda>s. ListPreparingObjects E (d_db s))) (\<lambda>objects.
     if objects = [] then retM ()
     else
       bindM (askM (\<lambda>s. CreateSnapshot E (d_db s))) (\<lambda>snapshot.
       bindM (liftM (check_not_committed E snapshot objects)) (\<lambda>_.
       bindM (on_os (Cleanup (posix_api E) (map so_object_id objects))) (\<lambda>_.
       Commit E (foldl DeletePreparingObject [] (map so_object_id objects))))))"

definition Validate :: "('db, 'snap, 'os) env \<Rightarrow> 'db \<Rightarrow> unit result" where
  "Validate E db =
     bindR (CreateSnapshot E db) (\<lambda>snapshot.
     bindR (GetRequiredUint64 E snapshot kSchemaVersionKey) (\<lambda>schema.
     bindR (failIf (schema \<noteq> kSchemaVersion)
       (StorageCorruption ''validate storage'' ''unsupported storage schema version'')) (\<lambda>_.
     bindR (GetMaxSeq E snapshot) (\<lambda>max_seq.
     bindR (GetNextUuid E snapshot) (\<lambda>next_uuid.
     bindR (failIf (next_uuid = 0) (StorageCorruption ''validate storage'' ''invalid next uuid'')) (\<lambda>_.
     bindR (GetNextChannelId E snapshot) (\<lambda>next_channel_id.
     bindR (failIf (next_channel_id = 0)
       (StorageCorruption ''validate storage'' ''invalid next channel ID'')) (\<lambda>_.
     bindR (GetNextObjectId E snapshot) (\<lambda>next_object_id.
     bindR (failIf (next_object_id = 0)
       (StorageCorruption ''validate storage'' ''invalid next object ID'')) (\<lambda>_.
     let (st, encoded_message) = db_Get (rocks E) snapshot Messages (NumericKey kMessagePrefix 0) in
     if rocks_not_found st
     then Inl (StorageCorruption ''validate storage'' ''missing system initialization message'')
     else
     bindR (rocks_result E st ''read system initialization message'') (\<lambda>_.
     bindR (failIf (case message_ParseFromString (proto_lib E) encoded_message of
                None \<Rightarrow> True | Some message \<Rightarrow> \<not> ValidInitializationMessage (proto_lib E) message)
       (StorageCorruption ''validate storage'' ''invalid system initialization message'')) (\<lambda>_.
     bindR (GetUsedUuidSeq E snapshot 0) (\<lambda>system_seq.
     failIf (system_seq \<noteq> Some 0)
       (StorageCorruption ''validate storage'' ''missing or conflicting system UUID mapping''))))))))))))))"

text \<open>
  The batch \<^verbatim>\<open>InitializeNew\<close> writes into a freshly created database, and its write.
  \<^verbatim>\<open>SerializeAsString\<close> yields the empty string when it fails.
\<close>

definition InitializationBatch :: "proto \<Rightarrow> int \<Rightarrow> write_batch" where
  "InitializationBatch P event_ms =
     [Put Meta kSchemaVersionKey (EncodeUint64 kSchemaVersion),
      Put Meta kMaxSeqKey (EncodeUint64 0),
      Put Meta kNextUuidKey (EncodeUint64 1),
      Put Meta kNextChannelIdKey (EncodeUint64 1),
      Put Meta kNextObjectIdKey (EncodeUint64 1),
      Put Meta (NumericKey kUuidPrefix 0) (EncodeUint64 0),
      Put Messages (NumericKey kMessagePrefix 0)
        (case message_SerializeToString P (InitializationMessage event_ms) of None \<Rightarrow> [] | Some b \<Rightarrow> b)]"

definition InitializeNew_write ::
  "('db, 'snap, 'os) env \<Rightarrow> int \<Rightarrow> (('db, 'w, 'z) disk_scheme, status, unit) op" where
  "InitializeNew_write E event_ms s =
     (case InjectStorageFault (fault_injector E) kBeforeInitializationCommit of
        Inl injected \<Rightarrow> (Inl injected, s)
      | Inr _ \<Rightarrow>
          let (st, db') = db_Write (rocks E) (d_db s) (InitializationBatch (proto_lib E) event_ms)
          in (bindR (rocks_result E st ''finish storage initialization'') (\<lambda>_.
              InjectStorageFault (fault_injector E) kAfterInitializationCommit), s\<lparr>d_db := db'\<rparr>))"

end
