(* ===== verification/Core_Base.thy ===== *)
theory Core_Base
  imports Unified_Storage
begin

text \<open>
  The state of \<^verbatim>\<open>OpenEventCore\<close> (\<^verbatim>\<open>src/service/open_event_core.h\<close>) and what
  all its operations share: availability and the fatal-error latch, snapshots, commits,
  authentication, channel access and the validation of request fields.

  A handler of the sources that takes the coordinator mutex for its whole body is one computation on
  the state. Values a handler obtains from the clock or from the call's context are arguments.
\<close>

section \<open>State\<close>

record ('db, 'snap, 'os) core = "('db, 'os) disk" +
  commit_generation :: u64
  subscription_snapshot :: "'snap option"
  subscription_snapshot_version :: u64
  subscription_snapshot_generation :: u64
  subscription_snapshot_attempt_generation :: u64
  subscription_snapshot_status :: status
  stop_subscription_snapshot_thread :: bool
  fatal_error_triggered :: bool
  fatal_handler_calls :: "status list"

type_synonym ('db, 'snap, 'os, 'a) core_op = "(('db, 'snap, 'os) core, status, 'a) op"

section \<open>Availability and fatal errors\<close>

definition EnsureAvailable :: "('db, 'snap, 'os, unit) core_op" where
  "EnsureAvailable = askM (\<lambda>c.
     if fatal_error_triggered c
     then Inl (mk_status UNAVAILABLE ''server is shutting down due to a fatal storage error'')
     else Inr ())"

text \<open>
  The observable effect of the handler is the list of statuses it was called with; the function
  returns the status it was given, so a caller fails with that status.
\<close>

definition FatalStorageError ::
  "('db, 'snap, 'os) env \<Rightarrow> status \<Rightarrow> ('db, 'snap, 'os) core \<Rightarrow> ('db, 'snap, 'os) core" where
  "FatalStorageError E s c =
     (if fatal_error_triggered c then c
      else c\<lparr>fatal_error_triggered := True,
             fatal_handler_calls := fatal_handler_calls c @ (if has_fatal_error_handler E then [s] else [])\<rparr>)"

definition failFatal :: "('db, 'snap, 'os) env \<Rightarrow> status \<Rightarrow> ('db, 'snap, 'os, 'a) core_op" where
  "failFatal E s c = (Inl s, FatalStorageError E s c)"

text \<open>\<^verbatim>\<open>requires_server_exit() || code() == DATA_LOSS ? FatalStorageError(s) : s\<close>.\<close>

definition failClassified :: "('db, 'snap, 'os) env \<Rightarrow> status \<Rightarrow> ('db, 'snap, 'os, 'a) core_op" where
  "failClassified E s = (if is_fatal s then failFatal E s else failM s)"

definition liftClassified :: "('db, 'snap, 'os) env \<Rightarrow> 'a result \<Rightarrow> ('db, 'snap, 'os, 'a) core_op" where
  "liftClassified E r = (case r of Inl s \<Rightarrow> failClassified E s | Inr a \<Rightarrow> retM a)"

definition HandleRpcStatus ::
  "('db, 'snap, 'os) env \<Rightarrow> 'a result \<Rightarrow> ('db, 'snap, 'os, 'a) core_op" where
  "HandleRpcStatus E r c =
     (r, if is_fatal (of_result r) then FatalStorageError E (of_result r) c else c)"

section \<open>Snapshots and commits\<close>

definition CreateLinearizedSnapshot :: "('db, 'snap, 'os) env \<Rightarrow> ('db, 'snap, 'os, 'snap) core_op" where
  "CreateLinearizedSnapshot E = askM (\<lambda>c. CreateSnapshot E (d_db c))"

definition CommitBatch :: "('db, 'snap, 'os) env \<Rightarrow> write_batch \<Rightarrow> ('db, 'snap, 'os, unit) core_op" where
  "CommitBatch E batch c =
     (case Commit E batch c of
        (Inl s, c') \<Rightarrow> if st_requires_server_exit s then failFatal E s c' else (Inl s, c')
      | (Inr _, c') \<Rightarrow> (Inr (), c'\<lparr>commit_generation := commit_generation c' + 1\<rparr>))"

section \<open>The call\<close>

text \<open>
  What a handler observes of its \<^verbatim>\<open>grpc::ServerContext\<close>: \<open>None\<close> is the null pointer;
  otherwise the deadline (\<open>None\<close> for the maximal time point), the clock and the cancellation
  flag at the time of the check.
\<close>

type_synonym rpc_observation = "(u64 option \<times> u64 \<times> bool) option"

definition CheckRpcActive :: "rpc_observation \<Rightarrow> unit result" where
  "CheckRpcActive context =
     (case context of
        None \<Rightarrow> Inr ()
      | Some (deadline, now, cancelled) \<Rightarrow>
          if (case deadline of None \<Rightarrow> False | Some d \<Rightarrow> now \<ge> d)
          then Inl (mk_status DEADLINE_EXCEEDED ''RPC deadline exceeded'')
          else if cancelled then Inl (mk_status CANCELLED ''RPC cancelled'')
          else Inr ())"

section \<open>Authentication\<close>

definition Authenticate :: "('db, 'snap, 'os) env \<Rightarrow> 'snap \<Rightarrow> u64 \<Rightarrow> string \<Rightarrow> unit result" where
  "Authenticate E snapshot prin token =
     (if prin = 0 then Inl (mk_status INVALID_ARGUMENT ''principal must be greater than 0'')
      else if token = [] then Inl (mk_status UNAUTHENTICATED ''token is required'')
      else bindR (HasToken E snapshot prin token) (\<lambda>present.
           failIf (\<not> present) (mk_status UNAUTHENTICATED ''invalid token'')))"

section \<open>Channels\<close>

definition IsMember :: "channel_info \<Rightarrow> u64 \<Rightarrow> bool" where
  "IsMember channel prin \<longleftrightarrow> prin \<in> set (ch_members channel)"

definition CanRead :: "channel_info \<Rightarrow> u64 \<Rightarrow> bool" where
  "CanRead channel prin =
     (if ch_channel_id channel = 0 then True
      else if ch_visibility channel = VISIBILITY_PUBLIC \<or> ch_visibility channel = VISIBILITY_PROTECTED
      then True
      else IsMember channel prin)"

definition CanWrite :: "channel_info \<Rightarrow> u64 \<Rightarrow> bool" where
  "CanWrite channel prin =
     (if ch_channel_id channel = 0 then False
      else if ch_visibility channel = VISIBILITY_PUBLIC then True
      else IsMember channel prin)"

definition SystemChannel :: channel_info where
  "SystemChannel = \<lparr>ch_channel_id = 0, ch_name = ''system'', ch_visibility = VISIBILITY_PROTECTED,
     ch_protocol = ''system.v1'', ch_description = [], ch_creator = None, ch_members = []\<rparr>"

definition LoadChannel :: "('db, 'snap, 'os) env \<Rightarrow> 'snap \<Rightarrow> u64 \<Rightarrow> channel_info option result" where
  "LoadChannel E snapshot channel_id =
     (if channel_id = 0 then Inr (Some SystemChannel) else GetChannel E snapshot channel_id)"

definition ValidateRecipients :: "channel_info \<Rightarrow> u64 list \<Rightarrow> unit result" where
  "ValidateRecipients channel recipients =
     (if recipients = [] then Inr ()
      else failIf (\<not> list_all (\<lambda>r. r \<in> set (ch_members channel)) recipients)
             (mk_status INVALID_ARGUMENT ''recipient must be channel member''))"

definition HasRecipient :: "event_message \<Rightarrow> u64 \<Rightarrow> bool" where
  "HasRecipient message prin \<longleftrightarrow> prin \<in> set (msg_recipients message)"

definition ValidateVisibility :: "visibility \<Rightarrow> unit result" where
  "ValidateVisibility visibility =
     (if visibility = VISIBILITY_PUBLIC \<or> visibility = VISIBILITY_PROTECTED \<or>
         visibility = VISIBILITY_PRIVATE
      then Inr () else Inl (mk_status INVALID_ARGUMENT ''invalid visibility''))"

definition ValidateFilter :: "channel_filter \<Rightarrow> unit result" where
  "ValidateFilter filt =
     (if filt = CHANNEL_FILTER_ALL \<or> filt = CHANNEL_FILTER_JOINED \<or> filt = CHANNEL_FILTER_OWNED
      then Inr () else Inl (mk_status INVALID_ARGUMENT ''invalid channel filter''))"

section \<open>Request fields\<close>

definition ValidatePayloadSize :: "('db, 'snap, 'os) env \<Rightarrow> string \<Rightarrow> unit result" where
  "ValidatePayloadSize E payload =
     (if length payload \<le> unat (max_payload_bytes E) then Inr ()
      else Inl (mk_status RESOURCE_EXHAUSTED
        (''payload exceeds limits.max_payload_bytes ('' @ dec_digits (length payload) @ '' > '' @
         to_string (max_payload_bytes E) @ '')'')))"

definition ValidateObjectKeysShape :: "object_key list \<Rightarrow> unit result" where
  "ValidateObjectKeysShape object_keys =
     (if length object_keys > kMaxObjectKeys
      then Inl (mk_status INVALID_ARGUMENT ''object_keys must contain at most 1024 items'')
      else failIf (list_ex (\<lambda>k. ok_object_id k = 0 \<or> ok_object_token k = []) object_keys)
        (mk_status INVALID_ARGUMENT
          ''each ObjectKey requires nonzero object_id and nonempty object_token''))"

text \<open>Inserting into an \<^verbatim>\<open>unordered_set\<close> and keeping the first occurrences in order.\<close>

definition first_occurrences :: "'a list \<Rightarrow> 'a list" where
  "first_occurrences xs = foldl (\<lambda>acc x. if x \<in> set acc then acc else acc @ [x]) [] xs"

end
