(* ===== verification/Event_Log.thy ===== *)
theory Event_Log
  imports Core_Base
begin

text \<open>
  The event log the storage represents. \<open>log_of\<close> reads a database as an abstract state: the
  counters, the messages by sequence number, the used uuids, the channels, the credentials and the
  objects in preparation and committed. The locale \<open>log_cell\<close> is the contract between the storage
  and the core for one kind of entry: what a read returns and what a write changes, in terms of the
  abstract state. It is interpreted for every kind of entry of \<open>Unified_Storage\<close>.
\<close>

section \<open>The abstract state\<close>

record event_log =
  lg_max_seq :: u64
  lg_next_uuid :: u64
  lg_next_channel_id :: u64
  lg_next_object_id :: u64
  lg_used :: "u64 \<rightharpoonup> u64"
  lg_messages :: "u64 \<rightharpoonup> event_message"
  lg_channels :: "u64 \<rightharpoonup> channel_info"
  lg_tokens :: "u64 \<times> string \<Rightarrow> bool"
  lg_preparing :: "u64 \<rightharpoonup> stored_object"
  lg_objects :: "u64 \<rightharpoonup> stored_object"

definition counter_at :: "kv \<Rightarrow> bytes \<Rightarrow> u64" where
  "counter_at m key = (case m (Meta, key) of None \<Rightarrow> 0 | Some b \<Rightarrow> DecodeUint64 b)"

definition object_of_record :: "object_record \<Rightarrow> stored_object" where
  "object_of_record rec =
     \<lparr>so_object_id = rec_object_id rec, so_object_token = rec_object_token rec,
      so_creator_principal = rec_creator_principal rec, so_name = rec_name rec, so_type = rec_type rec,
      so_description = rec_description rec, so_nbytes = rec_nbytes rec\<rparr>"

definition object_at :: "proto \<Rightarrow> kv \<Rightarrow> bytes \<Rightarrow> u64 \<rightharpoonup> stored_object" where
  "object_at P m pre i =
     map_option object_of_record (Option.bind (m (Objects, NumericKey pre i)) (record_ParseFromString P))"

definition log_of :: "proto \<Rightarrow> kv \<Rightarrow> event_log" where
  "log_of P m =
     \<lparr>lg_max_seq = counter_at m kMaxSeqKey, lg_next_uuid = counter_at m kNextUuidKey,
      lg_next_channel_id = counter_at m kNextChannelIdKey, lg_next_object_id = counter_at m kNextObjectIdKey,
      lg_used = (\<lambda>u. map_option DecodeUint64 (m (Meta, NumericKey kUuidPrefix u))),
      lg_messages = (\<lambda>s. Option.bind (m (Messages, NumericKey kMessagePrefix s)) (message_ParseFromString P)),
      lg_channels = (\<lambda>i. Option.bind (m (Meta, NumericKey kChannelPrefix i)) (channel_ParseFromString P)),
      lg_tokens = (\<lambda>(p, t). m (Meta, TokenKey p t) \<noteq> None),
      lg_preparing = object_at P m kPreparingObjectPrefix,
      lg_objects = object_at P m kCommittedObjectPrefix\<rparr>"

abbreviation log_at :: "('db, 'snap, 'os) env \<Rightarrow> ('db, 'os, 'z) disk_scheme \<Rightarrow> event_log" where
  "log_at E s \<equiv> log_of (proto_lib E) (contents E s)"

abbreviation log_in :: "('db, 'snap, 'os) env \<Rightarrow> 'snap \<Rightarrow> event_log" where
  "log_in E s \<equiv> log_of (proto_lib E) (snap_view E s)"

text \<open>The log with a message appended.\<close>

definition append_message :: "event_message \<Rightarrow> event_log \<Rightarrow> event_log" where
  "append_message msg l = l\<lparr>lg_messages := (lg_messages l)(msg_seq msg \<mapsto> msg),
     lg_used := (lg_used l)(msg_uuid msg \<mapsto> msg_seq msg), lg_max_seq := msg_seq msg\<rparr>"

section \<open>Updates of single entries\<close>

lemma log_of_counters [simp]:
  "log_of P (m((Meta, kMaxSeqKey) \<mapsto> EncodeUint64 v)) = (log_of P m)\<lparr>lg_max_seq := v\<rparr>"
  "log_of P (m((Meta, kNextUuidKey) \<mapsto> EncodeUint64 v)) = (log_of P m)\<lparr>lg_next_uuid := v\<rparr>"
  "log_of P (m((Meta, kNextChannelIdKey) \<mapsto> EncodeUint64 v)) = (log_of P m)\<lparr>lg_next_channel_id := v\<rparr>"
  "log_of P (m((Meta, kNextObjectIdKey) \<mapsto> EncodeUint64 v)) = (log_of P m)\<lparr>lg_next_object_id := v\<rparr>"
  by (simp_all add: log_of_def counter_at_def object_at_def be64.dec_enc fun_eq_iff)

lemma log_of_used [simp]:
  "log_of P (m((Meta, NumericKey kUuidPrefix u) \<mapsto> EncodeUint64 v)) =
     (log_of P m)\<lparr>lg_used := (lg_used (log_of P m))(u \<mapsto> v)\<rparr>"
  by (simp add: log_of_def counter_at_def object_at_def be64.dec_enc fun_eq_iff)

lemma log_of_message:
  "message_ParseFromString P b = Some msg \<Longrightarrow>
   log_of P (m((Messages, NumericKey kMessagePrefix s) \<mapsto> b)) =
     (log_of P m)\<lparr>lg_messages := (lg_messages (log_of P m))(s \<mapsto> msg)\<rparr>"
  by (simp add: log_of_def counter_at_def object_at_def fun_eq_iff)

lemma log_of_channel:
  "channel_ParseFromString P b = Some ch \<Longrightarrow>
   log_of P (m((Meta, NumericKey kChannelPrefix i) \<mapsto> b)) =
     (log_of P m)\<lparr>lg_channels := (lg_channels (log_of P m))(i \<mapsto> ch)\<rparr>"
  by (simp add: log_of_def counter_at_def object_at_def fun_eq_iff)

lemma log_of_token [simp]:
  "log_of P (m((Meta, TokenKey p t) \<mapsto> b)) =
     (log_of P m)\<lparr>lg_tokens := (lg_tokens (log_of P m))((p, t) := True)\<rparr>"
  "log_of P (m((Meta, TokenKey p t) := None)) =
     (log_of P m)\<lparr>lg_tokens := (lg_tokens (log_of P m))((p, t) := False)\<rparr>"
  by (simp_all add: log_of_def counter_at_def object_at_def fun_eq_iff)

lemma log_of_object:
  "record_ParseFromString P b = Some rec \<Longrightarrow>
   log_of P (m((Objects, NumericKey kPreparingObjectPrefix i) \<mapsto> b)) =
     (log_of P m)\<lparr>lg_preparing := (lg_preparing (log_of P m))(i \<mapsto> object_of_record rec)\<rparr>"
  "record_ParseFromString P b = Some rec \<Longrightarrow>
   log_of P (m((Objects, NumericKey kCommittedObjectPrefix i) \<mapsto> b)) =
     (log_of P m)\<lparr>lg_objects := (lg_objects (log_of P m))(i \<mapsto> object_of_record rec)\<rparr>"
  "log_of P (m((Objects, NumericKey kPreparingObjectPrefix i) := None)) =
     (log_of P m)\<lparr>lg_preparing := (lg_preparing (log_of P m))(i := None)\<rparr>"
  by (simp_all add: log_of_def counter_at_def object_at_def fun_eq_iff)

section \<open>Snapshots and commits\<close>

lemma env_lawsD:
  assumes "env_laws E"
  shows "rocks_laws (rocks E)" "proto_laws (proto_lib E)" "posix_laws (posix_api E)"
  using assms by (simp_all add: env_laws_def)

lemma CreateSnapshot_view:
  "env_laws E \<Longrightarrow> CreateSnapshot E db = Inr s \<Longrightarrow> snap_view E s = db_contents (rocks E) db"
  using rocks_snapshot [OF env_lawsD(1)] by (auto simp: CreateSnapshot_def split: option.splits)

text \<open>A commit that succeeds applies the whole batch; one that fails applies all of it or nothing, with
  an error that requires the server to exit.\<close>

lemma Commit_ok:
  assumes "env_laws E" and "Commit E b s = (Inr u, s')"
  shows "contents E s' = apply_batch b (contents E s)" and "s' = s\<lparr>d_db := d_db s'\<rparr>"
proof -
  obtain st db' where w: "db_Write (rocks E) (d_db s) b = (st, db')" by fastforce
  with assms(2) have "rocks_ok st" and s': "s' = s\<lparr>d_db := db'\<rparr>"
    by (auto simp: Commit_def Let_def split: sum.splits)
  with rocks_write [OF env_lawsD(1) [OF assms(1)] w]
  show "contents E s' = apply_batch b (contents E s)" "s' = s\<lparr>d_db := d_db s'\<rparr>" by auto
qed

lemma Commit_error:
  assumes "env_laws E" and "Commit E b s = (Inl e, s')"
  shows "contents E s' = contents E s \<or> contents E s' = apply_batch b (contents E s)"
    and "s' = s\<lparr>d_db := d_db s'\<rparr>" and "st_requires_server_exit e"
proof -
  obtain st db' where w: "db_Write (rocks E) (d_db s) b = (st, db')" by fastforce
  have cases: "s' = s \<or> s' = s\<lparr>d_db := db'\<rparr>"
    using assms(2) w by (auto simp: Commit_def Let_def split: sum.splits)
  with rocks_write [OF env_lawsD(1) [OF assms(1)] w]
  show "contents E s' = contents E s \<or> contents E s' = apply_batch b (contents E s)"
    "s' = s\<lparr>d_db := d_db s'\<rparr>" by auto
  show "st_requires_server_exit e"
    using assms(2) w RocksToStatus_fatal by (fastforce simp: Commit_def Let_def split: sum.splits)
qed

section \<open>What the reads return\<close>

lemma GetRequiredUint64_view:
  assumes "env_laws E" and "GetRequiredUint64 E s key = Inr v"
  shows "snap_view E s (Meta, key) = Some (EncodeUint64 v)" and "counter_at (snap_view E s) key = v"
proof -
  obtain st b where g: "db_Get (rocks E) s Meta key = (st, b)" by fastforce
  with assms(2) have "rocks_ok st" "b = EncodeUint64 v"
    by (auto simp: GetRequiredUint64_def DecodeRequired_iff bind_inv split: if_splits)
  with rocks_get_ok [OF env_lawsD(1) [OF assms(1)] g]
  show "snap_view E s (Meta, key) = Some (EncodeUint64 v)" by simp
  then show "counter_at (snap_view E s) key = v" by (simp add: counter_at_def be64.dec_enc)
qed

lemmas counter_reads = GetRequiredUint64_view(2)

lemma counter_log:
  assumes "env_laws E"
  shows "GetMaxSeq E s = Inr v \<Longrightarrow> lg_max_seq (log_in E s) = v"
    and "GetNextUuid E s = Inr v \<Longrightarrow> lg_next_uuid (log_in E s) = v"
    and "GetNextChannelId E s = Inr v \<Longrightarrow> lg_next_channel_id (log_in E s) = v"
    and "GetNextObjectId E s = Inr v \<Longrightarrow> lg_next_object_id (log_in E s) = v"
  using counter_reads [OF assms]
  by (auto simp: log_of_def GetMaxSeq_def GetNextUuid_def GetNextChannelId_def GetNextObjectId_def)

lemma GetUsedUuidSeq_log:
  assumes "env_laws E" and "GetUsedUuidSeq E s u = Inr r"
  shows "lg_used (log_in E s) u = r" and "r = Some q \<Longrightarrow> u = 0 \<longleftrightarrow> q = 0"
proof -
  obtain st b where g: "db_Get (rocks E) s Meta (NumericKey kUuidPrefix u) = (st, b)" by fastforce
  note laws = rocks_lawsD [OF env_lawsD(1) [OF assms(1)]]
  show "lg_used (log_in E s) u = r" "r = Some q \<Longrightarrow> u = 0 \<longleftrightarrow> q = 0"
    using assms(2) g laws(3) [OF g] laws(4) [OF g]
    by (auto simp: GetUsedUuidSeq_def log_of_def DecodeRequired_iff be64.dec_enc bind_inv split: if_splits)
qed

lemma HasToken_log:
  assumes "env_laws E" and "HasToken E s p t = Inr r"
  shows "lg_tokens (log_in E s) (p, t) = r"
proof -
  obtain st b where g: "db_Get (rocks E) s Meta (TokenKey p t) = (st, b)" by fastforce
  note laws = rocks_lawsD [OF env_lawsD(1) [OF assms(1)]]
  show ?thesis
    using assms(2) g laws(3) [OF g] laws(4) [OF g]
    by (auto simp: HasToken_def log_of_def bind_inv split: if_splits)
qed

lemma decode_channel_Inr:
  "decode_channel P b i d = Inr ch \<longleftrightarrow>
     channel_ParseFromString P b = Some ch \<and> ch_channel_id ch = i \<and> ValidStoredChannel P ch"
  by (auto simp: decode_channel_def split: option.splits)

lemma GetChannel_log:
  assumes "env_laws E" and "GetChannel E s i = Inr r"
  shows "lg_channels (log_in E s) i = r"
    and "r = Some ch \<Longrightarrow> ch_channel_id ch = i \<and> ValidStoredChannel (proto_lib E) ch"
proof -
  obtain st b where g: "db_Get (rocks E) s Meta (NumericKey kChannelPrefix i) = (st, b)" by fastforce
  note laws = rocks_lawsD [OF env_lawsD(1) [OF assms(1)]]
  show "lg_channels (log_in E s) i = r"
    "r = Some ch \<Longrightarrow> ch_channel_id ch = i \<and> ValidStoredChannel (proto_lib E) ch"
    using assms(2) g laws(3) [OF g] laws(4) [OF g]
    by (auto simp: GetChannel_def log_of_def decode_channel_Inr bind_inv split: if_splits)
qed

text \<open>A stored object that passed the checks of \<open>ParseObject\<close>.\<close>

definition valid_object :: "u64 \<Rightarrow> stored_object \<Rightarrow> bool" where
  "valid_object i ob \<longleftrightarrow>
     so_object_id ob = i \<and> i \<noteq> 0 \<and> IsBase64UrlToken (so_object_token ob) \<and> so_creator_principal ob \<noteq> 0 \<and>
     so_name ob \<noteq> [] \<and> length (so_name ob) \<le> kMaxObjectNameBytes \<and> so_type ob \<noteq> [] \<and>
     length (so_type ob) \<le> kMaxObjectTypeBytes \<and>
     length (so_description ob) \<le> kMaxObjectDescriptionBytes \<and> so_nbytes ob \<noteq> 0 \<and>
     unat (so_nbytes ob) \<le> kMaxObjectBytes"

lemma ParseObject_Inr:
  "ParseObject P b i = Inr ob \<longleftrightarrow>
     map_option object_of_record (record_ParseFromString P b) = Some ob \<and> valid_object i ob"
  by (auto simp: ParseObject_def Let_def valid_object_def object_of_record_def split: option.splits)

lemma GetObject_view:
  assumes "env_laws E" and "GetObject E s pre i = Inr r"
  shows "object_at (proto_lib E) (snap_view E s) pre i = r" and "r = Some ob \<Longrightarrow> valid_object i ob"
proof -
  obtain st b where g: "db_Get (rocks E) s Objects (NumericKey pre i) = (st, b)" by fastforce
  note laws = rocks_lawsD [OF env_lawsD(1) [OF assms(1)]]
  show "object_at (proto_lib E) (snap_view E s) pre i = r" "r = Some ob \<Longrightarrow> valid_object i ob"
    using assms(2) g laws(3) [OF g] laws(4) [OF g]
    by (auto simp: GetObject_def object_at_def ParseObject_Inr bind_inv split: if_splits)
qed

lemma object_log:
  assumes "env_laws E"
  shows "GetCommittedObject E s i = Inr r \<Longrightarrow> lg_objects (log_in E s) i = r"
    and "GetPreparingObject E s i = Inr r \<Longrightarrow> lg_preparing (log_in E s) i = r"
    and "GetCommittedObject E s i = Inr (Some ob) \<Longrightarrow> valid_object i ob"
  using GetObject_view [OF assms]
  by (auto simp: log_of_def GetCommittedObject_def GetPreparingObject_def)

lemma decode_objects_view:
  assumes "env_laws E"
  shows "list_all2 (\<lambda>k r. read_agrees (snap_view E s k) r)
       (map (\<lambda>i. (Objects, NumericKey kCommittedObjectPrefix i)) ids) rs \<Longrightarrow>
     decode_objects E ids rs = Inr obs \<Longrightarrow> obs = map (lg_objects (log_in E s)) ids"
proof (induction E ids rs arbitrary: obs rule: decode_objects.induct)
  case (1 E i ids st b rs)
  then show ?case
    by (auto simp: bind_inv read_agrees_def log_of_def object_at_def ParseObject_Inr split: if_splits)
qed auto

lemma GetCommittedObjects_log:
  assumes "env_laws E" and "GetCommittedObjects E s ids = Inr obs"
  shows "obs = map (lg_objects (log_in E s)) ids"
  using assms decode_objects_view [OF assms(1) rocks_multiget [OF env_lawsD(1) [OF assms(1)]]]
  by (auto simp: GetCommittedObjects_def split: if_splits)

section \<open>What the writes change\<close>

lemma SerializeObject_parse:
  assumes "env_laws E" and "SerializeObject (proto_lib E) ob = Inr b"
  shows "\<exists>rec. record_ParseFromString (proto_lib E) b = Some rec \<and> object_of_record rec = ob"
  using assms(2) proto_lawsD(3) [OF env_lawsD(2) [OF assms(1)]]
  by (fastforce simp: SerializeObject_def Let_def object_of_record_def split: option.splits)

lemma counter_writes:
  "SetMaxSeq b v = Inr b' \<Longrightarrow> log_of P (apply_batch b' m) = (log_of P (apply_batch b m))\<lparr>lg_max_seq := v\<rparr>"
  "SetNextUuid b v = Inr b' \<Longrightarrow> log_of P (apply_batch b' m) = (log_of P (apply_batch b m))\<lparr>lg_next_uuid := v\<rparr>"
  "SetNextChannelId b v = Inr b' \<Longrightarrow>
     log_of P (apply_batch b' m) = (log_of P (apply_batch b m))\<lparr>lg_next_channel_id := v\<rparr>"
  "SetNextObjectId b v = Inr b' \<Longrightarrow>
     log_of P (apply_batch b' m) = (log_of P (apply_batch b m))\<lparr>lg_next_object_id := v\<rparr>"
  by (auto simp: SetMaxSeq_def SetNextUuid_def SetNextChannelId_def SetNextObjectId_def split: if_splits)

lemma PutUsedUuid_log:
  assumes "PutUsedUuid b u q = Inr b'"
  shows "log_of P (apply_batch b' m) =
      (log_of P (apply_batch b m))\<lparr>lg_used := (lg_used (log_of P (apply_batch b m)))(u \<mapsto> q)\<rparr>"
    and "u \<noteq> 0" and "q \<noteq> 0"
  using assms by (auto simp: PutUsedUuid_def split: if_splits)

lemma token_writes:
  "PutToken b p t = Inr b' \<Longrightarrow> log_of P (apply_batch b' m) =
     (log_of P (apply_batch b m))\<lparr>lg_tokens := (lg_tokens (log_of P (apply_batch b m)))((p, t) := True)\<rparr>"
  "log_of P (apply_batch (DeleteToken b p t) m) =
     (log_of P (apply_batch b m))\<lparr>lg_tokens := (lg_tokens (log_of P (apply_batch b m)))((p, t) := False)\<rparr>"
  by (auto simp: PutToken_def DeleteToken_def)

lemma PutMessage_log:
  assumes "env_laws E" and "PutMessage (proto_lib E) b msg = Inr b'"
  shows "log_of (proto_lib E) (apply_batch b' m) =
    (log_of (proto_lib E) (apply_batch b m))\<lparr>lg_messages :=
      (lg_messages (log_of (proto_lib E) (apply_batch b m)))(msg_seq msg \<mapsto> msg)\<rparr>"
  using assms(2) proto_lawsD(1) [OF env_lawsD(2) [OF assms(1)]]
  by (auto simp: PutMessage_def log_of_message split: option.splits)

lemma PutChannel_log:
  assumes "env_laws E" and "PutChannel (proto_lib E) b ch = Inr b'"
  shows "log_of (proto_lib E) (apply_batch b' m) =
    (log_of (proto_lib E) (apply_batch b m))\<lparr>lg_channels :=
      (lg_channels (log_of (proto_lib E) (apply_batch b m)))(ch_channel_id ch \<mapsto> ch)\<rparr>"
  using assms(2) proto_lawsD(2) [OF env_lawsD(2) [OF assms(1)]]
  by (auto simp: PutChannel_def log_of_channel split: option.splits)

lemma object_writes:
  assumes "env_laws E"
  shows "PutPreparingObject (proto_lib E) b ob = Inr b' \<Longrightarrow> log_of (proto_lib E) (apply_batch b' m) =
      (log_of (proto_lib E) (apply_batch b m))\<lparr>lg_preparing :=
        (lg_preparing (log_of (proto_lib E) (apply_batch b m)))(so_object_id ob \<mapsto> ob)\<rparr>"
    and "PutCommittedObject (proto_lib E) b ob = Inr b' \<Longrightarrow> log_of (proto_lib E) (apply_batch b' m) =
      (log_of (proto_lib E) (apply_batch b m))
        \<lparr>lg_preparing := (lg_preparing (log_of (proto_lib E) (apply_batch b m)))(so_object_id ob := None),
         lg_objects := (lg_objects (log_of (proto_lib E) (apply_batch b m)))(so_object_id ob \<mapsto> ob)\<rparr>"
    and "log_of (proto_lib E) (apply_batch (DeletePreparingObject b i) m) =
      (log_of (proto_lib E) (apply_batch b m))\<lparr>lg_preparing :=
        (lg_preparing (log_of (proto_lib E) (apply_batch b m)))(i := None)\<rparr>"
  using SerializeObject_parse [OF assms]
  by (fastforce simp: PutPreparingObject_def PutCommittedObject_def DeletePreparingObject_def bind_inv
      log_of_object)+

section \<open>The contract of an entry\<close>

text \<open>
  A kind of entry is read by key and written by value. The contract: a read returns the entry of the
  abstract state, a write updates that entry and no other of its kind. A client of the contract knows
  what it reads after a committed write.
\<close>

locale log_cell =
  fixes get :: "('db, 'snap, 'os) env \<Rightarrow> 'snap \<Rightarrow> 'k \<Rightarrow> 'v result"
    and put :: "('db, 'snap, 'os) env \<Rightarrow> write_batch \<Rightarrow> 'w \<Rightarrow> write_batch result"
    and entry :: "event_log \<Rightarrow> 'k \<Rightarrow> 'v"
    and update :: "'w \<Rightarrow> event_log \<Rightarrow> event_log"
    and key :: "'w \<Rightarrow> 'k"
    and written :: "'w \<Rightarrow> 'v"
  assumes reads: "env_laws E \<Longrightarrow> get E s k = Inr v \<Longrightarrow> entry (log_in E s) k = v"
    and writes: "env_laws E \<Longrightarrow> put E b w = Inr b' \<Longrightarrow>
      log_of (proto_lib E) (apply_batch b' m) = update w (log_of (proto_lib E) (apply_batch b m))"
    and updates: "entry (update w l) = (entry l)(key w := written w)"
begin

lemma read_after_commit:
  assumes "env_laws E" and "put E [] w = Inr b" and "Commit E b d = (Inr u, d')"
    and "CreateSnapshot E (d_db d') = Inr s" and "get E s k = Inr v"
  shows "v = (if k = key w then written w else entry (log_at E d) k)"
proof -
  have "log_in E s = update w (log_at E d)"
    using CreateSnapshot_view [OF assms(1,4)] Commit_ok(1) [OF assms(1,3)] writes [OF assms(1,2), of "contents E d"]
    by simp
  with reads [OF assms(1,5)] updates [of w "log_at E d"] show ?thesis by auto
qed

text \<open>Two snapshots of the same database return the same entry.\<close>

lemma reads_agree:
  assumes "env_laws E" and "CreateSnapshot E db = Inr s" and "CreateSnapshot E db = Inr s'"
    and "get E s k = Inr v" and "get E s' k = Inr v'"
  shows "v = v'"
  using assms reads CreateSnapshot_view by metis

end

interpretation max_seq: log_cell "\<lambda>E s (_ :: unit). GetMaxSeq E s" "\<lambda>_. SetMaxSeq" "\<lambda>l _. lg_max_seq l"
  "\<lambda>v. lg_max_seq_update (\<lambda>_. v)" "\<lambda>_. ()" "\<lambda>v. v"
  by unfold_locales (auto simp: counter_log counter_writes)

interpretation next_uuid: log_cell "\<lambda>E s (_ :: unit). GetNextUuid E s" "\<lambda>_. SetNextUuid"
  "\<lambda>l _. lg_next_uuid l" "\<lambda>v. lg_next_uuid_update (\<lambda>_. v)" "\<lambda>_. ()" "\<lambda>v. v"
  by unfold_locales (auto simp: counter_log counter_writes)

interpretation next_channel_id: log_cell "\<lambda>E s (_ :: unit). GetNextChannelId E s" "\<lambda>_. SetNextChannelId"
  "\<lambda>l _. lg_next_channel_id l" "\<lambda>v. lg_next_channel_id_update (\<lambda>_. v)" "\<lambda>_. ()" "\<lambda>v. v"
  by unfold_locales (auto simp: counter_log counter_writes)

interpretation next_object_id: log_cell "\<lambda>E s (_ :: unit). GetNextObjectId E s" "\<lambda>_. SetNextObjectId"
  "\<lambda>l _. lg_next_object_id l" "\<lambda>v. lg_next_object_id_update (\<lambda>_. v)" "\<lambda>_. ()" "\<lambda>v. v"
  by unfold_locales (auto simp: counter_log counter_writes)

interpretation used_uuid: log_cell GetUsedUuidSeq "\<lambda>_ b (u, q). PutUsedUuid b u q" lg_used
  "\<lambda>(u, q). lg_used_update (\<lambda>f. f(u \<mapsto> q))" fst "\<lambda>w. Some (snd w)"
  by unfold_locales (auto simp: GetUsedUuidSeq_log PutUsedUuid_log(1))

interpretation credential: log_cell "\<lambda>E s (p, t). HasToken E s p t" "\<lambda>_ b (p, t). PutToken b p t" lg_tokens
  "\<lambda>w. lg_tokens_update (\<lambda>f. f(w := True))" "\<lambda>w. w" "\<lambda>_. True"
  by unfold_locales (auto simp: HasToken_log token_writes)

interpretation channel: log_cell GetChannel "\<lambda>E. PutChannel (proto_lib E)" lg_channels
  "\<lambda>ch. lg_channels_update (\<lambda>f. f(ch_channel_id ch \<mapsto> ch))" ch_channel_id Some
  by unfold_locales (auto simp: GetChannel_log(1) PutChannel_log)

interpretation preparing: log_cell GetPreparingObject "\<lambda>E. PutPreparingObject (proto_lib E)" lg_preparing
  "\<lambda>ob. lg_preparing_update (\<lambda>f. f(so_object_id ob \<mapsto> ob))" so_object_id Some
  by unfold_locales (auto simp: object_log object_writes)

interpretation committed: log_cell GetCommittedObject "\<lambda>E. PutCommittedObject (proto_lib E)" lg_objects
  "\<lambda>ob l. l\<lparr>lg_preparing := (lg_preparing l)(so_object_id ob := None),
     lg_objects := (lg_objects l)(so_object_id ob \<mapsto> ob)\<rparr>" so_object_id Some
  by unfold_locales (auto simp: object_log object_writes)

end
