(* ===== verification/Core_Contract.thy ===== *)
theory Core_Contract
  imports Event_Log
begin

text \<open>
  What the operations of \<^verbatim>\<open>OpenEventCore\<close> have in common, as rules on their outcome: the
  availability check, a commit, an error that latches the fatal state, authentication and the lookup
  of a channel. The locale \<open>log_handler\<close> is the contract every operation that changes the log
  keeps: it does nothing once a fatal error has occurred, it changes the log by its whole effect when
  it succeeds, and when it fails the log is as before or the server has latched the fatal state.
\<close>

section \<open>Availability, commits, errors\<close>

definition unavailable :: status where
  "unavailable = mk_status UNAVAILABLE ''server is shutting down due to a fatal storage error''"

lemma EnsureAvailable_simps [simp]:
  "fatal_error_triggered c \<Longrightarrow> EnsureAvailable c = (Inl unavailable, c)"
  "\<not> fatal_error_triggered c \<Longrightarrow> EnsureAvailable c = (Inr (), c)"
  by (simp_all add: EnsureAvailable_def unavailable_def)

lemma runs_EnsureAvailable [wp]:
  "(\<not> fatal_error_triggered c \<Longrightarrow> Q () c) \<Longrightarrow> (fatal_error_triggered c \<Longrightarrow> R unavailable c) \<Longrightarrow>
   runs EnsureAvailable c Q R"
  by (cases "fatal_error_triggered c") (simp_all add: runs_def)

lemma FatalStorageError_core [simp]:
  "d_db (FatalStorageError E s c) = d_db c" "d_os (FatalStorageError E s c) = d_os c"
  "commit_generation (FatalStorageError E s c) = commit_generation c"
  "fatal_error_triggered (FatalStorageError E s c)"
  by (simp_all add: FatalStorageError_def)

text \<open>The state apart from the fatal latch.\<close>

definition same_state :: "('db, 'snap, 'os) core \<Rightarrow> ('db, 'snap, 'os) core \<Rightarrow> bool" where
  "same_state c c' \<longleftrightarrow> d_db c' = d_db c \<and> d_os c' = d_os c \<and> commit_generation c' = commit_generation c \<and>
     (fatal_error_triggered c \<longrightarrow> fatal_error_triggered c')"

lemma same_state_refl [simp]: "same_state c c" "same_state c (FatalStorageError E s c)"
  by (simp_all add: same_state_def)

lemma same_stateD: "same_state c c' \<Longrightarrow> contents E c' = contents E c"
  by (simp add: same_state_def)

lemma runs_liftClassified [wp]:
  "(\<And>a. r = Inr a \<Longrightarrow> Q a c) \<Longrightarrow>
   (\<And>e c'. r = Inl e \<Longrightarrow> same_state c c' \<Longrightarrow> R e c') \<Longrightarrow> runs (liftClassified E r) c Q R"
  by (cases r) (simp_all add: runs_def liftClassified_def failClassified_def failFatal_def)

lemma runs_CreateLinearizedSnapshot [wp]:
  "(\<And>s. CreateSnapshot E (d_db c) = Inr s \<Longrightarrow> Q s c) \<Longrightarrow>
   (\<And>e. CreateSnapshot E (d_db c) = Inl e \<Longrightarrow> R e c) \<Longrightarrow> runs (CreateLinearizedSnapshot E) c Q R"
  unfolding CreateLinearizedSnapshot_def by (rule wp)

text \<open>After a commit either the batch is in the database, or the operation fails, the fatal state is
  latched and the database holds the whole batch or none of it.\<close>

definition after_commit :: "('db, 'snap, 'os) env \<Rightarrow> write_batch \<Rightarrow> ('db, 'snap, 'os) core \<Rightarrow>
    ('db, 'snap, 'os) core \<Rightarrow> bool" where
  "after_commit E b c c' \<longleftrightarrow> contents E c' = apply_batch b (contents E c) \<and> d_os c' = d_os c \<and>
     fatal_error_triggered c' = fatal_error_triggered c \<and> commit_generation c' = commit_generation c + 1"

definition failed_commit :: "('db, 'snap, 'os) env \<Rightarrow> write_batch \<Rightarrow> ('db, 'snap, 'os) core \<Rightarrow>
    ('db, 'snap, 'os) core \<Rightarrow> bool" where
  "failed_commit E b c c' \<longleftrightarrow> fatal_error_triggered c' \<and> d_os c' = d_os c \<and>
     commit_generation c' = commit_generation c \<and>
     (contents E c' = contents E c \<or> contents E c' = apply_batch b (contents E c))"

lemma CommitBatch_ok:
  assumes "env_laws E" and "CommitBatch E b c = (Inr u, c')"
  shows "after_commit E b c c'"
proof -
  from assms(2) obtain c1 where run: "Commit E b c = (Inr (), c1)"
    and c': "c' = c1\<lparr>commit_generation := commit_generation c1 + 1\<rparr>"
    by (auto simp: CommitBatch_def failFatal_def split: prod.splits sum.splits if_splits)
  from Commit_ok(2) [OF assms(1) run] obtain db where "c1 = c\<lparr>d_db := db\<rparr>" by metis
  with Commit_ok(1) [OF assms(1) run] c' show ?thesis by (simp add: after_commit_def)
qed

lemma CommitBatch_error:
  assumes "env_laws E" and "CommitBatch E b c = (Inl e, c')"
  shows "failed_commit E b c c'" and "is_fatal e"
proof -
  from assms(2) obtain c1 where run: "Commit E b c = (Inl e, c1)"
    by (auto simp: CommitBatch_def failFatal_def split: prod.splits sum.splits if_splits)
  from Commit_error(3) [OF assms(1) run] have exits: "st_requires_server_exit e" .
  with assms(2) run have c': "c' = FatalStorageError E e c1"
    by (simp add: CommitBatch_def failFatal_def)
  from Commit_error(2) [OF assms(1) run] obtain db where "c1 = c\<lparr>d_db := db\<rparr>" by metis
  with Commit_error(1) [OF assms(1) run] c' show "failed_commit E b c c'"
    by (auto simp: failed_commit_def)
  from exits show "is_fatal e" by (simp add: is_fatal_def)
qed

lemma runs_CommitBatch:
  assumes "env_laws E"
  shows "(\<And>c'. after_commit E b c c' \<Longrightarrow> Q () c') \<Longrightarrow>
    (\<And>e c'. failed_commit E b c c' \<Longrightarrow> R e c') \<Longrightarrow> runs (CommitBatch E b) c Q R"
  using CommitBatch_ok [OF assms] CommitBatch_error [OF assms]
  by (cases "CommitBatch E b c") (auto simp: runs_def split: sum.split)

section \<open>Authentication and channels\<close>

definition authentic :: "event_log \<Rightarrow> u64 \<Rightarrow> string \<Rightarrow> bool" where
  "authentic l prin token \<longleftrightarrow> prin \<noteq> 0 \<and> token \<noteq> [] \<and> lg_tokens l (prin, token)"

lemma Authenticate_log:
  assumes "env_laws E" and "Authenticate E s prin token = Inr u"
  shows "authentic (log_in E s) prin token"
  using assms HasToken_log [OF assms(1)]
  by (auto simp: Authenticate_def authentic_def bind_inv split: if_splits)

text \<open>The channel an operation sees: the system channel, or a stored one that passed the checks.\<close>

definition channel_in :: "event_log \<Rightarrow> u64 \<rightharpoonup> channel_info" where
  "channel_in l i = (if i = 0 then Some SystemChannel else lg_channels l i)"

lemma LoadChannel_log:
  assumes "env_laws E" and "LoadChannel E s i = Inr r"
  shows "channel_in (log_in E s) i = r"
    and "r = Some ch \<Longrightarrow> ch_channel_id ch = i"
    and "r = Some ch \<Longrightarrow> i \<noteq> 0 \<Longrightarrow> ValidStoredChannel (proto_lib E) ch"
  using assms(2) GetChannel_log [OF assms(1)]
  by (auto simp: LoadChannel_def channel_in_def SystemChannel_def split: if_splits)

lemma ValidateRecipients_Inr: "ValidateRecipients ch rs = Inr u \<longleftrightarrow> set rs \<subseteq> set (ch_members ch)"
  by (auto simp: ValidateRecipients_def list_all_iff)

lemma first_occurrences_aux:
  "distinct acc \<Longrightarrow>
   set (foldl (\<lambda>acc x. if x \<in> set acc then acc else acc @ [x]) acc xs) = set acc \<union> set xs \<and>
   distinct (foldl (\<lambda>acc x. if x \<in> set acc then acc else acc @ [x]) acc xs) \<and>
   length (foldl (\<lambda>acc x. if x \<in> set acc then acc else acc @ [x]) acc xs) \<le> length acc + length xs \<and>
   prefix acc (foldl (\<lambda>acc x. if x \<in> set acc then acc else acc @ [x]) acc xs)"
proof (induction xs arbitrary: acc)
  case (Cons x xs)
  show ?case
  proof (cases "x \<in> set acc")
    case True
    with Cons.IH [OF Cons.prems] show ?thesis by auto
  next
    case False
    with Cons.prems Cons.IH [of "acc @ [x]"] show ?thesis by (auto dest: append_prefixD)
  qed
qed simp

lemma first_occurrences_props [simp]:
  "set (first_occurrences xs) = set xs" "distinct (first_occurrences xs)"
  "length (first_occurrences xs) \<le> length xs"
  using first_occurrences_aux [of "[]" xs] by (simp_all add: first_occurrences_def)

section \<open>The contract of an operation on the log\<close>

text \<open>
  \<open>effect E q a l l'\<close> relates the log before and after a successful run on the request \<open>q\<close>
  with the response \<open>a\<close>; it includes the conditions under which the operation is allowed.
\<close>

definition succeeded :: "('db, 'snap, 'os) env \<Rightarrow> ('a \<Rightarrow> event_log \<Rightarrow> event_log \<Rightarrow> bool) \<Rightarrow>
    ('db, 'snap, 'os) core \<Rightarrow> 'a \<Rightarrow> ('db, 'snap, 'os) core \<Rightarrow> bool" where
  "succeeded E effect c a c' \<longleftrightarrow>
     effect a (log_at E c) (log_at E c') \<and> d_os c' = d_os c \<and> \<not> fatal_error_triggered c'"

definition gave_up :: "('db, 'snap, 'os) env \<Rightarrow> ('a \<Rightarrow> event_log \<Rightarrow> event_log \<Rightarrow> bool) \<Rightarrow>
    ('db, 'snap, 'os) core \<Rightarrow> ('db, 'snap, 'os) core \<Rightarrow> bool" where
  "gave_up E effect c c' \<longleftrightarrow>
     d_os c' = d_os c \<and>
     (same_state c c' \<or> fatal_error_triggered c' \<and>
       (contents E c' = contents E c \<or> (\<exists>a. effect a (log_at E c) (log_at E c'))))"

abbreviation handler_outcome :: "('db, 'snap, 'os) env \<Rightarrow> ('a \<Rightarrow> event_log \<Rightarrow> event_log \<Rightarrow> bool) \<Rightarrow>
    ('db, 'snap, 'os, 'a) core_op \<Rightarrow> ('db, 'snap, 'os) core \<Rightarrow> bool" where
  "handler_outcome E effect m c \<equiv> runs m c (succeeded E effect c) (\<lambda>_. gave_up E effect c)"

lemma gave_up_same [outcome]: "gave_up E effect c c" "same_state c c' \<Longrightarrow> gave_up E effect c c'"
  by (auto simp: gave_up_def same_state_def)

text \<open>A commit of a batch with the right effect establishes the outcome.\<close>

lemma commit_then_return [outcome]:
  assumes "env_laws E" and "\<not> fatal_error_triggered c"
    and "effect a (log_at E c) (log_of (proto_lib E) (apply_batch b (contents E c)))"
  shows "runs (CommitBatch E b) c
    (\<lambda>_ c1. runs (retM a) c1 (succeeded E effect c) (\<lambda>_. gave_up E effect c)) (\<lambda>_. gave_up E effect c)"
  using assms(2,3)
  by (intro runs_CommitBatch [OF assms(1)] wp)
    (auto simp: after_commit_def failed_commit_def succeeded_def gave_up_def)

lemma commit_at_end [outcome]:
  fixes effect :: "unit \<Rightarrow> event_log \<Rightarrow> event_log \<Rightarrow> bool"
  assumes "env_laws E" and "\<not> fatal_error_triggered c"
    and "effect () (log_at E c) (log_of (proto_lib E) (apply_batch b (contents E c)))"
  shows "runs (CommitBatch E b) c (succeeded E effect c) (\<lambda>_. gave_up E effect c)"
  using commit_then_return [of E c effect "()" b] assms by (simp add: runs_def)

locale log_handler =
  fixes run :: "('db, 'snap, 'os) env \<Rightarrow> 'q \<Rightarrow> ('db, 'snap, 'os, 'a) core_op"
    and effect :: "('db, 'snap, 'os) env \<Rightarrow> 'q \<Rightarrow> 'a \<Rightarrow> event_log \<Rightarrow> event_log \<Rightarrow> bool"
  assumes latched: "fatal_error_triggered c \<Longrightarrow> run E q c = (Inl unavailable, c)"
    and outcomes: "env_laws E \<Longrightarrow> handler_outcome E (effect E q) (run E q) c"
begin

lemma committed:
  assumes "env_laws E" and "run E q c = (Inr a, c')"
  shows "effect E q a (log_at E c) (log_at E c')" and "d_os c' = d_os c"
    and "\<not> fatal_error_triggered c" and "\<not> fatal_error_triggered c'"
  using runsD(1) [OF outcomes [OF assms(1)] assms(2)] assms(2) latched
  by (auto simp: succeeded_def)

lemma rejected:
  assumes "env_laws E" and "run E q c = (Inl e, c')"
  shows "contents E c' = contents E c \<or>
    fatal_error_triggered c' \<and> (\<exists>a. effect E q a (log_at E c) (log_at E c'))"
  using runsD(2) [OF outcomes [OF assms(1)] assms(2)] same_stateD unfolding gave_up_def by blast

text \<open>Whatever the result of a run, the log is as before or changed by the whole effect, and no file is
  touched.\<close>

lemma log_change:
  assumes "env_laws E" and "run E q c = (r, c')"
  shows "log_at E c' = log_at E c \<or> (\<exists>a. effect E q a (log_at E c) (log_at E c'))" and "d_os c' = d_os c"
proof -
  have "(log_at E c' = log_at E c \<or> (\<exists>a. effect E q a (log_at E c) (log_at E c'))) \<and> d_os c' = d_os c"
  proof (cases r)
    case (Inl e)
    with assms(2) have "gave_up E (effect E q) c c'" using runsD(2) [OF outcomes [OF assms(1)]] by blast
    then show ?thesis using same_stateD [of c c' E] by (auto simp: gave_up_def)
  next
    case (Inr a)
    with committed [OF assms(1)] assms(2) show ?thesis by blast
  qed
  then show "log_at E c' = log_at E c \<or> (\<exists>a. effect E q a (log_at E c) (log_at E c'))" and "d_os c' = d_os c"
    by blast+
qed

end

end
