(* ===== verification/Message_Scan.thy ===== *)
theory Message_Scan
  imports Event_Log
begin

text \<open>
  \<open>ScanMessages\<close> against a reference scan. The reference visits the messages one sequence number
  after the other, at most a given number of them; the scan of the storage walks an iterator over the
  database, checks the keys and stops for six different reasons. Whenever it succeeds, it has done what
  the reference does. The locale \<open>page_scan\<close> is the contract between the scan and a visitor that
  collects a page of messages.
\<close>

section \<open>The reference scan\<close>

primrec scan_spec :: "(u64 \<rightharpoonup> event_message) \<Rightarrow> 'v message_visitor \<Rightarrow> nat \<Rightarrow> u64 \<Rightarrow> 'v \<Rightarrow> u64 result \<times> 'v" where
  "scan_spec f visitor 0 seq v = (Inr seq, v)"
| "scan_spec f visitor (Suc n) seq v =
     (case f seq of
        None \<Rightarrow> (Inl (missing_message seq), v)
      | Some message \<Rightarrow>
          (case visitor v message of
             (Inl e, v') \<Rightarrow> (Inl e, v')
           | (Inr kStopBefore, v') \<Rightarrow> (Inr seq, v')
           | (Inr kStopAfter, v') \<Rightarrow> (Inr (seq + 1), v')
           | (Inr kContinue, v') \<Rightarrow> scan_spec f visitor n (seq + 1) v'))"

text \<open>The message stored under a sequence number, if it passes the checks.\<close>

definition stored_message :: "('db, 'snap, 'os) env \<Rightarrow> 'snap \<Rightarrow> u64 \<rightharpoonup> event_message" where
  "stored_message E s seq =
     (case snap_view E s (Messages, NumericKey kMessagePrefix seq) of
        None \<Rightarrow> None
      | Some b \<Rightarrow> (case DecodeStoredMessage (proto_lib E) seq b of Inl _ \<Rightarrow> None | Inr msg \<Rightarrow> Some msg))"

lemma DecodeStoredMessage_Inr:
  "DecodeStoredMessage P seq b = Inr msg \<Longrightarrow> message_ParseFromString P b = Some msg \<and> msg_seq msg = seq"
  by (auto simp: DecodeStoredMessage_def split: option.splits if_splits)

text \<open>A stored message is the message of the log.\<close>

lemma stored_message_log:
  assumes "stored_message E s seq = Some msg"
  shows "lg_messages (log_in E s) seq = Some msg" and "msg_seq msg = seq"
  using assms DecodeStoredMessage_Inr
  by (auto simp: stored_message_def log_of_def split: option.splits sum.splits dest!: DecodeStoredMessage_Inr)

section \<open>The loop\<close>

text \<open>How many records the scan may still visit.\<close>

definition records_left :: "u64 \<Rightarrow> u64 \<Rightarrow> u64 \<Rightarrow> u64 \<Rightarrow> nat" where
  "records_left last_seq max_records scanned next_seq =
     min (unat max_records - unat scanned) (Suc (unat last_seq) - unat next_seq)"

lemma records_left_step:
  assumes "seq \<le> last_seq" and "scanned < max_records" and "last_seq + 1 \<noteq> 0"
  shows "records_left last_seq max_records scanned seq =
    Suc (records_left last_seq max_records (scanned + 1) (seq + 1))"
proof -
  have "seq + 1 \<noteq> 0" using assms(1,3) word_Suc_neq_0 [of seq last_seq] by (cases "seq = last_seq") auto
  moreover have "scanned + 1 \<noteq> 0" by (rule word_Suc_neq_0 [OF assms(2)])
  ultimately show ?thesis
    using assms(1,2) by (simp add: records_left_def unat_Suc_word word_le_nat_alt word_less_nat_alt)
qed

lemma records_left_0:
  "\<not> (scanned < max_records \<and> next_seq \<le> last_seq) \<Longrightarrow> records_left last_seq max_records scanned next_seq = 0"
  by (auto simp: records_left_def word_le_nat_alt word_less_nat_alt)

definition loop_agrees :: "(u64 \<rightharpoonup> event_message) \<Rightarrow> 'v message_visitor \<Rightarrow> u64 \<Rightarrow> u64 \<Rightarrow>
    u64 result \<times> 'v \<Rightarrow> 'v scan_exit \<Rightarrow> bool" where
  "loop_agrees f visitor last_seq max_records spec ex =
     (case ex of
        ScanReturn (Inl _) _ \<Rightarrow> True
      | ScanReturn (Inr r) v' \<Rightarrow> spec = (Inr r, v')
      | ScanBreak rest scanned next_seq v' \<Rightarrow>
          \<not> (scanned < max_records \<and> next_seq \<le> last_seq \<and> past_last rest last_seq) \<longrightarrow> spec = (Inr next_seq, v'))"

lemma ScanMessages_loop_spec:
  assumes "last_seq + 1 \<noteq> 0"
  shows "(\<And>k b. (k, b) \<in> set es \<Longrightarrow> snap_view E s (Messages, k) = Some b) \<Longrightarrow>
    loop_agrees (stored_message E s) visitor last_seq max_records
      (scan_spec (stored_message E s) visitor (records_left last_seq max_records scanned next_seq) next_seq v)
      (ScanMessages_loop (proto_lib E) last_seq max_records visitor es scanned next_seq v)"
proof (induction es arbitrary: scanned next_seq v)
  case Nil
  then show ?case
    using records_left_0 [of scanned max_records next_seq last_seq]
    by (auto simp: loop_agrees_def past_last_def)
next
  case (Cons kb rest)
  obtain k b where kb: "kb = (k, b)" by fastforce
  show ?case
  proof (cases "\<exists>seq. k = NumericKey kMessagePrefix seq")
    case False
    with kb show ?thesis
      using records_left_0 [of scanned max_records next_seq last_seq]
      by (auto simp: loop_agrees_def past_last_def DecodeNumericKey_iff split: sum.split)
  next
    case True
    then obtain seq where k: "k = NumericKey kMessagePrefix seq" ..
    have dec: "DecodeUint64 (drop (length kMessagePrefix) k) = seq"
      by (simp add: k NumericKey_def be64.dec_enc)
    have view: "snap_view E s (Messages, NumericKey kMessagePrefix seq) = Some b"
      using Cons.prems kb k by simp
    consider "last_seq < seq" | "seq \<le> last_seq" "seq \<noteq> next_seq" | "seq \<le> last_seq" "seq = next_seq" "max_records \<le> scanned"
      | "seq \<le> last_seq" "seq = next_seq" "scanned < max_records" by fastforce
    then show ?thesis
    proof cases
      case 4
      note left = records_left_step [OF 4(1,3) assms]
      show ?thesis
      proof (cases "DecodeStoredMessage (proto_lib E) seq b")
        case (Inl e)
        with 4 kb k show ?thesis by (auto simp: loop_agrees_def leD)
      next
        case (Inr msg)
        then have stored: "stored_message E s seq = Some msg" by (simp add: stored_message_def view)
        obtain act v' where vis: "visitor v msg = (act, v')" by fastforce
        show ?thesis
        proof (cases "act = Inr kContinue")
          case True
          with 4 kb k Inr left stored vis Cons.IH [of "scanned + 1" "seq + 1" v'] Cons.prems
          show ?thesis by (auto simp: leD)
        next
          case False
          with 4 kb k Inr left stored vis show ?thesis
            by (auto simp: loop_agrees_def leD split: sum.split message_scan_action.split)
        qed
      qed
    qed (use kb k dec records_left_0 [of scanned max_records next_seq last_seq] in
        \<open>auto simp: loop_agrees_def past_last_def\<close>)
  qed
qed

lemma ScanMessages_spec:
  assumes "env_laws E" and "last_seq + 1 \<noteq> 0"
    and "ScanMessages E s from_seq last_seq max_records visitor v = (Inr next_seq, v')"
  shows "scan_spec (stored_message E s) visitor (records_left last_seq max_records 0 from_seq) from_seq v =
    (Inr next_seq, v')"
proof -
  obtain es final where it: "db_Iterate (rocks E) s Messages (NumericKey kMessagePrefix from_seq) = (es, final)"
    by fastforce
  have "loop_agrees (stored_message E s) visitor last_seq max_records
      (scan_spec (stored_message E s) visitor (records_left last_seq max_records 0 from_seq) from_seq v)
      (ScanMessages_loop (proto_lib E) last_seq max_records visitor es 0 from_seq v)"
    using rocks_iterate(2) [OF env_lawsD(1) [OF assms(1)] it] by (intro ScanMessages_loop_spec [OF assms(2)]) blast
  with assms(3) it show ?thesis
    by (auto simp: ScanMessages_def loop_agrees_def bind_inv split: scan_exit.splits sum.splits if_splits)
qed

section \<open>An intact log\<close>

text \<open>
  On a database whose message keys are exactly the numbers up to the last one, with every stored
  message valid, and an iterator that does not fail, the scan is the reference scan, errors of the
  visitor included: it never reports a missing message.
\<close>

definition intact :: "('db, 'snap, 'os) env \<Rightarrow> 'snap \<Rightarrow> u64 \<Rightarrow> bool" where
  "intact E s last_seq \<longleftrightarrow>
     (\<forall>k. snap_view E s (Messages, k) \<noteq> None \<and> prefix kMessagePrefix k \<longleftrightarrow>
        (\<exists>seq \<le> last_seq. k = NumericKey kMessagePrefix seq)) \<and>
     (\<forall>seq \<le> last_seq. stored_message E s seq \<noteq> None)"

definition exit_complete :: "u64 \<Rightarrow> u64 \<Rightarrow> u64 result \<times> 'v \<Rightarrow> 'v scan_exit \<Rightarrow> bool" where
  "exit_complete last_seq max_records spec ex =
     (case ex of
        ScanReturn r v' \<Rightarrow> spec = (r, v')
      | ScanBreak rest scanned next_seq v' \<Rightarrow>
          spec = (Inr next_seq, v') \<and> \<not> (scanned < max_records \<and> next_seq \<le> last_seq))"

lemma ScanMessages_loop_complete:
  assumes last: "last_seq + 1 \<noteq> 0"
    and rest: "d = [] \<or> \<not> prefix kMessagePrefix (fst (hd d))"
    and valid: "\<And>seq. seq \<le> last_seq \<Longrightarrow> stored_message E s seq \<noteq> None"
  shows "map fst t = map (\<lambda>n. NumericKey kMessagePrefix (of_nat n)) [unat next_seq..<Suc (unat last_seq)] \<Longrightarrow>
    (\<And>k b. (k, b) \<in> set t \<Longrightarrow> snap_view E s (Messages, k) = Some b) \<Longrightarrow>
    exit_complete last_seq max_records
      (scan_spec (stored_message E s) visitor (records_left last_seq max_records scanned next_seq) next_seq v)
      (ScanMessages_loop (proto_lib E) last_seq max_records visitor (t @ d) scanned next_seq v)"
proof (induction t arbitrary: next_seq scanned v)
  case Nil
  then have "unat last_seq < unat next_seq"
    by (metis Suc_leI list.map_disc_iff not_less_eq upt_eq_Nil_conv zero_less_Suc less_Suc_eq_0_disj not_less)
  then have less: "\<not> next_seq \<le> last_seq" by (simp add: word_le_nat_alt)
  then have "records_left last_seq max_records scanned next_seq = 0" by (intro records_left_0) simp
  with rest less show ?case by (cases d) (auto simp: exit_complete_def)
next
  case (Cons kb t)
  obtain k b where kb: "kb = (k, b)" by fastforce
  have run: "[unat next_seq..<Suc (unat last_seq)] \<noteq> []"
    using Cons.prems(1) by (metis list.distinct(1) list.map_disc_iff)
  then have le: "next_seq \<le> last_seq" by (auto simp: word_le_nat_alt split: if_splits)
  have run': "[unat next_seq..<Suc (unat last_seq)] = unat next_seq # [Suc (unat next_seq)..<Suc (unat last_seq)]"
    using run by (metis upt_eq_Nil_conv upt_rec)
  have k: "k = NumericKey kMessagePrefix next_seq" using Cons.prems(1) kb unfolding run' by simp
  have step: "next_seq + 1 \<noteq> 0"
    using le last word_Suc_neq_0 [of next_seq last_seq] by (cases "next_seq = last_seq") auto
  have tail: "map fst t = map (\<lambda>n. NumericKey kMessagePrefix (of_nat n)) [unat (next_seq + 1)..<Suc (unat last_seq)]"
    using Cons.prems(1) unfolding run' unat_Suc_word [OF step] by simp
  from valid [OF le] obtain msg where msg: "stored_message E s next_seq = Some msg" by auto
  moreover have "snap_view E s (Messages, NumericKey kMessagePrefix next_seq) = Some b"
    using Cons.prems(2) kb k by simp
  ultimately have dec: "DecodeStoredMessage (proto_lib E) next_seq b = Inr msg"
    by (auto simp: stored_message_def split: sum.splits)
  show ?case
  proof (cases "scanned < max_records")
    case False
    with kb k le records_left_0 [of scanned max_records next_seq last_seq] show ?thesis
      by (auto simp: exit_complete_def leD)
  next
    case True
    obtain act v' where vis: "visitor v msg = (act, v')" by fastforce
    note left = records_left_step [OF le True last]
    show ?thesis
    proof (cases "act = Inr kContinue")
      case True
      with kb k le dec msg vis left \<open>scanned < max_records\<close> Cons.IH [OF tail, of "scanned + 1" v'] Cons.prems(2)
      show ?thesis by (auto simp: leD)
    next
      case False
      with kb k le dec msg vis left \<open>scanned < max_records\<close> show ?thesis
        by (auto simp: exit_complete_def leD split: sum.split message_scan_action.split)
    qed
  qed
qed

lemma ScanMessages_intact:
  assumes "env_laws E" and "last_seq + 1 \<noteq> 0" and "intact E s last_seq"
    and it: "db_Iterate (rocks E) s Messages (NumericKey kMessagePrefix from_seq) = (es, final)" "rocks_ok final"
  shows "ScanMessages E s from_seq last_seq max_records visitor v =
    scan_spec (stored_message E s) visitor (records_left last_seq max_records 0 from_seq) from_seq v"
proof -
  let ?pre = "\<lambda>(k, _). prefix kMessagePrefix k"
  note rocks = rocks_iterate [OF env_lawsD(1) [OF assms(1)] it(1)]
  have keys: "k \<in> set (map fst es) \<longleftrightarrow> k \<in> {k. snap_view E s (Messages, k) \<noteq> None} \<and>
      kMessagePrefix @ EncodeUint64 from_seq \<le> k" for k
  proof
    assume "k \<in> set (map fst es)"
    then obtain b where "(k, b) \<in> set es" by auto
    from rocks(2) [OF this] show "k \<in> {k. snap_view E s (Messages, k) \<noteq> None} \<and>
        kMessagePrefix @ EncodeUint64 from_seq \<le> k" by (simp add: NumericKey_def)
  next
    assume k: "k \<in> {k. snap_view E s (Messages, k) \<noteq> None} \<and> kMessagePrefix @ EncodeUint64 from_seq \<le> k"
    then obtain b where "snap_view E s (Messages, k) = Some b" by auto
    from rocks(3) [OF this _ it(2)] k have "(k, b) \<in> set es" by (simp add: NumericKey_def)
    then show "k \<in> set (map fst es)" by force
  qed
  have dense: "k \<in> {k. snap_view E s (Messages, k) \<noteq> None} \<and> prefix kMessagePrefix k \<longleftrightarrow>
      (\<exists>seq\<le>last_seq. k = kMessagePrefix @ EncodeUint64 seq)" for k
    using assms(3) unfolding intact_def NumericKey_def by blast
  have run: "map fst (takeWhile ?pre es) =
      map (\<lambda>n. NumericKey kMessagePrefix (of_nat n)) [unat from_seq..<Suc (unat last_seq)]"
    using be64.ordered_run [OF rocks(1) keys dense] by (simp add: NumericKey_def)
  have "exit_complete last_seq max_records
      (scan_spec (stored_message E s) visitor (records_left last_seq max_records 0 from_seq) from_seq v)
      (ScanMessages_loop (proto_lib E) last_seq max_records visitor
        (takeWhile ?pre es @ dropWhile ?pre es) 0 from_seq v)"
  proof (rule ScanMessages_loop_complete [OF assms(2) _ _ run])
    show "dropWhile ?pre es = [] \<or> \<not> prefix kMessagePrefix (fst (hd (dropWhile ?pre es)))"
      using hd_dropWhile [of ?pre es] by (auto simp: case_prod_beta)
    show "stored_message E s seq \<noteq> None" if "seq \<le> last_seq" for seq
      using assms(3) that by (simp add: intact_def)
    show "snap_view E s (Messages, k) = Some b" if "(k, b) \<in> set (takeWhile ?pre es)" for k b
      using rocks(2) that by (auto dest: set_takeWhileD)
  qed
  then have complete: "exit_complete last_seq max_records
      (scan_spec (stored_message E s) visitor (records_left last_seq max_records 0 from_seq) from_seq v)
      (ScanMessages_loop (proto_lib E) last_seq max_records visitor es 0 from_seq v)" by simp
  show ?thesis
  proof (cases "ScanMessages_loop (proto_lib E) last_seq max_records visitor es 0 from_seq v")
    case (ScanReturn r v')
    with complete it(1) show ?thesis by (simp add: ScanMessages_def exit_complete_def)
  next
    case (ScanBreak rest scanned next_seq v')
    have "rocks_result E (iter_status rest final) ''scan messages'' = Inr ()" using it(2) by simp
    with ScanBreak complete it(1) show ?thesis
      by (auto simp: ScanMessages_def exit_complete_def simp del: RocksToStatus_Inr)
  qed
qed

text \<open>One step of the reference scan.\<close>

lemma scan_spec_SucE:
  assumes "scan_spec f visitor (Suc n) seq v = (Inr next_seq, v')"
  obtains m act v1 where "f seq = Some m" and "visitor v m = (Inr act, v1)"
    and "act = kContinue \<Longrightarrow> scan_spec f visitor n (seq + 1) v1 = (Inr next_seq, v')"
    and "act = kStopBefore \<Longrightarrow> next_seq = seq \<and> v' = v1"
    and "act = kStopAfter \<Longrightarrow> next_seq = seq + 1 \<and> v' = v1"
proof -
  from assms obtain m where m: "f seq = Some m" by (cases "f seq") simp_all
  obtain r v1 where r: "visitor v m = (r, v1)" by fastforce
  with assms m obtain act where "r = Inr act" by (cases r) simp_all
  with that [OF m] assms m r show ?thesis by (cases act) simp_all
qed

end
