(* ===== verification/Core_Fetch.thy ===== *)
theory Core_Fetch
  imports Core_Contract Message_Scan
begin

text \<open>
  Reading the log: \<open>Fetch\<close> for a principal, with the visibility of channels and an optional
  restriction to channels and recipients, and \<open>ListMessages\<close> for the administrator. Both drive
  \<open>ScanMessages\<close> with a visitor that collects one page, bounded by a number of messages and by
  the soft limit on the bytes of a response.
\<close>

section \<open>Responses and visitor states\<close>

record fetch_response =
  fr_messages :: "event_message list"
  fr_last_seq :: u64
  fr_next_seq :: u64

text \<open>What a visitor captures: the messages of the response, their bytes, and what it has learned
  about channels.\<close>

record page =
  pg_messages :: "event_message list"
  pg_response_bytes :: u64

record fetch_page = page +
  pg_readable_channels :: "u64 \<rightharpoonup> bool"

record list_page = page +
  pg_known_channels :: "u64 set"

section \<open>Collecting a page\<close>

text \<open>\<^verbatim>\<open>message_bytes > soft_limit - std::min(response_bytes, soft_limit)\<close>; the
  subtraction cannot wrap.\<close>

definition over_budget :: "u64 \<Rightarrow> u64 \<Rightarrow> u64 \<Rightarrow> bool" where
  "over_budget soft_limit response_bytes message_bytes \<longleftrightarrow>
     message_bytes > soft_limit - min response_bytes soft_limit"

text \<open>The common end of both visitors. \<^verbatim>\<open>static_cast<int>(limit)\<close> reads the 32 bits of the
  limit as a signed number.\<close>

definition page_add :: "('db, 'snap, 'os) env \<Rightarrow> u32 \<Rightarrow> ('z page_scheme) message_visitor" where
  "page_add E limit v message =
     (let message_bytes = message_ByteSizeLong (proto_lib E) message in
      if pg_messages v \<noteq> [] \<and>
         over_budget (response_soft_limit_bytes E) (pg_response_bytes v) message_bytes
      then (Inr kStopBefore, v)
      else
        let v' = v\<lparr>pg_messages := pg_messages v @ [message],
                   pg_response_bytes := pg_response_bytes v + message_bytes\<rparr>
        in (Inr (if int (length (pg_messages v')) \<ge> sint limit then kStopAfter else kContinue), v'))"

section \<open>Fetch\<close>

primrec ValidateReadableChannels_loop :: "('db, 'snap, 'os) env \<Rightarrow> 'snap \<Rightarrow> u64 \<Rightarrow> u64 list \<Rightarrow> u64 set \<Rightarrow>
    unit result" where
  "ValidateReadableChannels_loop E snapshot prin [] validated = Inr ()"
| "ValidateReadableChannels_loop E snapshot prin (channel_id # channels) validated =
     (if channel_id \<in> validated then ValidateReadableChannels_loop E snapshot prin channels validated
      else
        bindR (LoadChannel E snapshot channel_id) (\<lambda>loaded.
        case loaded of
          None \<Rightarrow> Inl (mk_status NOT_FOUND ''channel not found'')
        | Some channel \<Rightarrow>
            if \<not> CanRead channel prin then Inl (mk_status PERMISSION_DENIED ''channel not visible'')
            else ValidateReadableChannels_loop E snapshot prin channels (insert channel_id validated)))"

definition ValidateReadableChannels :: "('db, 'snap, 'os) env \<Rightarrow> 'snap \<Rightarrow> u64 \<Rightarrow> u64 list \<Rightarrow> unit result" where
  "ValidateReadableChannels E snapshot prin channels =
     ValidateReadableChannels_loop E snapshot prin channels {}"

text \<open>The lookup in \<^verbatim>\<open>readable_channels\<close>, loading the channel when it is not there.\<close>

definition channel_readable :: "('db, 'snap, 'os) env \<Rightarrow> 'snap \<Rightarrow> u64 \<Rightarrow> (u64 \<rightharpoonup> bool) \<Rightarrow> u64 \<Rightarrow> bool result" where
  "channel_readable E snapshot prin readable_channels channel_id =
     (case readable_channels channel_id of
        Some readable \<Rightarrow> Inr readable
      | None \<Rightarrow>
          bindR (LoadChannel E snapshot channel_id) (\<lambda>loaded.
          case loaded of
            None \<Rightarrow> Inl (StorageCorruption ''scan visible messages'' ''message references a missing channel'')
          | Some channel \<Rightarrow> Inr (CanRead channel prin)))"

definition fetch_visitor :: "('db, 'snap, 'os) env \<Rightarrow> 'snap \<Rightarrow> u64 \<Rightarrow> u32 \<Rightarrow> bool \<Rightarrow> u64 list \<Rightarrow>
    fetch_page message_visitor" where
  "fetch_visitor E snapshot prin limit only_my_recipient requested_channels v message =
     (if requested_channels \<noteq> [] \<and> msg_channel_id message \<notin> set requested_channels
      then (Inr kContinue, v)
      else
        case channel_readable E snapshot prin (pg_readable_channels v) (msg_channel_id message) of
          Inl e \<Rightarrow> (Inl e, v)
        | Inr readable \<Rightarrow>
            let v' = v\<lparr>pg_readable_channels := (pg_readable_channels v)(msg_channel_id message \<mapsto> readable)\<rparr>
            in if \<not> readable \<or> (only_my_recipient \<and> \<not> HasRecipient message prin)
               then (Inr kContinue, v')
               else page_add E limit v' message)"

definition FetchVisible :: "('db, 'snap, 'os) env \<Rightarrow> 'snap \<Rightarrow> u64 \<Rightarrow> u64 \<Rightarrow> u32 \<Rightarrow> bool \<Rightarrow> u64 list \<Rightarrow>
    fetch_response result" where
  "FetchVisible E snapshot prin from_seq limit only_my_recipient channels =
     bindR (GetMaxSeq E snapshot) (\<lambda>max_seq.
     if from_seq > max_seq
     then Inr \<lparr>fr_messages = [], fr_last_seq = max_seq, fr_next_seq = max_seq + 1\<rparr>
     else
       let start = \<lparr>pg_messages = [], pg_response_bytes = 0,
             pg_readable_channels = (\<lambda>channel_id. if channel_id \<in> set channels then Some True else None)\<rparr>;
           (next_seq, v) = ScanMessages E snapshot from_seq max_seq (max_scan_records E)
             (fetch_visitor E snapshot prin limit only_my_recipient channels) start
       in bindR next_seq (\<lambda>next_seq.
          Inr \<lparr>fr_messages = pg_messages v, fr_last_seq = max_seq, fr_next_seq = next_seq\<rparr>))"

record fetch_request =
  fq_principal :: u64
  fq_token :: string
  fq_from_seq :: u64
  fq_limit :: u32
  fq_only_my_recipient :: bool
  fq_channels :: "u64 list"

definition check_limit :: "u32 \<Rightarrow> unit result" where
  "check_limit limit = failIf (limit = 0 \<or> limit > 1000) (mk_status INVALID_ARGUMENT ''limit must be in 1..1000'')"

definition Fetch :: "('db, 'snap, 'os) env \<Rightarrow> fetch_request \<Rightarrow> ('db, 'snap, 'os, fetch_response) core_op" where
  "Fetch E request =
     bindM EnsureAvailable (\<lambda>_.
     bindM (liftM (check_limit (fq_limit request))) (\<lambda>_.
     bindM (CreateLinearizedSnapshot E) (\<lambda>snapshot.
     bindM (liftM (Authenticate E snapshot (fq_principal request) (fq_token request))) (\<lambda>_.
     bindM (liftM (ValidateReadableChannels E snapshot (fq_principal request) (fq_channels request))) (\<lambda>_.
     liftM (FetchVisible E snapshot (fq_principal request) (fq_from_seq request) (fq_limit request)
       (fq_only_my_recipient request) (fq_channels request)))))))"

section \<open>Listing every message\<close>

definition list_visitor :: "('db, 'snap, 'os) env \<Rightarrow> 'snap \<Rightarrow> u32 \<Rightarrow> list_page message_visitor" where
  "list_visitor E snapshot limit v message =
     (if msg_channel_id message \<in> pg_known_channels v then page_add E limit v message
      else
        case LoadChannel E snapshot (msg_channel_id message) of
          Inl e \<Rightarrow> (Inl e, v)
        | Inr None \<Rightarrow>
            (Inl (StorageCorruption ''scan subscription messages'' ''message references a missing channel''), v)
        | Inr (Some _) \<Rightarrow>
            page_add E limit
              (v\<lparr>pg_known_channels := insert (msg_channel_id message) (pg_known_channels v)\<rparr>) message)"

definition ListAllMessages :: "('db, 'snap, 'os) env \<Rightarrow> 'snap \<Rightarrow> u64 \<Rightarrow> u32 \<Rightarrow> fetch_response result" where
  "ListAllMessages E snapshot from_seq limit =
     bindR (GetMaxSeq E snapshot) (\<lambda>max_seq.
     if from_seq > max_seq
     then Inr \<lparr>fr_messages = [], fr_last_seq = max_seq, fr_next_seq = max_seq + 1\<rparr>
     else
       let (next_seq, v) = ScanMessages E snapshot from_seq max_seq (max_scan_records E)
             (list_visitor E snapshot limit)
             \<lparr>pg_messages = [], pg_response_bytes = 0, pg_known_channels = {}\<rparr>
       in bindR next_seq (\<lambda>next_seq.
          Inr \<lparr>fr_messages = pg_messages v, fr_last_seq = max_seq, fr_next_seq = next_seq\<rparr>))"

definition ListMessages :: "('db, 'snap, 'os) env \<Rightarrow> u64 \<Rightarrow> u32 \<Rightarrow> ('db, 'snap, 'os, fetch_response) core_op" where
  "ListMessages E from_seq limit =
     bindM EnsureAvailable (\<lambda>_.
     bindM (liftM (check_limit limit)) (\<lambda>_.
     bindM (CreateLinearizedSnapshot E) (\<lambda>snapshot.
     liftM (ListAllMessages E snapshot from_seq limit))))"

section \<open>The contract of a page\<close>

text \<open>
  A visitor that collects a page selects messages (\<open>keep\<close>), skips the others, appends a selected
  message unless it would exceed the budget, and stops at the limit. Whatever such a visitor is, the
  page a scan collects holds exactly the selected messages of the range it covered, within the bounds.
\<close>

locale page_scan =
  fixes visit :: "'p \<Rightarrow> ('z page_scheme) message_visitor"
    and ok :: "'p \<Rightarrow> 'z page_scheme \<Rightarrow> bool"
    and keep :: "'p \<Rightarrow> event_message \<Rightarrow> bool"
    and limit :: "'p \<Rightarrow> u32"
    and soft_limit :: "'p \<Rightarrow> u64"
    and byte_size :: "'p \<Rightarrow> event_message \<Rightarrow> u64"
  assumes skipped: "ok p v \<Longrightarrow> visit p v m = (Inr act, v') \<Longrightarrow> \<not> keep p m \<Longrightarrow>
      act = kContinue \<and> pg_messages v' = pg_messages v \<and> pg_response_bytes v' = pg_response_bytes v"
    and selected: "ok p v \<Longrightarrow> visit p v m = (Inr act, v') \<Longrightarrow> keep p m \<Longrightarrow>
      (if pg_messages v \<noteq> [] \<and> over_budget (soft_limit p) (pg_response_bytes v) (byte_size p m)
       then act = kStopBefore \<and> pg_messages v' = pg_messages v \<and> pg_response_bytes v' = pg_response_bytes v
       else pg_messages v' = pg_messages v @ [m] \<and>
         pg_response_bytes v' = pg_response_bytes v + byte_size p m \<and>
         act = (if int (Suc (length (pg_messages v))) \<ge> sint (limit p) then kStopAfter else kContinue))"
    and invariant: "ok p v \<Longrightarrow> visit p v m = (Inr act, v') \<Longrightarrow> ok p v'"
begin

text \<open>Why a scan ended after \<open>k\<close> of \<open>n\<close> records.\<close>

definition page_end :: "'p \<Rightarrow> (u64 \<rightharpoonup> event_message) \<Rightarrow> nat \<Rightarrow> nat \<Rightarrow> u64 \<Rightarrow> 'z page_scheme \<Rightarrow> bool" where
  "page_end p f n k next_seq v \<longleftrightarrow>
     k = n \<or> int (length (pg_messages v)) \<ge> sint (limit p) \<or>
     (pg_messages v \<noteq> [] \<and> (\<exists>m. f next_seq = Some m \<and> keep p m \<and>
        over_budget (soft_limit p) (pg_response_bytes v) (byte_size p m)))"

definition collected :: "'p \<Rightarrow> (u64 \<rightharpoonup> event_message) \<Rightarrow> nat \<Rightarrow> u64 \<Rightarrow> 'z page_scheme \<Rightarrow> nat \<Rightarrow> u64 \<Rightarrow>
    'z page_scheme \<Rightarrow> bool" where
  "collected p f n seq v k next_seq v' \<longleftrightarrow>
     k \<le> n \<and> next_seq = seq + of_nat k \<and> (\<forall>i<k. f (seq + of_nat i) \<noteq> None) \<and>
     pg_messages v' = pg_messages v @ filter (keep p) (map (\<lambda>i. the (f (seq + of_nat i))) [0..<k]) \<and>
     (0 < n \<and> pg_messages v = [] \<longrightarrow> 0 < k) \<and> page_end p f n k next_seq v'"

lemma collected_Suc:
  assumes col: "collected p f n (seq + 1) v1 k next_seq v'" and m: "f seq = Some m"
    and v1: "pg_messages v1 = pg_messages v @ filter (keep p) [m]"
  shows "collected p f (Suc n) seq v (Suc k) next_seq v'"
proof -
  note col = col [unfolded collected_def]
  have next_of: "seq + of_nat (Suc i) = seq + 1 + of_nat i" for i by simp
  have shift: "map (\<lambda>i. the (f (seq + of_nat i))) [0..<Suc k] =
      m # map (\<lambda>i. the (f (seq + 1 + of_nat i))) [0..<k]"
    unfolding map_upt_Suc next_of using m by simp
  have "f (seq + of_nat i) \<noteq> None" if "i < Suc k" for i
  proof (cases i)
    case 0
    with m show ?thesis by simp
  next
    case (Suc j)
    with col that show ?thesis unfolding Suc next_of by blast
  qed
  moreover have "page_end p f (Suc n) (Suc k) next_seq v'"
    using col unfolding page_end_def by blast
  moreover have "next_seq = seq + of_nat (Suc k)" using col unfolding next_of by blast
  moreover have "pg_messages v' =
      pg_messages v @ filter (keep p) (map (\<lambda>i. the (f (seq + of_nat i))) [0..<Suc k])"
    unfolding shift using col v1 by simp
  moreover have "Suc k \<le> Suc n" "0 < Suc k" using col by simp_all
  ultimately show ?thesis unfolding collected_def by blast
qed

lemma scan_collects:
  "scan_spec f (visit p) n seq v = (Inr next_seq, v') \<Longrightarrow> ok p v \<Longrightarrow>
   \<exists>k. collected p f n seq v k next_seq v'"
proof (induction n arbitrary: seq v)
  case 0
  then show ?case by (auto simp: collected_def page_end_def)
next
  case (Suc n)
  from Suc.prems(1) obtain m act v1 where m: "f seq = Some m" and vis: "visit p v m = (Inr act, v1)"
    and rest: "act = kContinue \<Longrightarrow> scan_spec f (visit p) n (seq + 1) v1 = (Inr next_seq, v')"
      "act = kStopBefore \<Longrightarrow> next_seq = seq \<and> v' = v1" "act = kStopAfter \<Longrightarrow> next_seq = seq + 1 \<and> v' = v1"
    by (rule scan_spec_SucE) blast
  show ?case
  proof (cases act)
    case kContinue
    from Suc.IH [OF rest(1) [OF this] invariant [OF Suc.prems(2) vis]]
    obtain k where "collected p f n (seq + 1) v1 k next_seq v'" ..
    moreover have "pg_messages v1 = pg_messages v @ filter (keep p) [m]"
      using skipped [OF Suc.prems(2) vis] selected [OF Suc.prems(2) vis] kContinue
      by (cases "keep p m") (auto split: if_splits)
    ultimately show ?thesis using collected_Suc m by blast
  next
    case kStopBefore
    with skipped [OF Suc.prems(2) vis] have keep: "keep p m" by auto
    with selected [OF Suc.prems(2) vis] kStopBefore
    have "pg_messages v \<noteq> []" "over_budget (soft_limit p) (pg_response_bytes v) (byte_size p m)"
      "pg_messages v1 = pg_messages v" "pg_response_bytes v1 = pg_response_bytes v"
      by (auto split: if_splits)
    with rest kStopBefore keep m have "collected p f (Suc n) seq v 0 next_seq v'"
      by (auto simp: collected_def page_end_def)
    then show ?thesis ..
  next
    case kStopAfter
    with skipped [OF Suc.prems(2) vis] have keep: "keep p m" by auto
    with selected [OF Suc.prems(2) vis] kStopAfter
    have "pg_messages v1 = pg_messages v @ [m]" "int (length (pg_messages v1)) \<ge> sint (limit p)"
      by (auto split: if_splits)
    with rest kStopAfter keep m have "collected p f (Suc n) seq v 1 next_seq v'"
      by (auto simp: collected_def page_end_def)
    then show ?thesis ..
  qed
qed

text \<open>The page never exceeds the limit, nor the budget unless a single message does.\<close>

definition page_within :: "'p \<Rightarrow> 'z page_scheme \<Rightarrow> bool" where
  "page_within p v \<longleftrightarrow>
     int (length (pg_messages v)) \<le> sint (limit p) \<and>
     sum_list (map (\<lambda>m. unat (byte_size p m)) (pg_messages v)) = unat (pg_response_bytes v) \<and>
     (case pg_messages v of [] \<Rightarrow> pg_response_bytes v = 0
      | m # _ \<Rightarrow> pg_response_bytes v \<le> max (soft_limit p) (byte_size p m))"

lemma page_within_append:
  assumes v: "page_within p v" and room: "int (length (pg_messages v)) < sint (limit p)"
    and "\<not> (pg_messages v \<noteq> [] \<and> over_budget (soft_limit p) (pg_response_bytes v) (byte_size p m))"
    and v': "pg_messages v' = pg_messages v @ [m]" "pg_response_bytes v' = pg_response_bytes v + byte_size p m"
  shows "page_within p v'"
proof (cases "pg_messages v")
  case Nil
  with v room v' show ?thesis by (simp add: page_within_def)
next
  case (Cons m0 ms)
  let ?b = "pg_response_bytes v" and ?s = "soft_limit p" and ?x = "byte_size p m"
  have x: "?x \<le> ?s - min ?b ?s" using assms(3) Cons by (simp add: over_budget_def not_less)
  have bound: "?b \<le> max ?s (byte_size p m0)" using v Cons by (simp add: page_within_def)
  have sum: "unat (?b + ?x) = unat ?b + unat ?x \<and> ?b + ?x \<le> max ?s (byte_size p m0)"
  proof (cases "?b \<le> ?s")
    case True
    then have "unat ?x \<le> unat ?s - unat ?b" using x by (simp add: word_le_nat_alt unat_sub min_def)
    then have "unat ?b + unat ?x \<le> unat ?s" using True by (simp add: word_le_nat_alt)
    moreover from this have "unat (?b + ?x) = unat ?b + unat ?x"
      by (intro unat_add_no_wrap) (use unsigned_less [where ?'a = nat, of ?s] in simp)
    ultimately have "unat (?b + ?x) = unat ?b + unat ?x" "?b + ?x \<le> ?s" by (simp_all add: word_le_nat_alt)
    then show ?thesis by (simp add: max.coboundedI1)
  next
    case False
    then have "?x = 0" using x by (simp add: min_def)
    with bound show ?thesis by simp
  qed
  with v room v' Cons show ?thesis by (simp add: page_within_def)
qed

lemma scan_within:
  "scan_spec f (visit p) n seq v = (Inr next_seq, v') \<Longrightarrow> ok p v \<Longrightarrow> page_within p v \<Longrightarrow>
   int (length (pg_messages v)) < sint (limit p) \<Longrightarrow> page_within p v'"
proof (induction n arbitrary: seq v)
  case (Suc n)
  from Suc.prems(1) obtain m act v1 where m: "f seq = Some m" and vis: "visit p v m = (Inr act, v1)"
    and rest: "act = kContinue \<Longrightarrow> scan_spec f (visit p) n (seq + 1) v1 = (Inr next_seq, v')"
      "act = kStopBefore \<Longrightarrow> next_seq = seq \<and> v' = v1" "act = kStopAfter \<Longrightarrow> next_seq = seq + 1 \<and> v' = v1"
    by (rule scan_spec_SucE) blast
  have v1: "page_within p v1"
  proof (cases "pg_messages v1 = pg_messages v")
    case True
    then have "pg_response_bytes v1 = pg_response_bytes v"
      using skipped [OF Suc.prems(2) vis] selected [OF Suc.prems(2) vis] by (cases "keep p m") (auto split: if_splits)
    with True Suc.prems(3) show ?thesis by (cases "pg_messages v") (simp_all add: page_within_def)
  next
    case False
    then have "pg_messages v1 = pg_messages v @ [m]" "pg_response_bytes v1 = pg_response_bytes v + byte_size p m"
      "\<not> (pg_messages v \<noteq> [] \<and> over_budget (soft_limit p) (pg_response_bytes v) (byte_size p m))"
      using skipped [OF Suc.prems(2) vis] selected [OF Suc.prems(2) vis] by (cases "keep p m", auto split: if_splits)+
    with page_within_append Suc.prems(3,4) show ?thesis by blast
  qed
  show ?case
  proof (cases act)
    case kContinue
    with skipped [OF Suc.prems(2) vis] selected [OF Suc.prems(2) vis]
    have "int (length (pg_messages v1)) < sint (limit p)"
      using Suc.prems(4) by (cases "keep p m") (auto split: if_splits)
    with Suc.IH [OF _ invariant [OF Suc.prems(2) vis] v1] rest kContinue show ?thesis by simp
  qed (use rest v1 in auto)
qed simp

text \<open>The page in terms of the range of sequence numbers it covers.\<close>

lemma page_result:
  assumes scan: "scan_spec f (visit p) (records_left last_seq max_records 0 from_seq) from_seq v = (Inr next_seq, v')"
    and start: "ok p v" "pg_messages v = []" "pg_response_bytes v = 0"
    and range: "from_seq \<le> last_seq" "last_seq + 1 \<noteq> 0" and lim: "0 < sint (limit p)"
  shows "pg_messages v' = filter (keep p) (map (\<lambda>n. the (f (of_nat n))) [unat from_seq..<unat next_seq])"
    and "n \<in> {unat from_seq..<unat next_seq} \<Longrightarrow> f (of_nat n) \<noteq> None"
    and "next_seq \<le> last_seq + 1" and "max_records \<noteq> 0 \<Longrightarrow> from_seq < next_seq"
    and "page_within p v'"
    and "next_seq = last_seq + 1 \<or> unat next_seq = unat from_seq + unat max_records \<or>
      page_end p f 1 0 next_seq v'"
proof -
  let ?n = "records_left last_seq max_records 0 from_seq"
  from scan_collects [OF scan start(1)] obtain k where col: "collected p f ?n from_seq v k next_seq v'" ..
  note c = col [unfolded collected_def]
  have last: "unat (last_seq + 1) = Suc (unat last_seq)" by (rule unat_Suc_word [OF range(2)])
  have le: "unat from_seq \<le> unat last_seq" using range(1) by (simp add: word_le_nat_alt)
  have n: "?n \<le> Suc (unat last_seq) - unat from_seq" "?n \<le> unat max_records" by (simp_all add: records_left_def)
  with c le have k: "unat from_seq + k \<le> Suc (unat last_seq)" by linarith
  moreover have small: "Suc (unat last_seq) < 2 ^ 64"
    using last unsigned_less [where ?'a = nat, of "last_seq + 1"] by simp
  ultimately have next_nat: "unat next_seq = unat from_seq + k"
    using c unat_add_no_wrap [of from_seq "of_nat k"] by (simp add: unat_of_nat_u64)
  have shift: "[unat from_seq..<unat next_seq] = map (\<lambda>i. unat from_seq + i) [0..<k]"
    using map_add_upt [of "unat from_seq" k] by (simp add: next_nat add.commute)
  show "pg_messages v' = filter (keep p) (map (\<lambda>n. the (f (of_nat n))) [unat from_seq..<unat next_seq])"
    using c start(2) unfolding shift by (simp add: comp_def)
  show "f (of_nat n) \<noteq> None" if "n \<in> {unat from_seq..<unat next_seq}"
  proof -
    from that obtain i where i: "i < k" "n = unat from_seq + i"
      using next_nat by (auto simp: le_iff_add)
    then have "of_nat n = from_seq + of_nat i" by simp
    with c i show ?thesis by metis
  qed
  show "next_seq \<le> last_seq + 1" using k next_nat last by (simp add: word_le_nat_alt)
  show "from_seq < next_seq" if "max_records \<noteq> 0"
  proof -
    from that le have "0 < ?n" by (simp add: records_left_def unat_gt_0)
    with c start(2) next_nat show ?thesis by (simp add: word_less_nat_alt)
  qed
  have "page_within p v" using start(2,3) lim by (simp add: page_within_def)
  with scan_within [OF scan start(1)] start(2) lim show "page_within p v'" by simp
  have "k = ?n \<or> page_end p f 1 0 next_seq v'" using c unfolding page_end_def by blast
  moreover have "next_seq = last_seq + 1 \<or> unat next_seq = unat from_seq + unat max_records" if "k = ?n"
  proof (cases "unat max_records \<le> Suc (unat last_seq) - unat from_seq")
    case True
    with that next_nat show ?thesis by (simp add: records_left_def)
  next
    case False
    with that next_nat le have "unat next_seq = unat (last_seq + 1)" using last by (simp add: records_left_def)
    then show ?thesis by (simp add: word_unat_eq_iff)
  qed
  ultimately show "next_seq = last_seq + 1 \<or> unat next_seq = unat from_seq + unat max_records \<or>
      page_end p f 1 0 next_seq v'" by blast
qed

end

section \<open>The two visitors keep the contract\<close>

text \<open>The messages a principal may see, and those a request selects among them.\<close>

definition visible :: "event_log \<Rightarrow> u64 \<Rightarrow> event_message \<Rightarrow> bool" where
  "visible l prin msg =
     (case channel_in l (msg_channel_id msg) of None \<Rightarrow> False | Some ch \<Rightarrow> CanRead ch prin)"

definition wanted :: "event_log \<Rightarrow> u64 \<Rightarrow> bool \<Rightarrow> u64 list \<Rightarrow> event_message \<Rightarrow> bool" where
  "wanted l prin only_my_recipient channels msg \<longleftrightarrow>
     visible l prin msg \<and> (channels = [] \<or> msg_channel_id msg \<in> set channels) \<and>
     (only_my_recipient \<longrightarrow> HasRecipient msg prin)"

text \<open>What the visitor has learned about channels is right.\<close>

definition cache_ok :: "event_log \<Rightarrow> u64 \<Rightarrow> (u64 \<rightharpoonup> bool) \<Rightarrow> bool" where
  "cache_ok l prin readable_channels \<longleftrightarrow>
     (\<forall>i b. readable_channels i = Some b \<longrightarrow> (\<exists>ch. channel_in l i = Some ch \<and> b = CanRead ch prin))"

lemma channel_readable_log:
  assumes "env_laws E" and "cache_ok (log_in E s) prin readable"
    and "channel_readable E s prin readable i = Inr b"
  shows "\<exists>ch. channel_in (log_in E s) i = Some ch \<and> b = CanRead ch prin"
  using assms LoadChannel_log(1) [OF assms(1)]
  by (fastforce simp: channel_readable_def cache_ok_def bind_inv split: option.splits)

text \<open>The common end of the visitors, as the contract wants it.\<close>

lemma page_add_cases:
  "page_add E limit v m =
     (if pg_messages v \<noteq> [] \<and> over_budget (response_soft_limit_bytes E) (pg_response_bytes v)
           (message_ByteSizeLong (proto_lib E) m)
      then (Inr kStopBefore, v)
      else (Inr (if int (Suc (length (pg_messages v))) \<ge> sint limit then kStopAfter else kContinue),
        v\<lparr>pg_messages := pg_messages v @ [m],
          pg_response_bytes := pg_response_bytes v + message_ByteSizeLong (proto_lib E) m\<rparr>))"
  by (simp add: page_add_def Let_def)

lemma cache_ok_update:
  "cache_ok l prin f \<Longrightarrow> channel_in l i = Some ch \<Longrightarrow> cache_ok l prin (f(i \<mapsto> CanRead ch prin))"
  by (simp add: cache_ok_def)

lemma fetch_visitor_cases:
  assumes "env_laws E" and cache: "cache_ok (log_in E s) prin (pg_readable_channels v)"
    and vis: "fetch_visitor E s prin limit only channels v m = (Inr act, v')"
  obtains (skip) "\<not> wanted (log_in E s) prin only channels m" "act = kContinue"
      "pg_messages v' = pg_messages v" "pg_response_bytes v' = pg_response_bytes v"
      "cache_ok (log_in E s) prin (pg_readable_channels v')"
    | (add) w where "wanted (log_in E s) prin only channels m" "page_add E limit w m = (Inr act, v')"
      "pg_messages w = pg_messages v" "pg_response_bytes w = pg_response_bytes v"
      "cache_ok (log_in E s) prin (pg_readable_channels w)"
proof (cases "channels \<noteq> [] \<and> msg_channel_id m \<notin> set channels")
  case True
  with vis cache show ?thesis by (intro skip) (auto simp: fetch_visitor_def wanted_def)
next
  case False
  with vis obtain readable where
    readable: "channel_readable E s prin (pg_readable_channels v) (msg_channel_id m) = Inr readable"
    by (auto simp: fetch_visitor_def split: sum.splits)
  from channel_readable_log [OF assms(1) cache this] obtain ch where
    ch: "channel_in (log_in E s) (msg_channel_id m) = Some ch" "readable = CanRead ch prin" by blast
  let ?w = "v\<lparr>pg_readable_channels := (pg_readable_channels v)(msg_channel_id m \<mapsto> readable)\<rparr>"
  have w: "cache_ok (log_in E s) prin (pg_readable_channels ?w)"
    using cache_ok_update [OF cache ch(1)] ch(2) by simp
  have visw: "(if \<not> readable \<or> (only \<and> \<not> HasRecipient m prin) then (Inr kContinue, ?w)
      else page_add E limit ?w m) = (Inr act, v')"
    using vis False readable by (simp add: fetch_visitor_def Let_def)
  have wanted: "wanted (log_in E s) prin only channels m \<longleftrightarrow> readable \<and> (only \<longrightarrow> HasRecipient m prin)"
    using False ch by (auto simp: wanted_def visible_def)
  show ?thesis
  proof (cases "wanted (log_in E s) prin only channels m")
    case True
    with visw wanted have "page_add E limit ?w m = (Inr act, v')" by (auto split: if_splits)
    from add [OF True this] w show ?thesis by simp
  next
    case False
    with visw wanted have "act = kContinue" "v' = ?w" by (auto split: if_splits)
    with skip [OF False] w show ?thesis by simp
  qed
qed

lemma page_add_contract:
  assumes "page_add E limit w m = (Inr act, v')" and "pg_messages w = pg_messages v"
    and "pg_response_bytes w = pg_response_bytes v"
  shows "if pg_messages v \<noteq> [] \<and> over_budget (response_soft_limit_bytes E) (pg_response_bytes v)
      (message_ByteSizeLong (proto_lib E) m)
    then act = kStopBefore \<and> pg_messages v' = pg_messages v \<and> pg_response_bytes v' = pg_response_bytes v
    else pg_messages v' = pg_messages v @ [m] \<and>
      pg_response_bytes v' = pg_response_bytes v + message_ByteSizeLong (proto_lib E) m \<and>
      act = (if int (Suc (length (pg_messages v))) \<ge> sint limit then kStopAfter else kContinue)"
  using assms by (auto simp: page_add_cases split: if_splits)

lemma page_add_cache: "page_add E limit w m = (Inr act, v') \<Longrightarrow> pg_readable_channels v' = pg_readable_channels w"
  by (auto simp: page_add_cases split: if_splits)

interpretation fetch: page_scan
  "\<lambda>(E, s, prin, limit, only, channels). fetch_visitor E s prin limit only channels"
  "\<lambda>(E, s, prin, limit, only, channels) v. env_laws E \<and> cache_ok (log_in E s) prin (pg_readable_channels v)"
  "\<lambda>(E, s, prin, limit, only, channels). wanted (log_in E s) prin only channels"
  "\<lambda>(E, s, prin, limit, only, channels). limit"
  "\<lambda>(E, s, prin, limit, only, channels). response_soft_limit_bytes E"
  "\<lambda>(E, s, prin, limit, only, channels). message_ByteSizeLong (proto_lib E)"
proof (unfold_locales, goal_cases)
  case (1 p v m act v')
  then show ?case by (cases p) (auto elim: fetch_visitor_cases)
next
  case (2 p v m act v')
  obtain E s prin limit only channels where p: "p = (E, s, prin, limit, only, channels)" by (cases p)
  from 2 have "env_laws E" "cache_ok (log_in E s) prin (pg_readable_channels v)"
    "fetch_visitor E s prin limit only channels v m = (Inr act, v')" by (simp_all add: p)
  then show ?case
  proof (cases rule: fetch_visitor_cases)
    case skip
    with 2 show ?thesis by (simp add: p)
  next
    case (add w)
    from page_add_contract [OF add(2,3,4)] show ?thesis by (simp only: p prod.case)
  qed
next
  case (3 p v m act v')
  then show ?case by (cases p) (auto elim!: fetch_visitor_cases simp: page_add_cache)
qed

interpretation list_all: page_scan
  "\<lambda>(E, s, limit). list_visitor E s limit" "\<lambda>_ _. True" "\<lambda>_ _. True" "\<lambda>(E, s, limit). limit"
  "\<lambda>(E, s, limit). response_soft_limit_bytes E" "\<lambda>(E, s, limit). message_ByteSizeLong (proto_lib E)"
  by unfold_locales
    (auto simp: list_visitor_def page_add_cases split: prod.splits if_splits sum.splits option.splits)

section \<open>Fetch and ListMessages\<close>

text \<open>The messages of the log with sequence numbers from \<open>a\<close> up to but not including \<open>b\<close>.\<close>

definition messages_between :: "event_log \<Rightarrow> u64 \<Rightarrow> u64 \<Rightarrow> event_message list" where
  "messages_between l a b = map (\<lambda>n. the (lg_messages l (of_nat n))) [unat a..<unat b]"

lemma messages_between_append:
  assumes "a \<le> b" and "b \<le> c"
  shows "messages_between l a b @ messages_between l b c = messages_between l a c"
proof -
  have "unat a \<le> unat b" using assms(1) unfolding word_le_nat_alt .
  moreover obtain k where "unat c = unat b + k" using assms(2) unfolding word_le_nat_alt le_iff_add by blast
  ultimately have "[unat a..<unat c] = [unat a..<unat b] @ [unat b..<unat c]"
    using upt_add_eq_append [of "unat a" "unat b" k] by simp
  then show ?thesis unfolding messages_between_def by simp
qed

lemma stored_messages_between:
  assumes "\<And>n. n \<in> {unat a..<unat b} \<Longrightarrow> stored_message E s (of_nat n) \<noteq> None"
  shows "map (\<lambda>n. the (stored_message E s (of_nat n))) [unat a..<unat b] = messages_between (log_in E s) a b"
proof (unfold messages_between_def, intro map_cong refl)
  fix n assume "n \<in> set [unat a..<unat b]"
  with assms [of n] obtain msg where "stored_message E s (of_nat n) = Some msg" by auto
  with stored_message_log(1) [OF this]
  show "the (stored_message E s (of_nat n)) = the (lg_messages (log_in E s) (of_nat n))" by simp
qed

lemma ValidateReadableChannels_loop_log:
  assumes "env_laws E"
  shows "ValidateReadableChannels_loop E s prin channels validated = Inr u \<Longrightarrow>
    \<forall>i \<in> validated. \<exists>ch. channel_in (log_in E s) i = Some ch \<and> CanRead ch prin \<Longrightarrow>
    \<forall>i \<in> set channels. \<exists>ch. channel_in (log_in E s) i = Some ch \<and> CanRead ch prin"
proof (induction channels arbitrary: validated)
  case (Cons i channels)
  show ?case
  proof (cases "i \<in> validated")
    case True
    with Cons show ?thesis by auto
  next
    case False
    with Cons.prems(1) obtain ch where "LoadChannel E s i = Inr (Some ch)" and ch: "CanRead ch prin"
      and rest: "ValidateReadableChannels_loop E s prin channels (insert i validated) = Inr u"
      by (auto simp: bind_inv split: option.splits if_splits)
    with LoadChannel_log(1) [OF assms] have "channel_in (log_in E s) i = Some ch" by blast
    with Cons.IH [OF rest] Cons.prems(2) ch show ?thesis by auto
  qed
qed simp

lemma ValidateReadableChannels_cache:
  assumes "env_laws E" and "ValidateReadableChannels E s prin channels = Inr u"
  shows "cache_ok (log_in E s) prin (\<lambda>i. if i \<in> set channels then Some True else None)"
  using ValidateReadableChannels_loop_log [OF assms(1), of s prin channels "{}"] assms(2)
  by (force simp: ValidateReadableChannels_def cache_ok_def)

text \<open>A limit that passed the check is a positive signed number.\<close>

lemma check_limit_sint:
  assumes "check_limit limit = Inr u"
  shows "0 < sint limit" and "sint limit = int (unat limit)"
proof -
  from assms have "limit \<noteq> 0" and "limit \<le> 1000" by (auto simp: check_limit_def)
  then have "uint limit \<le> 1000" by (simp add: word_le_def)
  have "signed_take_bit 31 (uint limit) = uint limit"
  proof (rule signed_take_bit_int_eq_self)
    show "- (2 ^ 31) \<le> uint limit" by (rule order_trans [of _ 0]) simp_all
    show "uint limit < 2 ^ 31" by (rule order.strict_trans1 [OF \<open>uint limit \<le> 1000\<close>]) simp
  qed
  then have "sint limit = uint limit" by (simp add: sint_uint)
  then show "sint limit = int (unat limit)" by simp
  with \<open>limit \<noteq> 0\<close> show "0 < sint limit" by (simp only: of_nat_0_less_iff unat_gt_0 not_False_eq_True)
qed

text \<open>
  What a page promises: every message in the range it covers that the request selects, in order and
  nothing else; at most \<open>limit\<close> messages and, unless the first alone is larger, at most the soft
  limit of bytes; it ends at the end of the log, after the maximal number of records scanned, with a
  full page, or before a message that does not fit.
\<close>

definition page_promise :: "('db, 'snap, 'os) env \<Rightarrow> event_log \<Rightarrow> (event_message \<Rightarrow> bool) \<Rightarrow> u64 \<Rightarrow> u32 \<Rightarrow>
    fetch_response \<Rightarrow> bool" where
  "page_promise E l keep from_seq limit r \<longleftrightarrow>
     (let bytes_of = message_ByteSizeLong (proto_lib E); msgs = fr_messages r; next_seq = fr_next_seq r in
      fr_last_seq r = lg_max_seq l \<and> next_seq \<le> lg_max_seq l + 1 \<and>
      msgs = filter keep (messages_between l from_seq next_seq) \<and>
      length msgs \<le> unat limit \<and>
      (msgs \<noteq> [] \<longrightarrow> sum_list (map (\<lambda>m. unat (bytes_of m)) msgs) \<le>
         max (unat (response_soft_limit_bytes E)) (unat (bytes_of (hd msgs)))) \<and>
      (from_seq \<le> lg_max_seq l \<and> max_scan_records E \<noteq> 0 \<longrightarrow> from_seq < next_seq) \<and>
      (next_seq = lg_max_seq l + 1 \<or> unat next_seq = unat from_seq + unat (max_scan_records E) \<or>
       length msgs = unat limit \<or>
       msgs \<noteq> [] \<and> (\<exists>m. lg_messages l next_seq = Some m \<and> keep m \<and>
         unat (response_soft_limit_bytes E) < sum_list (map (\<lambda>m. unat (bytes_of m)) (msgs @ [m])))))"

lemma over_budget_sum:
  "over_budget soft b x \<Longrightarrow> unat soft < unat b + unat x"
  by (cases "b \<le> soft") (auto simp: over_budget_def word_less_nat_alt word_le_nat_alt unat_sub min_def)

text \<open>From the contract of a page to the promise.\<close>

lemma empty_page_promise:
  "from_seq > lg_max_seq l \<Longrightarrow> lg_max_seq l + 1 \<noteq> 0 \<Longrightarrow>
   page_promise E l keep from_seq limit
     \<lparr>fr_messages = [], fr_last_seq = lg_max_seq l, fr_next_seq = lg_max_seq l + 1\<rparr>"
  by (simp add: page_promise_def messages_between_def unat_Suc_word word_less_nat_alt not_le leD)

lemma promise_of_page:
  fixes E :: "('db, 'snap, 'os) env"
  defines "bytes_of \<equiv> message_ByteSizeLong (proto_lib E)" and "soft \<equiv> response_soft_limit_bytes E"
  assumes lim: "check_limit limit = Inr u"
    and msgs: "msgs = filter keep (map (\<lambda>n. the (stored_message E s (of_nat n))) [unat from_seq..<unat next_seq])"
    and stored: "\<And>n. n \<in> {unat from_seq..<unat next_seq} \<Longrightarrow> stored_message E s (of_nat n) \<noteq> None"
    and range: "next_seq \<le> lg_max_seq (log_in E s) + 1" "max_scan_records E \<noteq> 0 \<Longrightarrow> from_seq < next_seq"
    and within: "int (length msgs) \<le> sint limit" "sum_list (map (\<lambda>m. unat (bytes_of m)) msgs) = unat b"
      "case msgs of [] \<Rightarrow> b = 0 | m # _ \<Rightarrow> b \<le> max soft (bytes_of m)"
    and ends: "next_seq = lg_max_seq (log_in E s) + 1 \<or> unat next_seq = unat from_seq + unat (max_scan_records E) \<or>
      int (length msgs) \<ge> sint limit \<or>
      (msgs \<noteq> [] \<and> (\<exists>m. stored_message E s next_seq = Some m \<and> keep m \<and> over_budget soft b (bytes_of m)))"
  shows "page_promise E (log_in E s) keep from_seq limit
    \<lparr>fr_messages = msgs, fr_last_seq = lg_max_seq (log_in E s), fr_next_seq = next_seq\<rparr>"
proof -
  have between: "msgs = filter keep (messages_between (log_in E s) from_seq next_seq)"
    using stored_messages_between [of from_seq next_seq E s, OF stored] by (simp add: msgs)
  have len: "length msgs \<le> unat limit" 
    using within(1) unfolding check_limit_sint(2) [OF lim] of_nat_le_iff .
  have bytes: "sum_list (map (\<lambda>m. unat (bytes_of m)) msgs) \<le> max (unat soft) (unat (bytes_of (hd msgs)))"
    if "msgs \<noteq> []"
    using that within(2,3) by (cases msgs) (auto simp: le_max_iff_disj word_le_nat_alt)
  have "length msgs = unat limit" if "int (length msgs) \<ge> sint limit"
    using that len unfolding check_limit_sint(2) [OF lim] of_nat_le_iff by simp
  moreover have "unat soft < sum_list (map (\<lambda>m. unat (bytes_of m)) (msgs @ [m]))"
    if "over_budget soft b (bytes_of m)" for m
    using over_budget_sum [OF that] within(2) by simp
  ultimately show ?thesis
    using ends range len bytes stored_message_log(1) [of E s next_seq]
    unfolding page_promise_def Let_def bytes_of_def soft_def fetch_response.simps between [symmetric] by blast
qed

lemma FetchVisible_promise:
  assumes laws: "env_laws E" and lim: "check_limit limit = Inr u"
    and valid: "ValidateReadableChannels E s prin channels = Inr u'"
    and run: "FetchVisible E s prin from_seq limit only channels = Inr r"
    and room: "lg_max_seq (log_in E s) + 1 \<noteq> 0"
  shows "page_promise E (log_in E s) (wanted (log_in E s) prin only channels) from_seq limit r"
proof -
  let ?l = "log_in E s" and ?p = "(E, s, prin, limit, only, channels)"
  from run have max_seq: "GetMaxSeq E s = Inr (lg_max_seq ?l)"
    using counter_log(1) [OF laws] by (auto simp: FetchVisible_def bind_inv)
  show ?thesis
  proof (cases "from_seq > lg_max_seq ?l")
    case True
    with run max_seq empty_page_promise [OF True room] show ?thesis by (auto simp: FetchVisible_def)
  next
    case False
    let ?start = "\<lparr>pg_messages = [], pg_response_bytes = 0,
      pg_readable_channels = (\<lambda>i. if i \<in> set channels then Some True else None)\<rparr>"
    from run max_seq False obtain v next_seq where
      scan: "ScanMessages E s from_seq (lg_max_seq ?l) (max_scan_records E)
        (fetch_visitor E s prin limit only channels) ?start = (Inr next_seq, v)"
      and r: "r = \<lparr>fr_messages = pg_messages v, fr_last_seq = lg_max_seq ?l, fr_next_seq = next_seq\<rparr>"
      by (auto simp: FetchVisible_def bind_inv split: prod.splits)
    note spec = ScanMessages_spec [OF laws room scan]
    have start: "env_laws E \<and> cache_ok ?l prin (pg_readable_channels ?start)"
      using laws ValidateReadableChannels_cache [OF laws valid] by simp
    have range: "from_seq \<le> lg_max_seq ?l" using False by simp
    note page = fetch.page_result [of _ ?p, unfolded prod.case, OF spec start _ _ range room check_limit_sint(1) [OF lim],
      unfolded page.simps, OF refl refl]
    show ?thesis unfolding r
      using page(5,6) unfolding fetch.page_within_def fetch.page_end_def prod.case
      by (intro promise_of_page [OF lim page(1) page(2) page(3) page(4)]) simp_all
  qed
qed

lemma ListAllMessages_promise:
  assumes laws: "env_laws E" and lim: "check_limit limit = Inr u"
    and run: "ListAllMessages E s from_seq limit = Inr r"
    and room: "lg_max_seq (log_in E s) + 1 \<noteq> 0"
  shows "page_promise E (log_in E s) (\<lambda>_. True) from_seq limit r"
proof -
  let ?l = "log_in E s" and ?p = "(E, s, limit)"
  from run have max_seq: "GetMaxSeq E s = Inr (lg_max_seq ?l)"
    using counter_log(1) [OF laws] by (auto simp: ListAllMessages_def bind_inv)
  show ?thesis
  proof (cases "from_seq > lg_max_seq ?l")
    case True
    with run max_seq empty_page_promise [OF True room] show ?thesis by (auto simp: ListAllMessages_def)
  next
    case False
    let ?start = "\<lparr>pg_messages = [], pg_response_bytes = 0, pg_known_channels = {}\<rparr>"
    from run max_seq False obtain v next_seq where
      scan: "ScanMessages E s from_seq (lg_max_seq ?l) (max_scan_records E)
        (list_visitor E s limit) ?start = (Inr next_seq, v)"
      and r: "r = \<lparr>fr_messages = pg_messages v, fr_last_seq = lg_max_seq ?l, fr_next_seq = next_seq\<rparr>"
      by (auto simp: ListAllMessages_def bind_inv split: prod.splits)
    note spec = ScanMessages_spec [OF laws room scan]
    have range: "from_seq \<le> lg_max_seq ?l" using False by simp
    note page = list_all.page_result [of _ ?p, unfolded prod.case, OF spec TrueI _ _ range room
        check_limit_sint(1) [OF lim], unfolded page.simps, OF refl refl]
    show ?thesis unfolding r
      using page(5,6) unfolding list_all.page_within_def list_all.page_end_def prod.case
      by (intro promise_of_page [OF lim page(1) page(2) page(3) page(4)]) simp_all
  qed
qed

text \<open>The handlers read only: they leave the state as it is.\<close>

lemma Fetch_result:
  assumes laws: "env_laws E" and run: "Fetch E q c = (Inr r, c')" and room: "lg_max_seq (log_at E c) + 1 \<noteq> 0"
  shows "c' = c" and "\<not> fatal_error_triggered c" and "authentic (log_at E c) (fq_principal q) (fq_token q)"
    and "page_promise E (log_at E c)
      (wanted (log_at E c) (fq_principal q) (fq_only_my_recipient q) (fq_channels q)) (fq_from_seq q) (fq_limit q) r"
proof -
  from run show avail: "\<not> fatal_error_triggered c" by (auto simp: Fetch_def bind_inv)
  with run obtain s where lim: "check_limit (fq_limit q) = Inr ()" and snap: "CreateSnapshot E (d_db c) = Inr s"
    and auth: "Authenticate E s (fq_principal q) (fq_token q) = Inr ()"
    and valid: "ValidateReadableChannels E s (fq_principal q) (fq_channels q) = Inr ()"
    and visible: "FetchVisible E s (fq_principal q) (fq_from_seq q) (fq_limit q)
       (fq_only_my_recipient q) (fq_channels q) = Inr r" and "c' = c"
    by (auto simp: Fetch_def CreateLinearizedSnapshot_def bind_inv)
  show "c' = c" by fact
  have view: "snap_view E s = contents E c" by (rule CreateSnapshot_view [OF laws snap])
  from Authenticate_log [OF laws auth] show "authentic (log_at E c) (fq_principal q) (fq_token q)"
    by (simp add: view)
  from FetchVisible_promise [OF laws lim valid visible] room view
  show "page_promise E (log_at E c)
      (wanted (log_at E c) (fq_principal q) (fq_only_my_recipient q) (fq_channels q)) (fq_from_seq q) (fq_limit q) r"
    by simp
qed

lemma ListMessages_result:
  assumes laws: "env_laws E" and run: "ListMessages E from_seq limit c = (Inr r, c')"
    and room: "lg_max_seq (log_at E c) + 1 \<noteq> 0"
  shows "c' = c" and "page_promise E (log_at E c) (\<lambda>_. True) from_seq limit r"
proof -
  from run have avail: "\<not> fatal_error_triggered c" by (auto simp: ListMessages_def bind_inv)
  with run obtain s where lim: "check_limit limit = Inr ()" and snap: "CreateSnapshot E (d_db c) = Inr s"
    and all: "ListAllMessages E s from_seq limit = Inr r" and "c' = c"
    by (auto simp: ListMessages_def CreateLinearizedSnapshot_def bind_inv)
  show "c' = c" by fact
  from ListAllMessages_promise [OF laws lim all] room CreateSnapshot_view [OF laws snap]
  show "page_promise E (log_at E c) (\<lambda>_. True) from_seq limit r" by simp
qed

end
