(* ===== verification/Json_Text.thy ===== *)
theory Json_Text
  imports System_Messages
begin

text \<open>
  The payloads of the system messages as JSON texts. The server writes them by concatenation and reads them back
  through \<^verbatim>\<open>google::protobuf::util::JsonStringToMessage\<close>. What is relied on of that function is \<open>json_laws\<close>: the
  text of a small JSON document is read as the values it denotes, a number as the nearest double. It follows that
  the server accepts every system message it writes.
\<close>

section \<open>Text and numbers\<close>

text \<open>Well-formed UTF-8, which protobuf ensures for the strings of a message.\<close>

definition continuation :: "nat \<Rightarrow> nat \<Rightarrow> char \<Rightarrow> bool" where
  "continuation lo hi c \<longleftrightarrow> lo \<le> of_char c \<and> of_char c \<le> hi"

fun utf8 :: "string \<Rightarrow> bool" where
  "utf8 [] = True"
| "utf8 (a # r) =
     (let n = of_char a :: nat in
      if n < 0x80 then utf8 r
      else if 0xC2 \<le> n \<and> n \<le> 0xDF
      then (case r of b # r' \<Rightarrow> continuation 0x80 0xBF b \<and> utf8 r' | _ \<Rightarrow> False)
      else if 0xE0 \<le> n \<and> n \<le> 0xEF
      then (case r of b # c # r' \<Rightarrow>
          continuation (if n = 0xE0 then 0xA0 else 0x80) (if n = 0xED then 0x9F else 0xBF) b \<and>
          continuation 0x80 0xBF c \<and> utf8 r' | _ \<Rightarrow> False)
      else if 0xF0 \<le> n \<and> n \<le> 0xF4
      then (case r of b # c # d # r' \<Rightarrow>
          continuation (if n = 0xF0 then 0x90 else 0x80) (if n = 0xF4 then 0x8F else 0xBF) b \<and>
          continuation 0x80 0xBF c \<and> continuation 0x80 0xBF d \<and> utf8 r' | _ \<Rightarrow> False)
      else False)"

text \<open>The double nearest to a natural number, ties to even: a significand of 53 bits times a power of two.\<close>

fun excess_bits :: "nat \<Rightarrow> nat" where
  "excess_bits n = (if n < 2 ^ 53 then 0 else Suc (excess_bits (n div 2)))"

declare excess_bits.simps [simp del]

definition to_double :: "nat \<Rightarrow> rat" where
  "to_double n =
     (let unit = 2 ^ excess_bits n; q = n div unit; r = n mod unit
      in of_nat ((if 2 * r > unit \<or> 2 * r = unit \<and> odd q then q + 1 else q) * unit))"

lemma excess_bits_bound: "n < 2 ^ (53 + k) \<Longrightarrow> excess_bits n \<le> k"
proof (induction k arbitrary: n)
  case (Suc k)
  then have "n div 2 < 2 ^ (53 + k)" by (simp add: less_mult_imp_div_less power_add)
  with Suc.IH show ?case by (subst excess_bits.simps) simp
qed (simp add: excess_bits.simps)

lemma significand: "n div 2 ^ excess_bits n < 2 ^ 53 \<and> (0 < n \<longrightarrow> 0 < n div 2 ^ excess_bits n)"
proof (induction n rule: excess_bits.induct)
  case (1 n)
  show ?case
  proof (cases "n < 2 ^ 53")
    case True
    then show ?thesis by (simp add: excess_bits.simps)
  next
    case False
    then have "excess_bits n = Suc (excess_bits (n div 2))" by (subst excess_bits.simps) simp
    moreover have "n div 2 div 2 ^ excess_bits (n div 2) = n div 2 ^ Suc (excess_bits (n div 2))"
      by (simp add: div_mult2_eq)
    moreover have "0 < n div 2" using False by simp
    ultimately show ?thesis using 1 [OF False] by (simp only:) blast
  qed
qed

lemma to_double_principal:
  assumes "0 < n" and "n < 2 ^ 64"
  shows "is_principal (NumberValue (to_double n))"
proof -
  let ?u = "2 ^ excess_bits n :: nat"
  define m where "m = (if 2 * (n mod ?u) > ?u \<or> 2 * (n mod ?u) = ?u \<and> odd (n div ?u) then n div ?u + 1 else n div ?u)"
  have m: "0 < m" "m \<le> 2 ^ 53" using significand [of n] assms(1) by (auto simp: m_def)
  have "excess_bits n \<le> 11" using excess_bits_bound [of n 11] assms(2) by simp
  then have "?u \<le> 2 ^ 11" by (rule power_increasing) simp
  with m(2) have "m * ?u \<le> 2 ^ 53 * 2 ^ 11" by (rule mult_le_mono)
  then have "m * ?u \<le> 18446744073709551616" by simp
  then have "(of_nat (m * ?u) :: rat) \<le> 18446744073709551616" by (metis of_nat_le_iff of_nat_numeral)
  moreover have "to_double n = of_nat (m * ?u)" by (simp add: to_double_def Let_def m_def)
  moreover have "0 < m * ?u" using m(1) by simp
  ultimately show ?thesis by (simp add: is_principal_def del: of_nat_mult)
qed

lemma to_double_1 [simp]: "to_double 1 = 1" "to_double (Suc 0) = 1"
  by (simp_all add: to_double_def excess_bits.simps)

section \<open>Event documents\<close>

text \<open>A document with a kind and the fields of its data, each a string, a number or a list of numbers.\<close>

datatype json_field = TextField string | NumberField u64 | NumberList "u64 list"

fun field_text :: "json_field \<Rightarrow> string" where
  "field_text (TextField s) = JsonString s"
| "field_text (NumberField n) = to_string n"
| "field_text (NumberList ns) = ''['' @ join_members ns @ '']''"

fun field_value :: "json_field \<Rightarrow> json" where
  "field_value (TextField s) = StringValue s"
| "field_value (NumberField n) = NumberValue (to_double (unat n))"
| "field_value (NumberList ns) = ListValue (map (\<lambda>n. NumberValue (to_double (unat n))) ns)"

fun fields_text :: "(string \<times> json_field) list \<Rightarrow> string" where
  "fields_text [] = []"
| "fields_text [(k, f)] = JsonString k @ '':'' @ field_text f"
| "fields_text ((k, f) # fs) = JsonString k @ '':'' @ field_text f @ '','' @ fields_text fs"

definition event_text :: "string \<Rightarrow> (string \<times> json_field) list \<Rightarrow> string" where
  \<open>event_text kind flds = ''{"kind":'' @ JsonString kind @ '',"data":{'' @ fields_text flds @ ''}}''\<close>

fun field_utf8 :: "json_field \<Rightarrow> bool" where
  "field_utf8 (TextField s) = utf8 s"
| "field_utf8 _ = True"

definition json_laws :: "proto \<Rightarrow> bool" where
  "json_laws P \<longleftrightarrow> (\<forall>kind flds. utf8 kind \<and> distinct (map fst flds) \<and> list_all (\<lambda>(k, f). utf8 k \<and> field_utf8 f) flds \<longrightarrow>
     JsonStringToMessage P (event_text kind flds) =
       Some [(''kind'', StringValue kind), (''data'', StructValue (map (\<lambda>(k, f). (k, field_value f)) flds))])"

lemma json_lawsD:
  "json_laws P \<Longrightarrow> utf8 kind \<Longrightarrow> distinct (map fst flds) \<Longrightarrow> list_all (\<lambda>(k, f). utf8 k \<and> field_utf8 f) flds \<Longrightarrow>
   JsonStringToMessage P (event_text kind flds) =
     Some [(''kind'', StringValue kind), (''data'', StructValue (map (\<lambda>(k, f). (k, field_value f)) flds))]"
  by (simp add: json_laws_def)

section \<open>The payloads of the server\<close>

lemma to_string_1: "to_string 1 = ''1''"
  by (simp add: to_string_def dec_digits.simps [of "Suc 0"] char_of_def bit_0)

lemma InitializationMessage_text:
  "msg_payload (InitializationMessage ms) = event_text ''system.initialization'' [(''schema_version'', NumberField 1)]"
  by (simp add: InitializationMessage_def event_text_def JsonString_def JsonChar_def to_string_1)

lemma MemberChangedPayload_text:
  assumes "kind \<in> {''system.member_added'', ''system.member_removed''}"
  shows "MemberChangedPayload kind m = event_text kind [(''schema_version'', NumberField 1), (''member'', NumberField m)]"
proof -
  have "JsonString kind = [CHR 0x22] @ kind @ [CHR 0x22]" using assms by (auto simp: JsonString_def JsonChar_def)
  then show ?thesis
    by (simp add: MemberChangedPayload_def event_text_def to_string_1)
      (simp add: JsonString_def JsonChar_def)
qed

definition channel_fields :: "channel_info \<Rightarrow> (string \<times> json_field) list" where
  "channel_fields channel = [(''schema_version'', NumberField 1), (''name'', TextField (ch_name channel)),
     (''protocol'', TextField (ch_protocol channel)), (''description'', TextField (ch_description channel)),
     (''visibility'', TextField (visibility_name (ch_visibility channel))),
     (''creator'', NumberField (creator_value channel)), (''members'', NumberList (ch_members channel))]"

lemma visibility_name_plain:
  "JsonString (visibility_name v) = [CHR 0x22] @ visibility_name v @ [CHR 0x22]" "utf8 (visibility_name v)"
  by (simp_all add: visibility_name_def JsonString_def JsonChar_def)

lemma ChannelInitializedPayload_text:
  "ChannelInitializedPayload channel = event_text ''system.channel_initialized'' (channel_fields channel)"
proof -
  have keys: \<open>JsonString ''schema_version'' = ''"schema_version"''\<close> \<open>JsonString ''name'' = ''"name"''\<close>
    \<open>JsonString ''protocol'' = ''"protocol"''\<close> \<open>JsonString ''description'' = ''"description"''\<close>
    \<open>JsonString ''visibility'' = ''"visibility"''\<close> \<open>JsonString ''creator'' = ''"creator"''\<close>
    \<open>JsonString ''members'' = ''"members"''\<close>
    \<open>JsonString ''system.channel_initialized'' = ''"system.channel_initialized"''\<close>
    by (simp_all add: JsonString_def JsonChar_def)
  show ?thesis
    by (simp add: ChannelInitializedPayload_def event_text_def channel_fields_def keys to_string_1 visibility_name_plain)
qed

section \<open>The server accepts them\<close>

lemma InitializationMessage_valid:
  assumes "json_laws P"
  shows "ValidInitializationMessage P (InitializationMessage ms)"
  using json_lawsD [OF assms, of "''system.initialization''" "[(''schema_version'', NumberField 1)]"]
  by (simp add: ValidInitializationMessage_def InitializationMessage_text)
    (simp add: InitializationMessage_def empty_message_def has_schema_1_def)

lemma unat_principal: "m \<noteq> 0 \<Longrightarrow> is_principal (NumberValue (to_double (unat (m :: u64))))"
  using to_double_principal [of "unat m"] unsigned_less [where ?'a = nat, of m] by (simp add: unat_gt_0)

lemma member_event_valid:
  assumes "json_laws P" and "kind \<in> {''system.member_added'', ''system.member_removed''}" and "m \<noteq> 0"
    and "msg_recipients msg = []" and "msg_object_keys msg = []" and "msg_payload msg = MemberChangedPayload kind m"
  shows "ValidChannelSystemMessage P msg"
proof -
  have "utf8 kind" using assms(2) by auto
  with json_lawsD [OF assms(1), of kind "[(''schema_version'', NumberField 1), (''member'', NumberField m)]"]
  show ?thesis using assms(2-) unat_principal [OF assms(3)]
    by (auto simp: ValidChannelSystemMessage_def MemberChangedPayload_text has_schema_1_def valid_channel_event_def)
qed

lemma channel_event_valid:
  assumes "json_laws P" and "utf8 (ch_name ch)" and "utf8 (ch_protocol ch)" and "utf8 (ch_description ch)"
    and "ch_creator ch = Some p" and "p \<noteq> 0" and "ch_members ch \<noteq> []" and "0 \<notin> set (ch_members ch)"
    and "msg_recipients msg = []" and "msg_object_keys msg = []" and "msg_payload msg = ChannelInitializedPayload ch"
  shows "ValidChannelSystemMessage P msg"
proof -
  have parse: "JsonStringToMessage P (msg_payload msg) = Some [(''kind'', StringValue ''system.channel_initialized''),
      (''data'', StructValue (map (\<lambda>(k, f). (k, field_value f)) (channel_fields ch)))]"
    unfolding assms(11) ChannelInitializedPayload_text
    using assms(2-4) by (intro json_lawsD [OF assms(1)]) (simp_all add: channel_fields_def visibility_name_plain)
  have "visibility_name (ch_visibility ch) \<in> {''public'', ''protected'', ''private''}" by (simp add: visibility_name_def)
  moreover have "list_all is_principal (map (\<lambda>n. NumberValue (to_double (unat n))) (ch_members ch))"
    using assms(8) unat_principal unfolding list_all_iff by (metis (mono_tags, lifting) imageE set_map)
  moreover have "is_principal (NumberValue (to_double (unat p)))" by (rule unat_principal [OF assms(6)])
  ultimately show ?thesis
    using parse assms(5,7,9,10)
    by (auto simp: ValidChannelSystemMessage_def has_schema_1_def valid_channel_event_def channel_fields_def
        is_string_field_def creator_value_def)
qed

end
