(* ===== verification/Reference_Json.thy ===== *)
theory Reference_Json
  imports Json_Text
begin

text \<open>
  A reader of event documents that satisfies \<open>json_laws\<close>, for the reference environment: strings with escapes, numbers
  and lists of numbers are read from the front of a text.
\<close>

section \<open>Strings\<close>

definition hex_value :: "char \<Rightarrow> nat" where
  "hex_value c = (if of_char c \<le> (57 :: nat) then of_char c - 48 else of_char c - 87)"

fun unescape :: "string \<Rightarrow> (string \<times> string) option" where
  "unescape [] = None"
| "unescape (c # r) =
     (if c = CHR 0x22 then Some ([], r)
      else if c = CHR 0x5C
      then (case r of
          d # r1 \<Rightarrow>
            if d = CHR ''u''
            then (case r1 of _ # _ # x # y # r2 \<Rightarrow>
                  map_option (apfst (Cons (char_of (16 * hex_value x + hex_value y)))) (unescape r2) | _ \<Rightarrow> None)
            else map_option (apfst (Cons d)) (unescape r1)
        | [] \<Rightarrow> None)
      else map_option (apfst (Cons c)) (unescape r))"

lemma hex_value_digit: "k < 16 \<Longrightarrow> hex_value (kHex ! k) = k"
proof -
  have "\<forall>k \<in> set [0..<16]. hex_value (kHex ! k) = k" by (simp add: upt_rec hex_value_def kHex_def)
  then show "k < 16 \<Longrightarrow> hex_value (kHex ! k) = k" by simp
qed

lemma unescape_JsonChar: "unescape (JsonChar c @ r) = map_option (apfst (Cons c)) (unescape r)"
proof -
  let ?n = "of_char c :: nat"
  have "16 * hex_value (kHex ! (?n div 16)) + hex_value (kHex ! (?n mod 16)) = ?n" if "?n < 32"
    using that by (simp add: hex_value_digit)
  moreover have "char_of ?n = c" by simp
  ultimately show ?thesis by (simp add: JsonChar_def Let_def)
qed

definition get_string :: "string \<Rightarrow> (string \<times> string) option" where
  "get_string s = (case s of c # r \<Rightarrow> if c = CHR 0x22 then unescape r else None | [] \<Rightarrow> None)"

lemma get_string_JsonString [simp]: "get_string (JsonString v @ r) = Some (v, r)"
proof -
  have "unescape (concat (map JsonChar v) @ CHR 0x22 # r) = Some (v, r)"
    by (induction v) (simp_all add: unescape_JsonChar)
  then show ?thesis by (simp add: get_string_def JsonString_def)
qed

section \<open>Numbers\<close>

definition is_digit :: "char \<Rightarrow> bool" where
  "is_digit c \<longleftrightarrow> 48 \<le> (of_char c :: nat) \<and> (of_char c :: nat) \<le> 57"

definition follows :: "string \<Rightarrow> bool" where
  "follows r \<longleftrightarrow> (case r of [] \<Rightarrow> True | c # _ \<Rightarrow> \<not> is_digit c)"

definition get_number :: "string \<Rightarrow> (nat \<times> string) option" where
  "get_number s = (if takeWhile is_digit s = [] then None
     else Some (dec_value (takeWhile is_digit s), dropWhile is_digit s))"

lemma get_number_to_string [simp]: "follows r \<Longrightarrow> get_number (to_string n @ r) = Some (unat n, r)"
proof -
  assume r: "follows r"
  have d: "\<forall>c \<in> set (to_string n). is_digit c" using dec_digits_chars by (auto simp: to_string_def is_digit_def)
  have "takeWhile is_digit (to_string n @ r) = to_string n" "dropWhile is_digit (to_string n @ r) = r"
    using d r by (auto simp: takeWhile_append dropWhile_append follows_def split: list.splits)
  then show ?thesis by (simp add: get_number_def) (simp add: to_string_def)
qed

primrec get_numbers :: "nat \<Rightarrow> string \<Rightarrow> (nat list \<times> string) option" where
  "get_numbers 0 s = None"
| "get_numbers (Suc n) s =
     (case get_number s of
        Some (v, c # r) \<Rightarrow>
          if c = CHR '','' then map_option (apfst (Cons v)) (get_numbers n r)
          else if c = CHR '']'' then Some ([v], r) else None
      | _ \<Rightarrow> None)"

lemma get_numbers_join:
  "ms \<noteq> [] \<Longrightarrow> length ms \<le> n \<Longrightarrow> get_numbers n (join_members ms @ CHR '']'' # r) = Some (map unat ms, r)"
proof (induction ms arbitrary: n rule: join_members.induct)
  case (2 m)
  then show ?case by (cases n) (simp_all add: follows_def is_digit_def)
next
  case (3 m v ms)
  then obtain k where n: "n = Suc k" "length (v # ms) \<le> k" by (cases n) auto
  with "3.IH" show ?case by (simp add: follows_def is_digit_def)
qed simp

section \<open>Fields and documents\<close>

definition get_field :: "string \<Rightarrow> (json \<times> string) option" where
  "get_field s = (case s of
       [] \<Rightarrow> None
     | c # r \<Rightarrow>
         if c = CHR 0x22 then map_option (apfst StringValue) (get_string s)
         else if c = CHR ''[''
         then (if take 1 r = '']'' then Some (ListValue [], drop 1 r)
               else map_option (apfst (\<lambda>ns. ListValue (map (\<lambda>n. NumberValue (to_double n)) ns))) (get_numbers (length r) r))
         else map_option (apfst (\<lambda>n. NumberValue (to_double n))) (get_number s))"

lemma join_members_length: "length ms \<le> length (join_members ms)"
proof (induction ms rule: join_members.induct)
  case (2 m)
  have "0 < length (to_string m)" by (simp add: to_string_def)
  then show ?case by (simp add: Suc_le_eq del: length_greater_0_conv)
qed simp_all

lemma to_string_starts: "\<exists>c r. to_string n = c # r \<and> is_digit c"
  using dec_digits_chars [of "hd (to_string n)" "unat n"]
  by (cases "to_string n") (simp_all add: to_string_def is_digit_def)

lemma join_members_starts: "ms \<noteq> [] \<Longrightarrow> \<exists>c r. join_members ms = c # r \<and> is_digit c"
  using to_string_starts [of "hd ms"] by (cases ms rule: join_members.cases) auto

lemma get_field_text [simp]: "follows r \<Longrightarrow> get_field (field_text f @ r) = Some (field_value f, r)"
proof (cases f)
  case (TextField s)
  have "get_string (CHR 0x22 # concat (map JsonChar s) @ CHR 0x22 # r) = Some (s, r)"
    using get_string_JsonString [of s r] by (simp add: JsonString_def)
  with TextField show ?thesis by (simp add: get_field_def JsonString_def)
next
  case (NumberField n)
  assume "follows r"
  moreover obtain c s where c: "to_string n = c # s" "is_digit c" using to_string_starts by blast
  moreover have "c \<noteq> CHR 0x22" "c \<noteq> CHR ''[''" using c(2) by (auto simp: is_digit_def)
  ultimately show ?thesis using NumberField get_number_to_string [of r n] by (simp add: get_field_def)
next
  case (NumberList ns)
  show ?thesis
  proof (cases "ns = []")
    case False
    obtain c s where c: "join_members ns = c # s" "is_digit c" using join_members_starts [OF False] by blast
    have "length ns \<le> length (join_members ns @ CHR '']'' # r)" using join_members_length [of ns] by simp
    from get_numbers_join [OF False this, of r] c False NumberList show ?thesis
      by (auto simp: get_field_def is_digit_def)
  qed (use NumberList in \<open>simp add: get_field_def\<close>)
qed

primrec get_fields :: "nat \<Rightarrow> string \<Rightarrow> ((string \<times> json) list \<times> string) option" where
  "get_fields 0 s = None"
| "get_fields (Suc n) s =
     (case get_string s of
        Some (k, c # r) \<Rightarrow>
          if c \<noteq> CHR '':'' then None
          else (case get_field r of
              Some (v, d # r1) \<Rightarrow>
                if d = CHR '','' then map_option (apfst (Cons (k, v))) (get_fields n r1)
                else if d = CHR ''}'' then Some ([(k, v)], r1) else None
            | _ \<Rightarrow> None)
      | _ \<Rightarrow> None)"

lemma get_fields_text:
  "fs \<noteq> [] \<Longrightarrow> length fs \<le> n \<Longrightarrow>
   get_fields n (fields_text fs @ CHR ''}'' # r) = Some (map (\<lambda>(k, f). (k, field_value f)) fs, r)"
proof (induction fs arbitrary: n rule: fields_text.induct)
  case (2 k f)
  then show ?case by (cases n) (simp_all add: follows_def is_digit_def)
next
  case (3 k f v fs)
  then obtain j where n: "n = Suc j" "length (v # fs) \<le> j" by (cases n) auto
  with "3.IH" show ?case by (simp add: follows_def is_digit_def)
qed simp

lemma fields_text_length: "length fs \<le> length (fields_text fs)"
  by (induction fs rule: fields_text.induct) (simp_all add: JsonString_def)

definition expect :: "string \<Rightarrow> string \<Rightarrow> string option" where
  "expect p s = (if prefix p s then Some (drop (length p) s) else None)"

lemma expect_append [simp]: "expect p (p @ s) = Some s"
  by (simp add: expect_def)

definition get_event :: "string \<Rightarrow> (string \<times> json) list option" where
  \<open>get_event s =
     Option.bind (expect ''{"kind":'' s) (\<lambda>s1.
     Option.bind (get_string s1) (\<lambda>(kind, s2).
     Option.bind (expect '',"data":{'' s2) (\<lambda>s3.
     Option.bind (if take 1 s3 = ''}'' then Some ([], drop 1 s3) else get_fields (length s3) s3) (\<lambda>(fs, s4).
     if s4 = ''}'' then Some [(''kind'', StringValue kind), (''data'', StructValue fs)] else None))))\<close>

lemma get_event_text:
  "get_event (event_text kind fs) =
     Some [(''kind'', StringValue kind), (''data'', StructValue (map (\<lambda>(k, f). (k, field_value f)) fs))]"
proof -
  have "(if take 1 (fields_text fs @ ''}}'') = ''}'' then Some ([], drop 1 (fields_text fs @ ''}}''))
      else get_fields (length (fields_text fs @ ''}}'')) (fields_text fs @ ''}}'')) =
    Some (map (\<lambda>(k, f). (k, field_value f)) fs, ''}'')"
  proof (cases "fs = []")
    case False
    then obtain s where "fields_text fs = CHR 0x22 # s"
      by (cases fs rule: fields_text.cases) (auto simp: JsonString_def)
    moreover have "length fs \<le> length (fields_text fs @ ''}}'')" using fields_text_length [of fs] by simp
    from get_fields_text [OF False this] have
      "get_fields (length (fields_text fs @ ''}}'')) (fields_text fs @ ''}}'') = Some (map (\<lambda>(k, f). (k, field_value f)) fs, ''}'')"
      by simp
    ultimately show ?thesis by simp
  qed simp
  then show ?thesis
    unfolding get_event_def event_text_def expect_append Option.bind.simps(2) get_string_JsonString prod.case
    by simp
qed

end
