(* ===== verification/Reference_Env.thy ===== *)
theory Reference_Env
  imports Core_Base Reference_Json
begin

text \<open>
  An environment in which everything the development relies on holds: a database kept as an association
  list, length-prefixed encodings in place of protobuf, and a directory of files in memory. It shows
  that the laws of the three libraries are consistent, and the witnesses of the properties run the model
  in it. It models no part of the sources.
\<close>

section \<open>Database\<close>

type_synonym ref_db = "((cf \<times> bytes) \<times> bytes) list"

definition ref_ok :: rocks_status where
  "ref_ok = \<lparr>rs_code = rocksOk, rs_subcode = 0, rs_severity = 0, rs_state = []\<rparr>"

definition ref_missing :: rocks_status where
  "ref_missing = \<lparr>rs_code = rocksNotFound, rs_subcode = 0, rs_severity = 0, rs_state = []\<rparr>"

definition ref_lookup :: "ref_db \<Rightarrow> cf \<times> bytes \<Rightarrow> rocks_status \<times> bytes" where
  "ref_lookup s k = (case map_of s k of None \<Rightarrow> (ref_missing, []) | Some v \<Rightarrow> (ref_ok, v))"

definition ref_keys :: "ref_db \<Rightarrow> cf \<Rightarrow> bytes list" where
  "ref_keys s c = sort (remdups (map (\<lambda>e. snd (fst e)) (filter (\<lambda>e. fst (fst e) = c) s)))"

definition ref_entries :: "ref_db \<Rightarrow> cf \<Rightarrow> bytes \<Rightarrow> (bytes \<times> bytes) list" where
  "ref_entries s c k = map (\<lambda>k'. (k', the (map_of s (c, k')))) (filter (\<lambda>k'. k \<le> k') (ref_keys s c))"

primrec ref_write :: "write_op \<Rightarrow> ref_db \<Rightarrow> ref_db" where
  "ref_write (Put c k v) s = ((c, k), v) # s"
| "ref_write (Delete c k) s = filter (\<lambda>e. fst e \<noteq> (c, k)) s"

definition ref_rocks :: "(ref_db, ref_db) rocksdb" where
  "ref_rocks = \<lparr>db_GetSnapshot = Some, db_Latest = (\<lambda>s. s), db_Get = (\<lambda>s c k. ref_lookup s (c, k)),
     db_MultiGet = (\<lambda>s ks. map (ref_lookup s) ks), db_Iterate = (\<lambda>s c k. (ref_entries s c k, ref_ok)),
     db_Write = (\<lambda>s b. (ref_ok, fold ref_write b s)), status_ToString = (\<lambda>_. ''error''),
     db_contents = map_of, snap_contents = map_of\<rparr>"

lemma ref_status [simp]: "rocks_ok ref_ok" "\<not> rocks_not_found ref_ok" "rocks_not_found ref_missing" "\<not> rocks_ok ref_missing"
  by (simp_all add: rocks_ok_def rocks_not_found_def ref_ok_def ref_missing_def)

lemma read_agrees_ref: "read_agrees (map_of s k) (ref_lookup s k)"
  by (simp add: read_agrees_def ref_lookup_def split: option.split)

lemma map_of_filter_key: "map_of (filter (\<lambda>e. fst e \<noteq> k) s) = (map_of s)(k := None)"
  by (induction s) (auto simp: fun_eq_iff)

lemma ref_write_contents: "map_of (fold ref_write b s) = apply_batch b (map_of s)"
proof (induction b arbitrary: s)
  case (Cons w b)
  then show ?case by (cases w) (simp_all add: map_of_filter_key fun_upd_def)
qed simp

lemma ref_keys_set: "k \<in> set (ref_keys s c) \<longleftrightarrow> map_of s (c, k) \<noteq> None"
  by (force simp: ref_keys_def map_of_eq_None_iff image_iff)

lemma ref_keys_sorted: "sorted_wrt (<) (ref_keys s c)"
  by (simp add: ref_keys_def strict_sorted_iff)

lemma ref_entries_set: "(k', v) \<in> set (ref_entries s c k) \<longleftrightarrow> map_of s (c, k') = Some v \<and> k \<le> k'"
  by (auto simp: ref_entries_def ref_keys_set)

lemma ref_entries_sorted: "sorted_wrt (<) (map fst (ref_entries s c k))"
  by (simp add: ref_entries_def comp_def sorted_wrt_filter ref_keys_sorted)

lemma ref_rocks_laws: "rocks_laws ref_rocks"
  unfolding rocks_laws_def ref_rocks_def
  by (simp add: read_agrees_ref ref_entries_sorted ref_entries_set ref_write_contents list_all2_conv_all_nth)

section \<open>Encodings\<close>

text \<open>A parser takes bytes off the front; an encoding is parsed back whatever follows it.\<close>

type_synonym 'a parser = "bytes \<Rightarrow> ('a \<times> bytes) option"

definition parses :: "'a parser \<Rightarrow> ('a \<Rightarrow> bytes) \<Rightarrow> 'a \<Rightarrow> bool" where
  "parses g e a \<longleftrightarrow> (\<forall>r. g (e a @ r) = Some (a, r))"

definition bindP :: "'a parser \<Rightarrow> ('a \<Rightarrow> 'b parser) \<Rightarrow> 'b parser" where
  "bindP g f b = (case g b of None \<Rightarrow> None | Some (a, r) \<Rightarrow> f a r)"

definition get_u64 :: "u64 parser" where
  "get_u64 b = (if length b < 8 then None else Some (DecodeUint64 (take 8 b), drop 8 b))"

definition put_bytes :: "bytes \<Rightarrow> bytes" where
  "put_bytes s = EncodeUint64 (of_nat (length s)) @ s"

definition get_bytes :: "bytes parser" where
  "get_bytes = bindP get_u64 (\<lambda>n b.
     if length b < unat n then None else Some (take (unat n) b, drop (unat n) b))"

definition put_list :: "('a \<Rightarrow> bytes) \<Rightarrow> 'a list \<Rightarrow> bytes" where
  "put_list e xs = EncodeUint64 (of_nat (length xs)) @ concat (map e xs)"

primrec get_n :: "'a parser \<Rightarrow> nat \<Rightarrow> 'a list parser" where
  "get_n g 0 b = Some ([], b)"
| "get_n g (Suc n) b =
     (case g b of None \<Rightarrow> None
      | Some (x, r) \<Rightarrow> (case get_n g n r of None \<Rightarrow> None | Some (xs, r') \<Rightarrow> Some (x # xs, r')))"

definition get_list :: "'a parser \<Rightarrow> 'a list parser" where
  "get_list g = bindP get_u64 (\<lambda>n. get_n g (unat n))"

definition fits :: "'a list \<Rightarrow> bool" where
  "fits xs \<longleftrightarrow> length xs < 2 ^ 64"

lemma get_u64_put [simp]: "get_u64 (EncodeUint64 v @ r) = Some (v, r)"
  by (simp add: get_u64_def be64.dec_enc)

lemma get_bytes_put [simp]: "fits s \<Longrightarrow> get_bytes (put_bytes s @ r) = Some (s, r)"
  by (simp add: get_bytes_def put_bytes_def bindP_def fits_def unat_of_nat_u64)

lemma get_n_put: "(\<And>x r. x \<in> set xs \<Longrightarrow> g (e x @ r) = Some (x, r)) \<Longrightarrow>
    get_n g (length xs) (concat (map e xs) @ r) = Some (xs, r)"
  by (induction xs) simp_all

lemma get_list_put [simp]:
  "fits xs \<Longrightarrow> (\<And>x r. x \<in> set xs \<Longrightarrow> g (e x @ r) = Some (x, r)) \<Longrightarrow> get_list g (put_list e xs @ r) = Some (xs, r)"
  by (simp add: get_list_def put_list_def bindP_def fits_def unat_of_nat_u64 get_n_put)

lemma bindP_step [simp]: "g b = Some (a, r) \<Longrightarrow> bindP g f b = f a r"
  by (simp add: bindP_def)

definition retP :: "'a \<Rightarrow> 'a parser" where "retP a b = Some (a, b)"

lemma retP_simp [simp]: "retP a b = Some (a, b)"
  by (simp add: retP_def)

section \<open>Messages, channels, object records\<close>

definition put_key :: "object_key \<Rightarrow> bytes" where
  "put_key k = EncodeUint64 (ok_object_id k) @ put_bytes (ok_object_token k)"

definition get_key :: "object_key parser" where
  "get_key = bindP get_u64 (\<lambda>i. bindP get_bytes (\<lambda>t. retP \<lparr>ok_object_id = i, ok_object_token = t\<rparr>))"

lemma get_key_put [simp]: "fits (ok_object_token k) \<Longrightarrow> get_key (put_key k @ r) = Some (k, r)"
  by (simp add: get_key_def put_key_def)

definition put_message :: "event_message \<Rightarrow> bytes" where
  "put_message m = EncodeUint64 (msg_seq m) @ EncodeUint64 (msg_channel_id m) @ EncodeUint64 (msg_principal m) @
     put_list EncodeUint64 (msg_recipients m) @ put_bytes (msg_payload m) @ EncodeUint64 (msg_ts_ms m) @
     EncodeUint64 (msg_uuid m) @ put_list put_key (msg_object_keys m)"

definition get_message :: "event_message parser" where
  "get_message = bindP get_u64 (\<lambda>s. bindP get_u64 (\<lambda>ch. bindP get_u64 (\<lambda>p. bindP (get_list get_u64) (\<lambda>rs.
     bindP get_bytes (\<lambda>d. bindP get_u64 (\<lambda>t. bindP get_u64 (\<lambda>u. bindP (get_list get_key) (\<lambda>ks.
     retP \<lparr>msg_seq = s, msg_channel_id = ch, msg_principal = p, msg_recipients = rs, msg_payload = d,
       msg_ts_ms = t, msg_uuid = u, msg_object_keys = ks\<rparr>))))))))"

definition message_fits :: "event_message \<Rightarrow> bool" where
  "message_fits m \<longleftrightarrow> fits (msg_recipients m) \<and> fits (msg_payload m) \<and> fits (msg_object_keys m) \<and>
     list_all (\<lambda>k. fits (ok_object_token k)) (msg_object_keys m)"

lemma get_message_put: "message_fits m \<Longrightarrow> get_message (put_message m @ r) = Some (m, r)"
  by (simp add: get_message_def put_message_def message_fits_def list_all_iff)

definition visibility_number :: "visibility \<Rightarrow> u64" where
  "visibility_number v = (case v of VISIBILITY_PUBLIC \<Rightarrow> 1 | VISIBILITY_PROTECTED \<Rightarrow> 2
     | VISIBILITY_PRIVATE \<Rightarrow> 3 | VISIBILITY_VALUE n \<Rightarrow> of_nat (n + 4))"

definition number_visibility :: "u64 \<Rightarrow> visibility" where
  "number_visibility n = (if n = 1 then VISIBILITY_PUBLIC else if n = 2 then VISIBILITY_PROTECTED
     else if n = 3 then VISIBILITY_PRIVATE else VISIBILITY_VALUE (unat n - 4))"

definition visibility_fits :: "visibility \<Rightarrow> bool" where
  "visibility_fits v = (case v of VISIBILITY_VALUE n \<Rightarrow> n + 4 < 2 ^ 64 | _ \<Rightarrow> True)"

lemma number_visibility_number [simp]: "visibility_fits v \<Longrightarrow> number_visibility (visibility_number v) = v"
proof (cases v)
  case (VISIBILITY_VALUE n)
  assume "visibility_fits v"
  with VISIBILITY_VALUE have "unat (of_nat (n + 4) :: u64) = n + 4"
    by (intro unat_of_nat_u64) (simp add: visibility_fits_def)
  with VISIBILITY_VALUE show ?thesis
    by (auto simp: number_visibility_def visibility_number_def word_unat_eq_iff simp del: of_nat_add)
qed (simp_all add: number_visibility_def visibility_number_def)

definition put_channel :: "channel_info \<Rightarrow> bytes" where
  "put_channel c = EncodeUint64 (ch_channel_id c) @ put_bytes (ch_name c) @
     EncodeUint64 (visibility_number (ch_visibility c)) @ put_bytes (ch_protocol c) @
     put_bytes (ch_description c) @ put_list EncodeUint64 (case ch_creator c of None \<Rightarrow> [] | Some p \<Rightarrow> [p]) @
     put_list EncodeUint64 (ch_members c)"

definition get_channel :: "channel_info parser" where
  "get_channel = bindP get_u64 (\<lambda>i. bindP get_bytes (\<lambda>n. bindP get_u64 (\<lambda>v. bindP get_bytes (\<lambda>p.
     bindP get_bytes (\<lambda>d. bindP (get_list get_u64) (\<lambda>cr. bindP (get_list get_u64) (\<lambda>ms.
     retP \<lparr>ch_channel_id = i, ch_name = n, ch_visibility = number_visibility v, ch_protocol = p,
       ch_description = d, ch_creator = (case cr of [] \<Rightarrow> None | x # _ \<Rightarrow> Some x), ch_members = ms\<rparr>)))))))"

definition channel_fits :: "channel_info \<Rightarrow> bool" where
  "channel_fits c \<longleftrightarrow> fits (ch_name c) \<and> fits (ch_protocol c) \<and> fits (ch_description c) \<and>
     fits (ch_members c) \<and> visibility_fits (ch_visibility c)"

lemma get_channel_put: "channel_fits c \<Longrightarrow> get_channel (put_channel c @ r) = Some (c, r)"
proof -
  assume "channel_fits c"
  moreover have "fits (case ch_creator c of None \<Rightarrow> [] | Some p \<Rightarrow> [p])" by (simp add: fits_def split: option.split)
  moreover have "(case (case ch_creator c of None \<Rightarrow> [] | Some p \<Rightarrow> [p]) of [] \<Rightarrow> None | x # _ \<Rightarrow> Some x) = ch_creator c"
    by (simp split: option.split)
  ultimately show ?thesis by (simp add: get_channel_def put_channel_def channel_fits_def)
qed

definition put_record :: "object_record \<Rightarrow> bytes" where
  "put_record o' = EncodeUint64 (rec_object_id o') @ put_bytes (rec_object_token o') @
     EncodeUint64 (rec_creator_principal o') @ put_bytes (rec_name o') @ put_bytes (rec_type o') @
     put_bytes (rec_description o') @ EncodeUint64 (rec_nbytes o')"

definition get_record :: "object_record parser" where
  "get_record = bindP get_u64 (\<lambda>i. bindP get_bytes (\<lambda>t. bindP get_u64 (\<lambda>p. bindP get_bytes (\<lambda>n.
     bindP get_bytes (\<lambda>ty. bindP get_bytes (\<lambda>d. bindP get_u64 (\<lambda>s.
     retP \<lparr>rec_object_id = i, rec_object_token = t, rec_creator_principal = p, rec_name = n, rec_type = ty,
       rec_description = d, rec_nbytes = s\<rparr>)))))))"

definition record_fits :: "object_record \<Rightarrow> bool" where
  "record_fits o' \<longleftrightarrow> fits (rec_object_token o') \<and> fits (rec_name o') \<and> fits (rec_type o') \<and> fits (rec_description o')"

lemma get_record_put: "record_fits o' \<Longrightarrow> get_record (put_record o' @ r) = Some (o', r)"
  by (simp add: get_record_def put_record_def record_fits_def)

text \<open>Serialization of a value that is not too large, and parsing of exactly one encoding.\<close>

definition whole :: "'a parser \<Rightarrow> bytes \<Rightarrow> 'a option" where
  "whole g b = (case g b of Some (a, []) \<Rightarrow> Some a | _ \<Rightarrow> None)"

definition ref_proto :: proto where
  "ref_proto = \<lparr>message_SerializeToString = (\<lambda>m. if message_fits m then Some (put_message m) else None),
     message_ParseFromString = whole get_message,
     message_ByteSizeLong = (\<lambda>m. of_nat (length (put_message m))),
     channel_SerializeToString = (\<lambda>c. if channel_fits c then Some (put_channel c) else None),
     channel_ParseFromString = whole get_channel,
     record_SerializeToString = (\<lambda>r. if record_fits r then Some (put_record r) else None),
     record_ParseFromString = whole get_record,
     Visibility_IsValid = (\<lambda>v. v \<in> {VISIBILITY_PUBLIC, VISIBILITY_PROTECTED, VISIBILITY_PRIVATE}),
     JsonStringToMessage = get_event\<rparr>"

lemma whole_put:
  "message_fits m \<Longrightarrow> whole get_message (put_message m) = Some m"
  "channel_fits c \<Longrightarrow> whole get_channel (put_channel c) = Some c"
  "record_fits r \<Longrightarrow> whole get_record (put_record r) = Some r"
  using get_message_put [of m "[]"] get_channel_put [of c "[]"] get_record_put [of r "[]"]
  by (simp_all add: whole_def)

lemma ref_proto_laws: "proto_laws ref_proto"
  by (auto simp: proto_laws_def ref_proto_def whole_put split: if_splits)

lemma ref_json_laws: "json_laws ref_proto"
  by (simp add: json_laws_def ref_proto_def get_event_text)

section \<open>Operating system\<close>

record ref_os =
  ro_dir :: "string \<rightharpoonup> dir_entry"
  ro_fds :: "nat \<rightharpoonup> string"
  ro_next :: nat

definition ref_file :: "ref_os \<Rightarrow> nat \<Rightarrow> (string \<times> bytes) option" where
  "ref_file os fd = (case ro_fds os fd of None \<Rightarrow> None
     | Some n \<Rightarrow> (case ro_dir os n of Some (RegularFile d) \<Rightarrow> Some (n, d) | _ \<Rightarrow> None))"

definition ref_open :: "ref_os \<Rightarrow> string \<Rightarrow> nat \<times> ref_os" where
  "ref_open os n = (ro_next os, os\<lparr>ro_fds := (ro_fds os)(ro_next os \<mapsto> n), ro_next := Suc (ro_next os)\<rparr>)"

definition ref_posix :: "ref_os posix" where
  "ref_posix = \<lparr>
     os_openat_create = (\<lambda>os n. if ro_dir os n \<noteq> None then (Inl EEXIST, os)
       else (case ref_open os n of (fd, os') \<Rightarrow> (Inr fd, os'\<lparr>ro_dir := (ro_dir os')(n \<mapsto> RegularFile [])\<rparr>))),
     os_openat_read = (\<lambda>os n. if ro_dir os n = None then (Inl ENOENT, os)
       else (case ref_open os n of (fd, os') \<Rightarrow> (Inr fd, os'))),
     os_write = (\<lambda>os fd bs. case ref_file os fd of None \<Rightarrow> (Inl (Errno 9), os)
       | Some (n, d) \<Rightarrow> (Inr (length bs), os\<lparr>ro_dir := (ro_dir os)(n \<mapsto> RegularFile (d @ bs))\<rparr>)),
     os_pread = (\<lambda>os fd count off. case ref_file os fd of None \<Rightarrow> (Inl (Errno 9), os)
       | Some (n, d) \<Rightarrow> (Inr (take count (drop off d)), os)),
     os_fstat = (\<lambda>os fd. case ref_file os fd of None \<Rightarrow> (Inr (False, 0), os)
       | Some (n, d) \<Rightarrow> if length d < 2 ^ 63 then (Inr (True, int (length d)), os) else (Inl (Errno 75), os)),
     os_fsync = (\<lambda>os fd. (Inr (), os)), os_fsync_directory = (\<lambda>os. (Inr (), os)),
     os_close = (\<lambda>os fd. (Inr (), os\<lparr>ro_fds := (ro_fds os)(fd := None)\<rparr>)),
     os_rename_noreplace = (\<lambda>os a b. if ro_dir os a = None then (Inl ENOENT, os)
       else if ro_dir os b \<noteq> None then (Inl EEXIST, os)
       else (Inr (), os\<lparr>ro_dir := (ro_dir os)(a := None, b := ro_dir os a)\<rparr>)),
     os_unlinkat = (\<lambda>os n. case ro_dir os n of None \<Rightarrow> (Inl ENOENT, os)
       | Some (RegularFile _) \<Rightarrow> (Inr (), os\<lparr>ro_dir := (ro_dir os)(n := None)\<rparr>) | Some OtherEntry \<Rightarrow> (Inl EISDIR, os)),
     os_getrandom = (\<lambda>os n. (Inr (replicate n (CHR ''r'')), os)),
     os_strerror = (\<lambda>_. ''error''),
     CRYPTO_memcmp = (\<lambda>a b n. if take n a = take n b then 0 else 1),
     os_dir = ro_dir, os_fds = ro_fds, os_interrupts = (\<lambda>_. 0)\<rparr>"

lemma ref_posix_laws: "posix_laws ref_posix"
proof -
  have "open_law ref_posix"
    by (auto simp: open_law_def ref_posix_def ref_open_def split: if_splits sum.splits)
  moreover have "write_law ref_posix"
    by (auto simp: write_law_def ref_posix_def ref_file_def)
  moreover have "pread_law ref_posix"
    by (auto simp: pread_law_def ref_posix_def ref_file_def min_def)
  moreover have "fstat_law ref_posix"
    by (auto simp: fstat_law_def ref_posix_def ref_file_def split: dir_entry.splits if_splits)
  moreover have "directory_law ref_posix"
    by (auto simp: directory_law_def ref_posix_def split: if_splits sum.splits option.splits dir_entry.splits)
  moreover have "getrandom_law ref_posix" "quiet_law ref_posix"
    by (auto simp: getrandom_law_def quiet_law_def quiet_def ref_posix_def split: option.split)
  moreover have "interrupt_law ref_posix"
    by (auto simp: interrupt_law_def counts_interrupt_def ref_posix_def ref_open_def split: option.split)
  moreover have "CRYPTO_memcmp ref_posix a b (length a) = 0 \<longleftrightarrow> take (length a) b = a" for a b
    by (auto simp: ref_posix_def)
  ultimately show ?thesis by (simp add: posix_laws_def)
qed

section \<open>The environment\<close>

definition ref_env :: "(ref_db, ref_db, ref_os) env" where
  "ref_env = \<lparr>rocks = ref_rocks, proto_lib = ref_proto, posix_api = ref_posix, fault_injector = None,
     max_payload_bytes = 1024, max_scan_records = 10000, response_soft_limit_bytes = kMessagePageSoftBytes,
     has_fatal_error_handler = True\<rparr>"

lemma ref_env_laws: "env_laws ref_env"
  by (simp add: env_laws_def ref_env_def ref_rocks_laws ref_proto_laws ref_posix_laws)

lemma ref_env_json: "json_laws (proto_lib ref_env)"
  by (simp add: ref_env_def ref_json_laws)

section \<open>A server state\<close>

definition ref_core :: "ref_db \<Rightarrow> (ref_db, ref_db, ref_os) core" where
  "ref_core db = \<lparr>d_db = db, d_os = \<lparr>ro_dir = (\<lambda>_. None), ro_fds = (\<lambda>_. None), ro_next = 3\<rparr>,
     commit_generation = 0, subscription_snapshot = None, subscription_snapshot_version = 0,
     subscription_snapshot_generation = 0, subscription_snapshot_attempt_generation = 0,
     subscription_snapshot_status = status_Ok, stop_subscription_snapshot_thread = False,
     fatal_error_triggered = False, fatal_handler_calls = []\<rparr>"

lemma ref_core_simps [simp]:
  "d_db (ref_core db) = db" "fatal_error_triggered (ref_core db) = False"
  by (simp_all add: ref_core_def)

definition ref_channel :: channel_info where
  "ref_channel = \<lparr>ch_channel_id = 1, ch_name = ''c'', ch_visibility = VISIBILITY_PRIVATE, ch_protocol = [],
     ch_description = [], ch_creator = Some 7, ch_members = [7, 8]\<rparr>"

definition ref_message :: event_message where
  "ref_message = \<lparr>msg_seq = 1, msg_channel_id = 1, msg_principal = 7, msg_recipients = [8], msg_payload = ''x'',
     msg_ts_ms = 5, msg_uuid = 2, msg_object_keys = []\<rparr>"

text \<open>Principal 7 holds the credential \<^verbatim>\<open>t\<close> and owns channel 1; message 1 has been published with
  uuid 2; uuids up to 3 are allocated.\<close>

definition ref_state :: ref_db where
  "ref_state =
     [((Meta, kMaxSeqKey), EncodeUint64 1), ((Meta, kNextUuidKey), EncodeUint64 4),
      ((Meta, kNextChannelIdKey), EncodeUint64 2), ((Meta, kNextObjectIdKey), EncodeUint64 1),
      ((Meta, TokenKey 7 ''t''), []), ((Meta, NumericKey kChannelPrefix 1), put_channel ref_channel),
      ((Meta, NumericKey kUuidPrefix 2), EncodeUint64 1),
      ((Messages, NumericKey kMessagePrefix 1), put_message ref_message)]"

lemma ref_fits [simp]: "channel_fits ref_channel" "message_fits ref_message"
  by (simp_all add: channel_fits_def message_fits_def fits_def visibility_fits_def ref_channel_def ref_message_def)

lemma ref_env_simps [simp]:
  "db_GetSnapshot (rocks ref_env) = Some"
  "db_Get (rocks ref_env) s c k = ref_lookup s (c, k)"
  "db_MultiGet (rocks ref_env) s ks = map (ref_lookup s) ks"
  "db_Iterate (rocks ref_env) s c k = (ref_entries s c k, ref_ok)"
  "db_Write (rocks ref_env) s b = (ref_ok, fold ref_write b s)"
  "db_contents (rocks ref_env) = map_of" "snap_contents (rocks ref_env) = map_of"
  "proto_lib ref_env = ref_proto" "posix_api ref_env = ref_posix" "fault_injector ref_env = None"
  "max_payload_bytes ref_env = 1024" "max_scan_records ref_env = 10000"
  "response_soft_limit_bytes ref_env = kMessagePageSoftBytes"
  "channel_ParseFromString ref_proto = whole get_channel"
  "message_ParseFromString ref_proto = whole get_message"
  "record_ParseFromString ref_proto = whole get_record"
  "message_SerializeToString ref_proto m = (if message_fits m then Some (put_message m) else None)"
  "channel_SerializeToString ref_proto ch = (if channel_fits ch then Some (put_channel ch) else None)"
  "record_SerializeToString ref_proto r = (if record_fits r then Some (put_record r) else None)"
  "Visibility_IsValid ref_proto v \<longleftrightarrow> v \<in> {VISIBILITY_PUBLIC, VISIBILITY_PROTECTED, VISIBILITY_PRIVATE}"
  "message_ByteSizeLong ref_proto m = of_nat (length (put_message m))"
  by (simp_all add: ref_env_def ref_rocks_def ref_proto_def)

lemma ref_result [simp]: "RocksToStatus f ref_ok op = Inr ()"
  by (simp add: RocksToStatus_def)

lemma ref_CreateSnapshot [simp]: "CreateSnapshot ref_env db = Inr db"
  by (simp add: CreateSnapshot_def)

lemma ref_Commit [simp]: "Commit ref_env b s = (Inr (), s\<lparr>d_db := fold ref_write b (d_db s)\<rparr>)"
  by (simp add: Commit_def Let_def)

lemma ref_CommitBatch [simp]:
  "CommitBatch ref_env b c =
     (Inr (), c\<lparr>d_db := fold ref_write b (d_db c), commit_generation := commit_generation c + 1\<rparr>)"
  by (simp add: CommitBatch_def)

text \<open>What the reads return in the state above.\<close>

lemma ref_reads [simp]:
  "GetMaxSeq ref_env ref_state = Inr 1" "GetNextUuid ref_env ref_state = Inr 4"
  "GetNextChannelId ref_env ref_state = Inr 2" "GetNextObjectId ref_env ref_state = Inr 1"
  "HasToken ref_env ref_state 7 ''t'' = Inr True"
  "GetUsedUuidSeq ref_env ref_state 3 = Inr None"
  "GetChannel ref_env ref_state 1 = Inr (Some ref_channel)"
  by (simp_all add: GetMaxSeq_def GetNextUuid_def GetNextChannelId_def GetNextObjectId_def
      GetRequiredUint64_def HasToken_def GetUsedUuidSeq_def GetChannel_def decode_channel_def
      ref_lookup_def ref_state_def whole_put ref_status ValidStoredChannel_def)
   (simp_all add: ref_channel_def ValidStoredChannel_def)

lemma ref_Authenticate [simp]: "Authenticate ref_env ref_state 7 ''t'' = Inr ()"
  by (simp add: Authenticate_def)

lemma ref_LoadChannel [simp]: "LoadChannel ref_env ref_state 1 = Inr (Some ref_channel)"
  by (simp add: LoadChannel_def)

end
