(* ===== verification/Core_Subscription.thy ===== *)
theory Core_Subscription
  imports Core_Fetch Reference_Env
begin

text \<open>
  The snapshots that serve subscriptions. A thread of \<^verbatim>\<open>OpenEventCore\<close> refreshes a shared
  snapshot; readers wait until it covers every commit counted when they asked. The thread
  (\<^verbatim>\<open>RefreshSubscriptionSnapshots\<close>) is cut at the points where it gives up the mutex, a
  commit of another thread into its write and the increment of the commit counter, so that the step
  relation \<open>sub_step\<close> has every interleaving the locks allow. A reader is a pair of states: the
  one in which it entered and the one in which its wait ended.
\<close>

section \<open>Construction and destruction\<close>

definition soft_limit :: "u64 \<Rightarrow> u64" where
  "soft_limit limit_bytes =
     (if limit_bytes = 0 then kMessagePageSoftBytes else limit_bytes)"

text \<open>The limits and the handler become part of the environment of the operations.\<close>

definition core_env :: "('db, 'snap, 'os) env \<Rightarrow> u64 \<Rightarrow> u64 \<Rightarrow> u64 \<Rightarrow> bool \<Rightarrow> ('db, 'snap, 'os) env" where
  "core_env E payload_bytes scan_records soft_limit_bytes handler =
     E\<lparr>max_payload_bytes := payload_bytes, max_scan_records := scan_records,
       response_soft_limit_bytes := soft_limit soft_limit_bytes, has_fatal_error_handler := handler\<rparr>"

definition OpenEventCore :: "('db, 'snap, 'os) env \<Rightarrow> ('db, 'os) disk \<Rightarrow> ('db, 'snap, 'os) core" where
  "OpenEventCore E storage =
     (let c = \<lparr>d_db = d_db storage, d_os = d_os storage, commit_generation = 0, subscription_snapshot = None,
            subscription_snapshot_version = 0, subscription_snapshot_generation = 0,
            subscription_snapshot_attempt_generation = 0, subscription_snapshot_status = status_Ok,
            stop_subscription_snapshot_thread = False, fatal_error_triggered = False,
            fatal_handler_calls = []\<rparr>
      in case CreateSnapshot E (d_db storage) of
           Inr snapshot \<Rightarrow> c\<lparr>subscription_snapshot := Some snapshot, subscription_snapshot_version := 1,
             subscription_snapshot_status := status_Ok\<rparr>
         | Inl s \<Rightarrow>
             let c = c\<lparr>subscription_snapshot_status := s\<rparr>
             in if st_requires_server_exit s then FatalStorageError E s c else c)"

text \<open>The destructor asks the thread to stop, waits for it, and drops the snapshot.\<close>

definition stop_thread :: "('db, 'snap, 'os) core \<Rightarrow> ('db, 'snap, 'os) core" where
  "stop_thread c = c\<lparr>stop_subscription_snapshot_thread := True\<rparr>"

definition drop_snapshot :: "('db, 'snap, 'os) core \<Rightarrow> ('db, 'snap, 'os) core" where
  "drop_snapshot c = c\<lparr>subscription_snapshot := None\<rparr>"

section \<open>The refresh thread\<close>

text \<open>
  Where the thread is: in the timed wait, past the load of the commit counter, with the result of
  creating a snapshot and about to take the mutex again, about to report a fatal error, at the end.
\<close>

datatype 'snap refresh_pc =
  Waiting | Loaded u64 | Created u64 "'snap result" | Failing status | Stopped

definition refresh_start :: "('db, 'snap, 'os) core \<Rightarrow> 'snap refresh_pc" where
  "refresh_start c = (if fatal_error_triggered c then Stopped else Waiting)"

text \<open>The timed wait ends, because of its predicate or at the deadline.\<close>

definition refresh_wake :: "('db, 'snap, 'os) core \<Rightarrow> 'snap refresh_pc" where
  "refresh_wake c =
     (if stop_subscription_snapshot_thread c \<or> fatal_error_triggered c then Stopped
      else if subscription_snapshot c \<noteq> None \<and> commit_generation c = subscription_snapshot_generation c
      then Waiting
      else Loaded (commit_generation c))"

text \<open>The snapshot is created without the mutex.\<close>

definition refresh_create :: "('db, 'snap, 'os) env \<Rightarrow> u64 \<Rightarrow> ('db, 'snap, 'os) core \<Rightarrow> 'snap refresh_pc" where
  "refresh_create E generation c = Created generation (CreateSnapshot E (d_db c))"

definition refresh_store :: "u64 \<Rightarrow> 'snap result \<Rightarrow> ('db, 'snap, 'os) core \<Rightarrow>
    'snap refresh_pc \<times> ('db, 'snap, 'os) core" where
  "refresh_store generation snapshot c =
     (if fatal_error_triggered c then (Stopped, c)
      else
        let c = c\<lparr>subscription_snapshot_attempt_generation := generation\<rparr>
        in case snapshot of
             Inr s \<Rightarrow>
               (if stop_subscription_snapshot_thread c then Stopped else Waiting,
                c\<lparr>subscription_snapshot := Some s, subscription_snapshot_generation := generation,
                  subscription_snapshot_version := subscription_snapshot_version c + 1,
                  subscription_snapshot_status := status_Ok\<rparr>)
           | Inl s \<Rightarrow>
               (if st_requires_server_exit s then Failing s
                else if stop_subscription_snapshot_thread c then Stopped else Waiting,
                c\<lparr>subscription_snapshot_status := s\<rparr>))"

section \<open>Readers\<close>

definition acquire_enter :: "('db, 'snap, 'os) core \<Rightarrow> u64 result" where
  "acquire_enter c = bindR (fst (EnsureAvailable c)) (\<lambda>_. Inr (commit_generation c))"

text \<open>The predicate of the wait, and what the reader returns when the wait has ended.\<close>

definition acquire_ready :: "u64 \<Rightarrow> ('db, 'snap, 'os) core \<Rightarrow> bool" where
  "acquire_ready required_generation c \<longleftrightarrow>
     stop_subscription_snapshot_thread c \<or> fatal_error_triggered c \<or>
     subscription_snapshot_generation c \<ge> required_generation \<or>
     (\<not> status_ok (subscription_snapshot_status c) \<and>
      subscription_snapshot_attempt_generation c \<ge> required_generation)"

definition acquire_return :: "u64 \<Rightarrow> ('db, 'snap, 'os) core \<Rightarrow> ('snap \<times> u64) result" where
  "acquire_return required_generation c =
     (if \<not> status_ok (subscription_snapshot_status c) \<and>
         subscription_snapshot_attempt_generation c \<ge> required_generation
      then Inl (subscription_snapshot_status c)
      else
        case subscription_snapshot c of
          None \<Rightarrow>
            if fatal_error_triggered c
            then Inl (mk_status UNAVAILABLE ''subscription snapshot is unavailable after fatal storage error'')
            else Inl (mk_status UNAVAILABLE ''subscription snapshot is unavailable'')
        | Some s \<Rightarrow> Inr (s, subscription_snapshot_version c))"

text \<open>\<open>c\<close> is the state on entry, \<open>c'\<close> the one in which the wait ended.\<close>

definition AcquireSubscriptionSnapshot ::
  "('db, 'snap, 'os) core \<Rightarrow> ('db, 'snap, 'os) core \<Rightarrow> ('snap \<times> u64) result" where
  "AcquireSubscriptionSnapshot c c' =
     bindR (acquire_enter c) (\<lambda>required_generation. acquire_return required_generation c')"

definition GetSubscriptionMaxSeq :: "('db, 'snap, 'os) env \<Rightarrow> u64 \<Rightarrow> string \<Rightarrow> u64 list \<Rightarrow>
    ('db, 'snap, 'os) core \<Rightarrow> ('db, 'snap, 'os) core \<Rightarrow> u64 result" where
  "GetSubscriptionMaxSeq E prin token channels c c' =
     bindR (fst (EnsureAvailable c)) (\<lambda>_.
     bindR (AcquireSubscriptionSnapshot c c') (\<lambda>(snapshot, version).
     bindR (Authenticate E snapshot prin token) (\<lambda>_.
     bindR (ValidateReadableChannels E snapshot prin channels) (\<lambda>_.
     GetMaxSeq E snapshot))))"

text \<open>The response and the version of the snapshot it was read from.\<close>

definition FetchSubscriptionBatch :: "('db, 'snap, 'os) env \<Rightarrow> u64 \<Rightarrow> string \<Rightarrow> u64 \<Rightarrow> u32 \<Rightarrow> bool \<Rightarrow>
    u64 list \<Rightarrow> ('db, 'snap, 'os) core \<Rightarrow> ('db, 'snap, 'os) core \<Rightarrow> (fetch_response \<times> u64) result" where
  "FetchSubscriptionBatch E prin token from_seq limit only_my_recipient channels c c' =
     bindR (AcquireSubscriptionSnapshot c c') (\<lambda>(snapshot, version).
     bindR (Authenticate E snapshot prin token) (\<lambda>_.
     bindR (ValidateReadableChannels E snapshot prin channels) (\<lambda>_.
     bindR (FetchVisible E snapshot prin from_seq limit only_my_recipient channels) (\<lambda>response.
     Inr (response, version)))))"

definition SubscriptionSnapshotVersion :: "('db, 'snap, 'os) core \<Rightarrow> u64" where
  "SubscriptionSnapshotVersion c = subscription_snapshot_version c"

definition wait_ready :: "u64 \<Rightarrow> ('db, 'snap, 'os) core \<Rightarrow> bool" where
  "wait_ready observed_version c \<longleftrightarrow>
     stop_subscription_snapshot_thread c \<or> fatal_error_triggered c \<or>
     subscription_snapshot_version c \<noteq> observed_version \<or>
     (\<not> status_ok (subscription_snapshot_status c) \<and>
      subscription_snapshot_attempt_generation c > subscription_snapshot_generation c)"

text \<open>The result in the state in which the wait ended, by its predicate or its timeout.\<close>

definition WaitForSubscriptionSnapshot :: "u64 \<Rightarrow> ('db, 'snap, 'os) core \<Rightarrow> bool" where
  "WaitForSubscriptionSnapshot observed_version c \<longleftrightarrow>
     fatal_error_triggered c \<or> subscription_snapshot_version c \<noteq> observed_version \<or>
     (\<not> status_ok (subscription_snapshot_status c) \<and>
      subscription_snapshot_attempt_generation c > subscription_snapshot_generation c)"

definition MaxSeq :: "('db, 'snap, 'os) env \<Rightarrow> ('db, 'snap, 'os, u64) core_op" where
  "MaxSeq E =
     bindM EnsureAvailable (\<lambda>_.
     bindM (askM (\<lambda>c. CreateSnapshot E (d_db c))) (\<lambda>snapshot.
     liftM (GetMaxSeq E snapshot)))"

section \<open>Interleaving\<close>

text \<open>
  The server as the subscription snapshots see it: the core, the refresh thread, whether the commit in
  progress is written but not counted yet (the coordinator mutex allows one commit at a time), whether a
  commit has failed, and the history of the database, one entry for each successful commit.
\<close>

record ('db, 'snap, 'os) sub_system =
  ss_core :: "('db, 'snap, 'os) core"
  ss_refresh :: "'snap refresh_pc"
  ss_pending :: bool
  ss_failed :: bool
  ss_history :: "kv list"

definition sub_init :: "('db, 'snap, 'os) env \<Rightarrow> ('db, 'os) disk \<Rightarrow> ('db, 'snap, 'os) sub_system" where
  "sub_init E storage =
     \<lparr>ss_core = OpenEventCore E storage, ss_refresh = refresh_start (OpenEventCore E storage),
      ss_pending = False, ss_failed = False, ss_history = [contents E storage]\<rparr>"

text \<open>
  \<open>commit_write\<close> and \<open>commit_count\<close> are the two halves of a \<^verbatim>\<open>CommitBatch\<close> that succeeds,
  \<open>commit_failed\<close> and \<open>fatal\<close> those of one that fails; \<open>fatal\<close> also stands for any
  other thread that reports a fatal error, \<open>files\<close> for work on the object files.
\<close>

inductive sub_step :: "('db, 'snap, 'os) env \<Rightarrow> ('db, 'snap, 'os) sub_system \<Rightarrow>
    ('db, 'snap, 'os) sub_system \<Rightarrow> bool" for E where
  commit_write: "\<not> ss_pending x \<Longrightarrow> Commit E b (ss_core x) = (Inr (), c) \<Longrightarrow>
    sub_step E x (x\<lparr>ss_core := c, ss_pending := True, ss_history := ss_history x @ [contents E c]\<rparr>)"
| commit_count: "ss_pending x \<Longrightarrow>
    sub_step E x (x\<lparr>ss_core := (ss_core x)\<lparr>commit_generation := commit_generation (ss_core x) + 1\<rparr>,
      ss_pending := False\<rparr>)"
| commit_failed: "\<not> ss_pending x \<Longrightarrow> Commit E b (ss_core x) = (Inl s, c) \<Longrightarrow>
    sub_step E x (x\<lparr>ss_core := c, ss_failed := True\<rparr>)"
| fatal: "sub_step E x (x\<lparr>ss_core := FatalStorageError E s (ss_core x)\<rparr>)"
| files: "sub_step E x (x\<lparr>ss_core := (ss_core x)\<lparr>d_os := os\<rparr>\<rparr>)"
| stop: "sub_step E x (x\<lparr>ss_core := stop_thread (ss_core x)\<rparr>)"
| wake: "ss_refresh x = Waiting \<Longrightarrow> sub_step E x (x\<lparr>ss_refresh := refresh_wake (ss_core x)\<rparr>)"
| create: "ss_refresh x = Loaded g \<Longrightarrow> sub_step E x (x\<lparr>ss_refresh := refresh_create E g (ss_core x)\<rparr>)"
| store: "ss_refresh x = Created g r \<Longrightarrow> refresh_store g r (ss_core x) = (pc, c) \<Longrightarrow>
    sub_step E x (x\<lparr>ss_core := c, ss_refresh := pc\<rparr>)"
| fail: "ss_refresh x = Failing s \<Longrightarrow>
    sub_step E x (x\<lparr>ss_core := FatalStorageError E s (ss_core x), ss_refresh := Stopped\<rparr>)"

section \<open>What the shared snapshot covers\<close>

definition counted :: "('db, 'snap, 'os) sub_system \<Rightarrow> nat" where
  "counted x = unat (commit_generation (ss_core x))"

text \<open>\<open>covers x g s\<close>: the snapshot is the database after some commit not before the \<open>g\<close>th.\<close>

definition covers :: "('db, 'snap, 'os) env \<Rightarrow> ('db, 'snap, 'os) sub_system \<Rightarrow> u64 \<Rightarrow> 'snap \<Rightarrow> bool" where
  "covers E x g s \<longleftrightarrow> (\<exists>k. unat g \<le> k \<and> k < length (ss_history x) \<and> snap_view E s = ss_history x ! k)"

definition history_ok :: "('db, 'snap, 'os) env \<Rightarrow> ('db, 'snap, 'os) sub_system \<Rightarrow> bool" where
  "history_ok E x \<longleftrightarrow> ss_history x \<noteq> [] \<and> (\<not> ss_failed x \<longrightarrow> contents E (ss_core x) = last (ss_history x)) \<and>
     counted x + (if ss_pending x then 1 else 0) + 1 = length (ss_history x)"

definition shared_ok :: "('db, 'snap, 'os) env \<Rightarrow> ('db, 'snap, 'os) sub_system \<Rightarrow> bool" where
  "shared_ok E x \<longleftrightarrow> (\<forall>s. subscription_snapshot (ss_core x) = Some s \<and> \<not> ss_failed x \<longrightarrow>
     covers E x (subscription_snapshot_generation (ss_core x)) s)"

definition refresh_ok :: "('db, 'snap, 'os) env \<Rightarrow> ('db, 'snap, 'os) sub_system \<Rightarrow> bool" where
  "refresh_ok E x \<longleftrightarrow> (case ss_refresh x of
     Loaded g \<Rightarrow> unat g \<le> counted x
   | Created g r \<Rightarrow> (\<forall>s. r = Inr s \<and> \<not> ss_failed x \<longrightarrow> covers E x g s)
   | _ \<Rightarrow> True)"

definition sub_ok :: "('db, 'snap, 'os) env \<Rightarrow> ('db, 'snap, 'os) sub_system \<Rightarrow> bool" where
  "sub_ok E x \<longleftrightarrow> (length (ss_history x) \<le> 2 ^ 64 \<longrightarrow> history_ok E x \<and> shared_ok E x \<and> refresh_ok E x)"

lemma covers_append: "covers E x g s \<Longrightarrow> ss_history y = ss_history x @ h \<Longrightarrow> covers E y g s"
  unfolding covers_def by (metis length_append nth_append trans_less_add1)

lemma covers_cong: "ss_history y = ss_history x \<Longrightarrow> covers E y = covers E x"
  by (simp add: covers_def fun_eq_iff)

lemma covers_now:
  assumes "env_laws E" and "history_ok E x" and "\<not> ss_failed x" and "unat g \<le> counted x"
    and "CreateSnapshot E (d_db (ss_core x)) = Inr s"
  shows "covers E x g s"
proof -
  let ?k = "length (ss_history x) - 1"
  have "snap_view E s = ss_history x ! ?k"
    using assms(2,3) CreateSnapshot_view [OF assms(1,5)] by (simp add: history_ok_def last_conv_nth)
  moreover have "unat g \<le> ?k" "?k < length (ss_history x)"
    using assms(2,4) by (auto simp: history_ok_def)
  ultimately show ?thesis unfolding covers_def by blast
qed

lemma sub_ok_init: "env_laws E \<Longrightarrow> sub_ok E (sub_init E storage)"
  using CreateSnapshot_view [of E "d_db storage"]
  by (auto simp: sub_ok_def history_ok_def shared_ok_def refresh_ok_def sub_init_def OpenEventCore_def Let_def
      refresh_start_def counted_def covers_def FatalStorageError_def split: sum.splits)

text \<open>Each step keeps the invariant. A step that does not write appends nothing to the history.\<close>

lemma sub_ok_mono:
  assumes "sub_ok E x" and "length (ss_history x) \<le> length (ss_history y)"
    and "length (ss_history y) \<le> 2 ^ 64 \<Longrightarrow> history_ok E x \<Longrightarrow> shared_ok E x \<Longrightarrow> refresh_ok E x \<Longrightarrow>
      history_ok E y \<and> shared_ok E y \<and> refresh_ok E y"
  shows "sub_ok E y"
  using assms by (auto simp: sub_ok_def)

lemma sub_ok_write:
  assumes "env_laws E" and "sub_ok E x" and "\<not> ss_pending x" and "Commit E b (ss_core x) = (Inr (), c)"
  shows "sub_ok E (x\<lparr>ss_core := c, ss_pending := True, ss_history := ss_history x @ [contents E c]\<rparr>)"
proof (rule sub_ok_mono [OF assms(2)], goal_cases)
  case 2
  obtain db where c: "c = (ss_core x)\<lparr>d_db := db\<rparr>" using Commit_ok(2) [OF assms(1,4)] by metis
  with 2 assms(3) show ?case
    by (auto simp: history_ok_def shared_ok_def refresh_ok_def counted_def split: refresh_pc.splits
        elim!: covers_append)
qed simp

lemma sub_ok_count:
  assumes "sub_ok E x" and "ss_pending x"
  shows "sub_ok E (x\<lparr>ss_core := (ss_core x)\<lparr>commit_generation := commit_generation (ss_core x) + 1\<rparr>,
      ss_pending := False\<rparr>)"
proof (rule sub_ok_mono [OF assms(1)], goal_cases)
  case 2
  let ?g = "commit_generation (ss_core x)"
  from 2 assms(2) have "unat ?g + 1 < 2 ^ 64" by (simp add: history_ok_def counted_def)
  then have "unat (?g + 1) = unat ?g + 1" using unat_add_no_wrap [of ?g 1] by simp
  with 2 assms(2) show ?case
    by (auto simp: history_ok_def shared_ok_def refresh_ok_def counted_def covers_def split: refresh_pc.splits)
qed simp

lemma sub_ok_failed:
  assumes "env_laws E" and "sub_ok E x" and "Commit E b (ss_core x) = (Inl s, c)"
  shows "sub_ok E (x\<lparr>ss_core := c, ss_failed := True\<rparr>)"
proof (rule sub_ok_mono [OF assms(2)], goal_cases)
  case 2
  obtain db where "c = (ss_core x)\<lparr>d_db := db\<rparr>" using Commit_error(2) [OF assms(1,3)] by metis
  with 2 show ?case
    by (auto simp: history_ok_def shared_ok_def refresh_ok_def counted_def split: refresh_pc.splits)
qed simp

lemma sub_ok_store:
  assumes "sub_ok E x" and "ss_refresh x = Created g r" and "refresh_store g r (ss_core x) = (pc, c)"
  shows "sub_ok E (x\<lparr>ss_core := c, ss_refresh := pc\<rparr>)"
proof (rule sub_ok_mono [OF assms(1)], goal_cases)
  case 2
  with assms(2,3) show ?case
    by (auto simp: history_ok_def shared_ok_def refresh_ok_def refresh_store_def counted_def covers_def Let_def
        split: if_splits sum.splits)
qed simp

text \<open>The other steps change neither the database nor what is shared.\<close>

lemma sub_ok_quiet:
  assumes "sub_ok E x" and "d_db c = d_db (ss_core x)"
    and "commit_generation c = commit_generation (ss_core x)"
    and "subscription_snapshot c = subscription_snapshot (ss_core x)"
    and "subscription_snapshot_generation c = subscription_snapshot_generation (ss_core x)"
    and "pc \<in> {ss_refresh x, Stopped, Waiting, Loaded (commit_generation (ss_core x))}"
  shows "sub_ok E (x\<lparr>ss_core := c, ss_refresh := pc\<rparr>)"
proof (rule sub_ok_mono [OF assms(1)], goal_cases)
  case 2
  let ?y = "x\<lparr>ss_core := c, ss_refresh := pc\<rparr>"
  have cov: "covers E ?y = covers E x" by (rule covers_cong) simp
  have "history_ok E ?y" using 2(2) assms(2,3) by (simp add: history_ok_def counted_def)
  moreover have "shared_ok E ?y" using 2(3) assms(4,5) by (simp add: shared_ok_def cov)
  moreover have "counted ?y = counted x" using assms(3) by (simp add: counted_def)
  then have "refresh_ok E ?y"
  proof (cases "pc = ss_refresh x")
    case True
    then show ?thesis
      using 2(4) cov \<open>counted ?y = counted x\<close> by (simp add: refresh_ok_def split: refresh_pc.splits)
  qed (use assms(3,6) in \<open>auto simp: refresh_ok_def counted_def\<close>)
  ultimately show ?case by blast
qed simp

lemma sub_ok_create:
  assumes "env_laws E" and "sub_ok E x" and "ss_refresh x = Loaded g"
  shows "sub_ok E (x\<lparr>ss_refresh := refresh_create E g (ss_core x)\<rparr>)"
proof (rule sub_ok_mono [OF assms(2)], goal_cases)
  case 2
  with assms(3) have "unat g \<le> counted x" by (simp add: refresh_ok_def)
  with 2 covers_now [OF assms(1) 2(2), of g] show ?case
    by (auto simp: history_ok_def shared_ok_def refresh_ok_def refresh_create_def counted_def covers_def)
qed simp

lemma sub_ok_step:
  assumes laws: "env_laws E" and "sub_step E x y" and ok: "sub_ok E x"
  shows "sub_ok E y"
  using assms(2)
proof (cases rule: sub_step.cases)
  case (fatal s)
  with sub_ok_quiet [OF ok, of "FatalStorageError E s (ss_core x)" "ss_refresh x"] show ?thesis
    by (simp add: FatalStorageError_def)
next
  case (files os)
  with sub_ok_quiet [OF ok, of "(ss_core x)\<lparr>d_os := os\<rparr>" "ss_refresh x"] show ?thesis by simp
next
  case stop
  with sub_ok_quiet [OF ok, of "stop_thread (ss_core x)" "ss_refresh x"] show ?thesis
    by (simp add: stop_thread_def)
next
  case wake
  with sub_ok_quiet [OF ok, of "ss_core x" "refresh_wake (ss_core x)"] show ?thesis
    by (simp add: refresh_wake_def)
next
  case (fail s)
  with sub_ok_quiet [OF ok, of "FatalStorageError E s (ss_core x)" Stopped] show ?thesis
    by (simp add: FatalStorageError_def)
qed (use ok sub_ok_write [OF laws] sub_ok_count sub_ok_failed [OF laws] sub_ok_create [OF laws] sub_ok_store
    in blast)+

lemma sub_reachable_ok:
  assumes "(sub_step E)\<^sup>*\<^sup>* (sub_init E storage) x" and "env_laws E"
  shows "sub_ok E x"
  using assms by (induction rule: rtranclp_induct) (auto intro: sub_ok_init sub_ok_step)

lemma sub_history_grows:
  "(sub_step E)\<^sup>*\<^sup>* x y \<Longrightarrow> prefix (ss_history x) (ss_history y)"
proof (induction rule: rtranclp_induct)
  case (step y z)
  from step(2) have "prefix (ss_history y) (ss_history z)" by (cases rule: sub_step.cases) simp_all
  with step(3) show ?case by (rule prefix_order.trans)
qed simp

section \<open>Properties\<close>

text \<open>
  C13: Subscriptions read what was committed before they asked: a reader that enters after \<open>n\<close>
  commits have been counted obtains, under every interleaving with commits and the refresh thread, the
  database as it was after some commit not before the \<open>n\<close>th, unless the server is stopping, a fatal
  error has occurred or a commit has failed.
\<close>

theorem subscription_covers_commits:
  assumes laws: "env_laws E" and reach: "(sub_step E)\<^sup>*\<^sup>* (sub_init E storage) x"
    and steps: "(sub_step E)\<^sup>*\<^sup>* x y"
    and acquired: "AcquireSubscriptionSnapshot (ss_core x) (ss_core y) = Inr (s, v)"
    and ready: "acquire_ready (commit_generation (ss_core x)) (ss_core y)"
    and running: "\<not> stop_subscription_snapshot_thread (ss_core y)" "\<not> fatal_error_triggered (ss_core y)"
      "\<not> ss_failed y"
    and bound: "length (ss_history y) \<le> 2 ^ 64"
  shows "\<exists>k. length (ss_history x) \<le> k + (if ss_pending x then 2 else 1) \<and> k < length (ss_history y) \<and>
    prefix (ss_history x) (ss_history y) \<and> snap_view E s = ss_history y ! k"
proof -
  let ?g = "commit_generation (ss_core x)"
  have grows: "prefix (ss_history x) (ss_history y)" by (rule sub_history_grows [OF steps])
  then have "length (ss_history x) \<le> 2 ^ 64" using bound prefix_length_le order_trans by blast
  then have hx: "history_ok E x" using sub_reachable_ok [OF reach laws] by (simp add: sub_ok_def)
  have oky: "shared_ok E y"
    using sub_reachable_ok [OF rtranclp_trans [OF reach steps] laws] bound by (simp add: sub_ok_def)
  from acquired have ret: "acquire_return ?g (ss_core y) = Inr (s, v)"
    by (auto simp: AcquireSubscriptionSnapshot_def acquire_enter_def bind_inv)
  then have snap: "subscription_snapshot (ss_core y) = Some s"
    and "\<not> (\<not> status_ok (subscription_snapshot_status (ss_core y)) \<and>
      subscription_snapshot_attempt_generation (ss_core y) \<ge> ?g)"
    by (auto simp: acquire_return_def split: if_splits option.splits)
  with ready running have gen: "?g \<le> subscription_snapshot_generation (ss_core y)"
    unfolding acquire_ready_def by blast
  from oky snap running(3) have "covers E y (subscription_snapshot_generation (ss_core y)) s"
    unfolding shared_ok_def by blast
  then obtain k where k: "unat (subscription_snapshot_generation (ss_core y)) \<le> k" "k < length (ss_history y)"
    "snap_view E s = ss_history y ! k"
    unfolding covers_def by blast
  have "length (ss_history x) = unat ?g + (if ss_pending x then 2 else 1)"
    using hx unfolding history_ok_def counted_def by (simp split: if_splits)
  moreover have "unat ?g \<le> k" using gen k(1) unfolding word_le_nat_alt by (rule order_trans)
  ultimately have "length (ss_history x) \<le> k + (if ss_pending x then 2 else 1)" by simp
  with k(2,3) grows show ?thesis by blast
qed

definition ref_storage :: "(ref_db, ref_os) disk" where
  "ref_storage = \<lparr>d_db = ref_state, d_os = d_os (ref_core ref_state)\<rparr>"

text \<open>A credential is committed, a reader enters, the refresh thread makes a pass, the reader returns.\<close>

text \<open>States of the reference server: database, commits counted, generation and snapshot shared, version,
  place of the refresh thread, commit in progress, history.\<close>

definition ref_sub :: "ref_db \<Rightarrow> u64 \<Rightarrow> u64 \<Rightarrow> ref_db \<Rightarrow> u64 \<Rightarrow> ref_db refresh_pc \<Rightarrow> bool \<Rightarrow> kv list \<Rightarrow>
    (ref_db, ref_db, ref_os) sub_system" where
  "ref_sub db n g snapshot version pc pending hist =
     \<lparr>ss_core = (ref_core db)\<lparr>commit_generation := n, subscription_snapshot := Some snapshot,
        subscription_snapshot_version := version, subscription_snapshot_generation := g,
        subscription_snapshot_attempt_generation := g\<rparr>,
      ss_refresh = pc, ss_pending = pending, ss_failed = False, ss_history = hist\<rparr>"

lemma ref_sub_init: "sub_init ref_env ref_storage = ref_sub ref_state 0 0 ref_state 1 Waiting False [map_of ref_state]"
  by (simp add: sub_init_def OpenEventCore_def ref_storage_def refresh_start_def ref_sub_def ref_core_def)

lemma ref_sub_steps:
  "sub_step ref_env (ref_sub db n g sn v pc False h)
     (ref_sub (fold ref_write b db) n g sn v pc True (h @ [map_of (fold ref_write b db)]))"
  "sub_step ref_env (ref_sub db n g sn v pc True h) (ref_sub db (n + 1) g sn v pc False h)"
  "n \<noteq> g \<Longrightarrow> sub_step ref_env (ref_sub db n g sn v Waiting p h) (ref_sub db n g sn v (Loaded n) p h)"
  "sub_step ref_env (ref_sub db n g sn v (Loaded m) p h) (ref_sub db n g sn v (Created m (Inr db)) p h)"
  "sub_step ref_env (ref_sub db n g sn v (Created m (Inr s)) p h) (ref_sub db n m s (v + 1) Waiting p h)"
  using sub_step.commit_write [of "ref_sub db n g sn v pc False h" ref_env b]
    sub_step.commit_count [of "ref_sub db n g sn v pc True h" ref_env]
    sub_step.wake [of "ref_sub db n g sn v Waiting p h" ref_env]
    sub_step.create [of "ref_sub db n g sn v (Loaded m) p h" m ref_env]
    sub_step.store [of "ref_sub db n g sn v (Created m (Inr s)) p h" m "Inr s" Waiting
      "ss_core (ref_sub db n m s (v + 1) Waiting p h)" ref_env]
  by (simp_all add: ref_sub_def ref_core_def refresh_wake_def refresh_create_def refresh_store_def status_Ok_def)

text \<open>A credential is committed, a reader enters, the refresh thread makes a pass, the reader returns.\<close>

theorem subscription_covers_commits_witness:
  "\<exists>x y s v. (sub_step ref_env)\<^sup>*\<^sup>* (sub_init ref_env ref_storage) x \<and> (sub_step ref_env)\<^sup>*\<^sup>* x y \<and>
     length (ss_history x) = 2 \<and> AcquireSubscriptionSnapshot (ss_core x) (ss_core y) = Inr (s, v) \<and>
     snap_view ref_env s = map_of (((Meta, TokenKey 9 ''u''), []) # ref_state)"
proof -
  let ?b = "[Put Meta (TokenKey 9 ''u'') []]" and ?h0 = "[map_of ref_state]"
  let ?db = "fold ref_write ?b ref_state"
  let ?h = "?h0 @ [map_of ?db]"
  let ?x = "ref_sub ?db (0 + 1) 0 ref_state 1 Waiting False ?h"
  let ?y = "ref_sub ?db (0 + 1) (0 + 1) ?db (1 + 1) Waiting False ?h"
  have s1: "sub_step ref_env (sub_init ref_env ref_storage) (ref_sub ?db 0 0 ref_state 1 Waiting True ?h)"
    unfolding ref_sub_init by (rule ref_sub_steps(1))
  have s2: "sub_step ref_env (ref_sub ?db 0 0 ref_state 1 Waiting True ?h) ?x" by (rule ref_sub_steps(2))
  have s3: "sub_step ref_env ?x (ref_sub ?db (0 + 1) 0 ref_state 1 (Loaded (0 + 1)) False ?h)"
    by (rule ref_sub_steps(3)) simp
  have s4: "sub_step ref_env (ref_sub ?db (0 + 1) 0 ref_state 1 (Loaded (0 + 1)) False ?h)
      (ref_sub ?db (0 + 1) 0 ref_state 1 (Created (0 + 1) (Inr ?db)) False ?h)" by (rule ref_sub_steps(4))
  have s5: "sub_step ref_env (ref_sub ?db (0 + 1) 0 ref_state 1 (Created (0 + 1) (Inr ?db)) False ?h) ?y"
    by (rule ref_sub_steps(5))
  note into = converse_rtranclp_into_rtranclp [of "sub_step ref_env"] and refl = rtranclp.rtrancl_refl [of "sub_step ref_env"]
  have reach: "(sub_step ref_env)\<^sup>*\<^sup>* (sub_init ref_env ref_storage) ?x" by (rule into [OF s1 into [OF s2 refl]])
  have steps: "(sub_step ref_env)\<^sup>*\<^sup>* ?x ?y" by (rule into [OF s3 into [OF s4 into [OF s5 refl]]])
  have acquired: "AcquireSubscriptionSnapshot (ss_core ?x) (ss_core ?y) = Inr (?db, 2)"
    and ready: "acquire_ready (commit_generation (ss_core ?x)) (ss_core ?y)"
    by (simp_all add: ref_sub_def ref_core_def AcquireSubscriptionSnapshot_def acquire_enter_def acquire_return_def
        acquire_ready_def EnsureAvailable_def status_ok_def status_Ok_def)
  have running: "\<not> stop_subscription_snapshot_thread (ss_core ?y)" "\<not> fatal_error_triggered (ss_core ?y)"
      "\<not> ss_failed ?y"
    and hist: "ss_history ?x = ?h" "ss_history ?y = ?h" "ss_pending ?x = False"
    by (simp_all add: ref_sub_def ref_core_def)
  have bound: "length (ss_history ?y) \<le> 2 ^ 64" unfolding hist by simp
  from subscription_covers_commits [OF ref_env_laws reach steps acquired ready running bound]
  obtain k where "length ?h \<le> k + 1" "k < length ?h" "snap_view ref_env ?db = ?h ! k"
    unfolding hist if_False by blast
  moreover from this(1,2) have "k = 1" by simp
  ultimately have "snap_view ref_env ?db = map_of ?db" by simp
  moreover have "?db = ((Meta, TokenKey 9 ''u''), []) # ref_state" by simp
  ultimately have "snap_view ref_env ?db = map_of (((Meta, TokenKey 9 ''u''), []) # ref_state)" by simp
  moreover have "length (ss_history ?x) = 2" unfolding hist by simp
  ultimately show ?thesis using reach steps acquired by blast
qed

text \<open>
  C14: A pass of the refresh thread releases every reader that entered before it: when the thread wakes,
  either the reader can already return, or it can return once the thread has stored the outcome of its
  attempt, whatever the outcome is and whatever happens in between.
\<close>

theorem refresh_releases_readers:
  assumes "required \<le> commit_generation c"
  shows "case refresh_wake c of
      Loaded g \<Rightarrow> \<forall>c1 r c2. refresh_create E g c1 = Created g r \<longrightarrow> acquire_ready required (snd (refresh_store g r c2))
    | _ \<Rightarrow> acquire_ready required c"
  using assms
  by (auto simp: refresh_wake_def refresh_create_def refresh_store_def acquire_ready_def Let_def CreateSnapshot_def
      status_Fatal_def WithStorageDiagnostic_def mk_status_def status_ok_def split: option.split)

theorem refresh_releases_readers_witness:
  "acquire_ready 1 (snd (refresh_store 1 (Inr ref_state) (ref_core ref_state)))"
proof -
  let ?c = "(ref_core ref_state)\<lparr>commit_generation := 1\<rparr>"
  have wake: "refresh_wake ?c = Loaded 1" by (simp add: refresh_wake_def ref_core_def)
  have create: "refresh_create ref_env 1 ?c = Created 1 (Inr ref_state)" by (simp add: refresh_create_def)
  have "(1 :: u64) \<le> commit_generation ?c" by simp
  from refresh_releases_readers [OF this, of ref_env, unfolded wake refresh_pc.case] create
  show ?thesis by blast
qed

end
