(* ===== verification/Tokens.thy ===== *)
theory Tokens
  imports Unified_Storage
begin

text \<open>
  The random tokens of \<^verbatim>\<open>open_event_core.cpp\<close>: the credential of a principal
  (\<open>GenerateToken\<close>, sixteen random bytes written as a uuid) and the capability of an object
  (\<open>GenerateObjectToken\<close>, thirty-two random bytes in unpadded base64url).
\<close>

section \<open>Random bytes\<close>

text \<open>The loop both functions start with: fill a buffer of \<open>want\<close> bytes from
  \<^verbatim>\<open>getrandom\<close>, retrying interrupted calls.\<close>

partial_function (option) fill_random ::
  "'os posix \<Rightarrow> nat \<Rightarrow> bytes \<Rightarrow> 'os \<Rightarrow> ((status + bytes) \<times> 'os) option" where
  "fill_random X want filled os =
     (if length filled < want then
        let res = os_getrandom X os (want - length filled); os' = snd res in
        (case fst res of
           Inl e \<Rightarrow>
             if e = EINTR then fill_random X want filled os'
             else Some (Inl (mk_status INTERNAL (''getrandom failed: '' @ os_strerror X e)), os')
         | Inr bs \<Rightarrow> fill_random X want (filled @ bs) os')
      else Some (Inr filled, os))"

section \<open>Credentials\<close>

definition hex_byte :: "char \<Rightarrow> string" where
  "hex_byte b = [kHex ! (of_char b div 16), kHex ! (of_char b mod 16)]"

definition format_token :: "bytes \<Rightarrow> string" where
  "format_token bs =
     concat (map (\<lambda>i. hex_byte (bs ! i) @ (if i = 3 \<or> i = 5 \<or> i = 7 \<or> i = 9 then ''-'' else []))
       [0..<length bs])"

definition GenerateToken :: "'os posix \<Rightarrow> ('os, status, string) pop" where
  "GenerateToken X = bindO (fill_random X 16 []) (\<lambda>bs. totalO (retM (format_token bs)))"

section \<open>Object capabilities\<close>

definition kBase64Url :: string where
  "kBase64Url = ''ABCDEFGHIJKLMNOPQRSTUVWXYZabcdefghijklmnopqrstuvwxyz0123456789-_''"

text \<open>\<^verbatim>\<open>kBase64Url[(value >> n) & 0x3f]\<close>.\<close>

definition sextet :: "u32 \<Rightarrow> nat \<Rightarrow> char" where
  "sextet value n = kBase64Url ! unat (drop_bit n value AND 0x3f)"

text \<open>The loop over groups of three bytes and the one or two bytes that remain.\<close>

fun base64url :: "bytes \<Rightarrow> string" where
  "base64url (a # b # c # rest) =
     (let value = push_bit 16 (of_char a) OR push_bit 8 (of_char b) OR of_char c :: u32 in
      [sextet value 18, sextet value 12, sextet value 6, sextet value 0] @ base64url rest)"
| "base64url [a, b] =
     (let value = push_bit 16 (of_char a) OR push_bit 8 (of_char b) :: u32 in
      [sextet value 18, sextet value 12, sextet value 6])"
| "base64url [a] =
     (let value = push_bit 16 (of_char a) :: u32 in [sextet value 18, sextet value 12])"
| "base64url [] = []"

definition GenerateObjectToken :: "'os posix \<Rightarrow> ('os, status, string) pop" where
  "GenerateObjectToken X =
     bindO (fill_random X kObjectTokenRandomBytes []) (\<lambda>bs. totalO (retM (base64url bs)))"

section \<open>The random bytes\<close>

text \<open>The loop returns, a filled buffer has exactly the size asked for, and the object directory is not
  touched.\<close>

lemma fill_random_spec:
  assumes laws: "posix_laws X"
  shows "length filled \<le> want \<Longrightarrow> \<exists>r os'. fill_random X want filled os = Some (r, os') \<and>
    os_dir X os' = os_dir X os \<and> (\<forall>bs. r = Inr bs \<longrightarrow> length bs = want)"
proof (induction "os_interrupts X os + (want - length filled)" arbitrary: filled os rule: less_induct)
  case less
  show ?case
  proof (cases "length filled < want")
    case True
    obtain r os1 where res: "os_getrandom X os (want - length filled) = (r, os1)"
      by (cases "os_getrandom X os (want - length filled)")
    have int: "counts_interrupt X os (r, os1)"
      using posix_lawsD(8) [OF laws] res unfolding interrupt_law_def by metis
    have dir: "os_dir X os1 = os_dir X os"
      using laws res unfolding posix_laws_def quiet_law_def quiet_def by (metis snd_conv)
    show ?thesis
    proof (cases r)
      case (Inl e)
      with int have "e = EINTR \<Longrightarrow> os_interrupts X os1 < os_interrupts X os"
        by (simp add: counts_interrupt_def)
      with less(1) [of os1 filled] less(2) True Inl res dir show ?thesis
        by (subst fill_random.simps) (auto simp: Let_def)
    next
      case (Inr bs)
      with res laws True have bs: "bs \<noteq> []" "length bs \<le> want - length filled"
        unfolding posix_laws_def getrandom_law_def by (metis zero_less_diff)+
      moreover from int Inr have "os_interrupts X os1 \<le> os_interrupts X os"
        by (simp add: counts_interrupt_def)
      ultimately have "os_interrupts X os1 + (want - length (filled @ bs)) <
          os_interrupts X os + (want - length filled)"
        using True by (cases bs) auto
      with less(1) [of os1 "filled @ bs"] bs True Inr res dir show ?thesis
        by (subst fill_random.simps) (auto simp: Let_def)
    qed
  qed (use less.prems in \<open>subst fill_random.simps, simp\<close>)
qed

section \<open>The shape of the tokens\<close>

lemma sextet_char: "is_base64url_char (sextet v n)"
proof -
  have "drop_bit n v AND 0x3f \<le> (0x3f :: u32)" by (rule word_and_le1)
  then have "unat (drop_bit n v AND 0x3f) < 64" by (simp add: word_le_nat_alt)
  moreover have "\<forall>i\<in>set [0..<64]. is_base64url_char (kBase64Url ! i)"
    by code_simp
  ultimately show ?thesis by (simp add: sextet_def)
qed

lemma base64url_chars: "list_all is_base64url_char (base64url bs)"
  by (induction bs rule: base64url.induct) (simp_all add: Let_def sextet_char)

lemma length_base64url: "length (base64url bs) = (4 * length bs + 2) div 3"
  by (induction bs rule: base64url.induct) (simp_all add: Let_def)

lemma base64url_token: "length bs = kObjectTokenRandomBytes \<Longrightarrow> IsBase64UrlToken (base64url bs)"
  by (simp add: IsBase64UrlToken_def base64url_chars length_base64url limits)

section \<open>The numbers the digits of a group stand for\<close>

lemma sextet_digit: "unat (drop_bit n (v :: u32) AND 0x3f) = unat v div 2 ^ n mod 64"
proof -
  have "(0x3f :: u32) = mask 6" by (simp add: mask_eq_exp_minus_1)
  then have "unat (drop_bit n v AND 0x3f) = unat (take_bit 6 (drop_bit n v))"
    by (simp add: take_bit_eq_mask)
  also have "\<dots> = unat v div 2 ^ n mod 2 ^ 6"
    by (simp only: unsigned_take_bit_eq unat_drop_bit_eq) (simp add: drop_bit_eq_div take_bit_eq_mod)
  finally show ?thesis by simp
qed

lemma group_bound: "65536 * of_char a + 256 * of_char b + of_char c < (2 :: nat) ^ 24"
proof -
  have "(2 :: nat) ^ 24 = 16777216" by simp
  then show ?thesis
    using of_char_less_256 [of a] of_char_less_256 [of b] of_char_less_256 [of c] by linarith
qed

lemma group_value:
  "unat (push_bit 16 (of_char a) OR push_bit 8 (of_char b) OR of_char c :: u32) =
     65536 * of_char a + 256 * of_char b + of_char c"
proof -
  have "push_bit 16 (of_char a) OR push_bit 8 (of_char b) OR of_char c =
      (push_bit 8 (push_bit 8 (of_char a) OR of_char b) OR of_char c :: u32)"
    by (simp add: push_bit_or or.assoc)
  also have "\<dots> = of_nat (65536 * of_char a + 256 * of_char b + of_char c)"
    by (simp only: byte_or_eq_add) (simp add: of_nat_of_char)
  finally have eq: "push_bit 16 (of_char a) OR push_bit 8 (of_char b) OR of_char c =
      (of_nat (65536 * of_char a + 256 * of_char b + of_char c) :: u32)" .
  show ?thesis unfolding eq
    by (subst unat_of_nat, rule mod_less, rule order.strict_trans [OF group_bound]) simp
qed

lemma short_group_values:
  "unat (push_bit 16 (of_char a) OR push_bit 8 (of_char b) :: u32) = 65536 * of_char a + 256 * of_char b"
  "unat (push_bit 16 (of_char a) :: u32) = 65536 * of_char a"
proof -
  have zero: "of_char (CHR 0x00) = (0 :: u32)" "of_char (CHR 0x00) = (0 :: nat)" by simp_all
  show "unat (push_bit 16 (of_char a) OR push_bit 8 (of_char b) :: u32) = 65536 * of_char a + 256 * of_char b"
    using group_value [of a b "CHR 0x00"] unfolding zero by simp
  show "unat (push_bit 16 (of_char a) :: u32) = 65536 * of_char a"
    using group_value [of a "CHR 0x00" "CHR 0x00"] unfolding zero by simp
qed

lemma of_char_nat_eq [simp]: "(of_char a :: nat) = of_char b \<longleftrightarrow> a = b"
  by (rule of_char_eq_iff)

section \<open>The generators\<close>

lemma GenerateToken_spec:
  assumes "posix_laws X"
  shows "\<exists>r os'. GenerateToken X os = Some (r, os') \<and> os_dir X os' = os_dir X os \<and>
    (\<forall>t. r = Inr t \<longrightarrow> (\<exists>bs. length bs = 16 \<and> t = format_token bs))"
proof -
  from fill_random_spec [OF assms, of "[]" 16 os] obtain r os' where
    "fill_random X 16 [] os = Some (r, os')" "os_dir X os' = os_dir X os" "\<forall>bs. r = Inr bs \<longrightarrow> length bs = 16"
    by auto
  then show ?thesis by (cases r) (auto simp: GenerateToken_def)
qed

lemma GenerateObjectToken_spec:
  assumes "posix_laws X"
  shows "\<exists>r os'. GenerateObjectToken X os = Some (r, os') \<and> os_dir X os' = os_dir X os \<and>
    (\<forall>t. r = Inr t \<longrightarrow> IsBase64UrlToken t)"
proof -
  from fill_random_spec [OF assms, of "[]" kObjectTokenRandomBytes os] obtain r os' where
    "fill_random X kObjectTokenRandomBytes [] os = Some (r, os')" "os_dir X os' = os_dir X os"
    "\<forall>bs. r = Inr bs \<longrightarrow> length bs = kObjectTokenRandomBytes"
    by auto
  then show ?thesis by (cases r) (auto simp: GenerateObjectToken_def base64url_token)
qed

lemma length_format_token: "length bs = 16 \<Longrightarrow> length (format_token bs) = 36"
  by (simp add: format_token_def hex_byte_def upt_rec)

end
