(* ===== verification/Core_Objects.thy ===== *)
theory Core_Objects
  imports Core_Contract Tokens Reference_Env
begin

text \<open>
  The object operations of \<^verbatim>\<open>OpenEventCore\<close>. Writing an object has three phases, with the
  coordinator mutex held only in the first and the last: the metadata is committed as preparing, the
  file is written, the metadata is committed as final. The phases are definitions of their own, so
  that other operations can come between them; \<open>WriteObject\<close> is their composition.
\<close>

section \<open>Requests and responses\<close>

record write_object_request =
  wq_principal :: u64
  wq_token :: string
  wq_name :: string
  wq_type :: string
  wq_description :: string
  wq_data :: bytes

record write_object_response =
  wo_object_id :: u64
  wo_object_token :: string

record object_metadata =
  om_name :: string
  om_type :: string
  om_description :: string
  om_nbytes :: u64

definition metadata_of :: "stored_object \<Rightarrow> object_metadata" where
  "metadata_of ob = \<lparr>om_name = so_name ob, om_type = so_type ob, om_description = so_description ob,
     om_nbytes = so_nbytes ob\<rparr>"

section \<open>Lookup\<close>

definition LoadAuthorizedObject :: "('db, 'snap, 'os) env \<Rightarrow> 'snap \<Rightarrow> u64 \<Rightarrow> string \<Rightarrow>
    ('db, 'snap, 'os, stored_object) core_op" where
  "LoadAuthorizedObject E snapshot object_id object_token =
     bindM (liftM (failIf (object_id = 0 \<or> object_token = [])
       (mk_status INVALID_ARGUMENT ''object_id must be nonzero and object_token must be nonempty''))) (\<lambda>_.
     bindM (liftClassified E (GetCommittedObject E snapshot object_id)) (\<lambda>ob.
     case ob of
       None \<Rightarrow> failM (mk_status NOT_FOUND ''object capability not found'')
     | Some ob \<Rightarrow>
         if \<not> ConstantTimeEquals (posix_api E) (so_object_token ob) object_token
         then failM (mk_status NOT_FOUND ''object capability not found'')
         else retM ob))"

definition GetObjectMetadata :: "('db, 'snap, 'os) env \<Rightarrow> u64 \<Rightarrow> string \<Rightarrow>
    ('db, 'snap, 'os, object_metadata) core_op" where
  "GetObjectMetadata E object_id object_token =
     bindM EnsureAvailable (\<lambda>_.
     bindM (CreateLinearizedSnapshot E) (\<lambda>snapshot.
     bindM (LoadAuthorizedObject E snapshot object_id object_token) (\<lambda>ob.
     retM (metadata_of ob))))"

primrec BatchGetObjectMetadata_loop :: "('db, 'snap, 'os) env \<Rightarrow> 'snap \<Rightarrow> object_key list \<Rightarrow>
    object_metadata list \<Rightarrow> ('db, 'snap, 'os, object_metadata list) core_op" where
  "BatchGetObjectMetadata_loop E snapshot [] staged = retM staged"
| "BatchGetObjectMetadata_loop E snapshot (key # object_keys) staged =
     bindM (LoadAuthorizedObject E snapshot (ok_object_id key) (ok_object_token key)) (\<lambda>ob.
     BatchGetObjectMetadata_loop E snapshot object_keys (staged @ [metadata_of ob]))"

definition BatchGetObjectMetadata :: "('db, 'snap, 'os) env \<Rightarrow> object_key list \<Rightarrow>
    ('db, 'snap, 'os, object_metadata list) core_op" where
  "BatchGetObjectMetadata E object_keys =
     bindM EnsureAvailable (\<lambda>_.
     bindM (liftM (failIf (object_keys = [])
       (mk_status INVALID_ARGUMENT ''object_keys must not be empty''))) (\<lambda>_.
     bindM (liftM (ValidateObjectKeysShape object_keys)) (\<lambda>_.
     bindM (CreateLinearizedSnapshot E) (\<lambda>snapshot.
     BatchGetObjectMetadata_loop E snapshot object_keys []))))"

section \<open>Reading\<close>

text \<open>Running a computation on the storage and triggering the fatal handler for the errors that
  require it.\<close>

definition classifyM ::
  "('db, 'snap, 'os) env \<Rightarrow> ('db, 'snap, 'os, 'a) core_op \<Rightarrow> ('db, 'snap, 'os, 'a) core_op" where
  "classifyM E m c =
     (case m c of (Inl s, c') \<Rightarrow> failClassified E s c' | (Inr a, c') \<Rightarrow> (Inr a, c'))"

definition classifyO :: "('db, 'snap, 'os) env \<Rightarrow> (('db, 'snap, 'os) core, status, 'a) pop \<Rightarrow>
    (('db, 'snap, 'os) core, status, 'a) pop" where
  "classifyO E m c =
     (case m c of None \<Rightarrow> None | Some (Inl s, c') \<Rightarrow> Some (failClassified E s c')
      | Some (Inr a, c') \<Rightarrow> Some (Inr a, c'))"

definition ReadObject :: "('db, 'snap, 'os) env \<Rightarrow> u64 \<Rightarrow> string \<Rightarrow> u64 \<Rightarrow> u64 \<Rightarrow>
    (('db, 'snap, 'os) core, status, bytes) pop" where
  "ReadObject E object_id object_token offset nbytes =
     bindO (totalO (
       bindM EnsureAvailable (\<lambda>_.
       bindM (liftM (failIf (nbytes = 0)
         (mk_status INVALID_ARGUMENT ''nbytes must be greater than 0''))) (\<lambda>_.
       bindM (CreateLinearizedSnapshot E) (\<lambda>snapshot.
       bindM (LoadAuthorizedObject E snapshot object_id object_token) (\<lambda>ob.
       bindM (liftM (failIf (offset > so_nbytes ob)
         (mk_status OUT_OF_RANGE ''offset exceeds object size''))) (\<lambda>_.
       retM ob))))))) (\<lambda>ob.
     classifyO E (ReadObjectFile E ob offset nbytes))"

section \<open>Writing\<close>

definition SameObject :: "stored_object \<Rightarrow> stored_object \<Rightarrow> bool" where
  "SameObject left right \<longleftrightarrow>
     so_object_id left = so_object_id right \<and> so_object_token left = so_object_token right \<and>
     so_creator_principal left = so_creator_principal right \<and> so_name left = so_name right \<and>
     so_type left = so_type right \<and> so_description left = so_description right \<and>
     so_nbytes left = so_nbytes right"

text \<open>Both callers pass a status that is not ok, so the function ends with an error in every case.\<close>

definition CleanupPreparingObject :: "('db, 'snap, 'os) env \<Rightarrow> u64 \<Rightarrow> status \<Rightarrow>
    ('db, 'snap, 'os, 'a) core_op" where
  "CleanupPreparingObject E object_id res =
     bindM (classifyM E (CleanupObjectFiles E object_id)) (\<lambda>_.
     bindM (CommitBatch E (DeletePreparingObject [] object_id)) (\<lambda>_.
     failM res))"

definition invalid_object_request :: "write_object_request \<Rightarrow> bool" where
  "invalid_object_request request \<longleftrightarrow>
     wq_name request = [] \<or> length (wq_name request) > kMaxObjectNameBytes \<or>
     wq_type request = [] \<or> length (wq_type request) > kMaxObjectTypeBytes \<or>
     length (wq_description request) > kMaxObjectDescriptionBytes \<or> wq_data request = [] \<or>
     length (wq_data request) > kMaxObjectBytes"

definition WriteObject_check :: "write_object_request \<Rightarrow> ('db, 'snap, 'os, unit) core_op" where
  "WriteObject_check request =
     bindM EnsureAvailable (\<lambda>_.
     bindM (liftM (failIf (wq_principal request = 0)
       (mk_status INVALID_ARGUMENT ''principal must be greater than 0''))) (\<lambda>_.
     liftM (failIf (invalid_object_request request)
       (mk_status INVALID_ARGUMENT ''invalid object metadata or data size''))))"

definition object_of :: "write_object_request \<Rightarrow> string \<Rightarrow> u64 \<Rightarrow> stored_object" where
  "object_of request object_token object_id =
     \<lparr>so_object_id = object_id, so_object_token = object_token,
      so_creator_principal = wq_principal request, so_name = wq_name request, so_type = wq_type request,
      so_description = wq_description request, so_nbytes = of_nat (length (wq_data request))\<rparr>"

text \<open>The first critical section.\<close>

definition WriteObject_prepare :: "('db, 'snap, 'os) env \<Rightarrow> write_object_request \<Rightarrow> string \<Rightarrow>
    ('db, 'snap, 'os, stored_object) core_op" where
  "WriteObject_prepare E request object_token =
     bindM (askM (\<lambda>c. CreateSnapshot E (d_db c))) (\<lambda>snapshot.
     bindM (liftM (Authenticate E snapshot (wq_principal request) (wq_token request))) (\<lambda>_.
     bindM (liftM (GetNextObjectId E snapshot)) (\<lambda>next_object_id.
     let ob = object_of request object_token next_object_id in
     bindM (liftM (PutPreparingObject (proto_lib E) [] ob)) (\<lambda>batch.
     bindM (liftM (SetNextObjectId batch (so_object_id ob + 1))) (\<lambda>batch.
     bindM (CommitBatch E batch) (\<lambda>_.
     retM ob))))))"

text \<open>
  The second critical section ends with the object committed, with a return from the function after
  a fatal error, or with a final status and the flag whether a commit was attempted.
\<close>

datatype write_outcome = Committed | Returned status | Failed bool status

definition commit_object :: "('db, 'snap, 'os) env \<Rightarrow> write_object_request \<Rightarrow> stored_object \<Rightarrow>
    ('db, 'snap, 'os) core \<Rightarrow> write_outcome \<times> ('db, 'snap, 'os) core" where
  "commit_object E request ob c =
     (case CreateSnapshot E (d_db c) of
        Inl s \<Rightarrow> (Failed False s, c)
      | Inr snapshot \<Rightarrow>
     (case Authenticate E snapshot (wq_principal request) (wq_token request) of
        Inl s \<Rightarrow> (Failed False s, c)
      | Inr _ \<Rightarrow>
     (case GetPreparingObject E snapshot (so_object_id ob) of
        Inl s \<Rightarrow> if is_fatal s then (Returned s, FatalStorageError E s c) else (Failed False s, c)
      | Inr preparing \<Rightarrow>
          if (case preparing of None \<Rightarrow> True | Some p \<Rightarrow> \<not> SameObject p ob)
          then let s = StorageCorruption ''commit object metadata''
                         ''preparing object metadata changed unexpectedly''
               in (Returned s, FatalStorageError E s c)
          else
     (case PutCommittedObject (proto_lib E) [] ob of
        Inl s \<Rightarrow> (Failed False s, c)
      | Inr batch \<Rightarrow>
     (case CommitBatch E batch c of
        (Inl s, c') \<Rightarrow> (Failed True s, c')
      | (Inr _, c') \<Rightarrow> (Committed, c'))))))"

definition WriteObject_finish :: "('db, 'snap, 'os) env \<Rightarrow> write_object_request \<Rightarrow> stored_object \<Rightarrow>
    ('db, 'snap, 'os, write_object_response) core_op" where
  "WriteObject_finish E request ob c =
     (let (outcome, c') = commit_object E request ob c in
      case outcome of
        Committed \<Rightarrow>
          (Inr \<lparr>wo_object_id = so_object_id ob, wo_object_token = so_object_token ob\<rparr>, c')
      | Returned s \<Rightarrow> (Inl s, c')
      | Failed commit_attempted s \<Rightarrow>
          if commit_attempted then failFatal E s c'
          else if is_fatal s then failFatal E s c'
          else CleanupPreparingObject E (so_object_id ob) s c')"

text \<open>The file phase: an error that is not fatal removes what was prepared.\<close>

definition WriteObject_file :: "('db, 'snap, 'os) env \<Rightarrow> write_object_request \<Rightarrow> stored_object \<Rightarrow>
    (('db, 'snap, 'os) core, status, unit) pop" where
  "WriteObject_file E request ob c =
     (case WriteObjectFile E (so_object_id ob) (wq_data request) c of
        None \<Rightarrow> None
      | Some (Inr _, c') \<Rightarrow> Some (Inr (), c')
      | Some (Inl s, c') \<Rightarrow>
          Some (if is_fatal s then failFatal E s c' else CleanupPreparingObject E (so_object_id ob) s c'))"

definition WriteObject :: "('db, 'snap, 'os) env \<Rightarrow> write_object_request \<Rightarrow>
    (('db, 'snap, 'os) core, status, write_object_response) pop" where
  "WriteObject E request =
     bindO (totalO (WriteObject_check request)) (\<lambda>_.
     bindO (on_os_pop (GenerateObjectToken (posix_api E))) (\<lambda>object_token.
     bindO (totalO (WriteObject_prepare E request object_token)) (\<lambda>ob.
     bindO (WriteObject_file E request ob) (\<lambda>_.
     totalO (WriteObject_finish E request ob)))))"

section \<open>Lookup against the log\<close>

text \<open>The holder of a token may use the object it was issued for.\<close>

definition capability :: "event_log \<Rightarrow> u64 \<Rightarrow> string \<Rightarrow> stored_object \<Rightarrow> bool" where
  "capability l object_id object_token ob \<longleftrightarrow>
     lg_objects l object_id = Some ob \<and> so_object_token ob = object_token \<and> valid_object object_id ob"

lemma runs_LoadAuthorizedObject [wp]:
  assumes laws: "env_laws E"
    and ok: "\<And>ob. capability (log_in E s) i token ob \<Longrightarrow> Q ob c" and error: "\<And>e c'. same_state c c' \<Longrightarrow> R e c'"
  shows "runs (LoadAuthorizedObject E s i token) c Q R"
  unfolding LoadAuthorizedObject_def
proof (intro wp error same_state_refl, goal_cases)
  case (1 _ loaded ob)
  then show ?case
    using object_log(1,3) [OF laws] env_lawsD(3) [OF laws] by (intro ok) (auto simp: capability_def)
qed

lemma ReadObject_result:
  assumes laws: "env_laws E" and run: "ReadObject E i token offset n c = Some (Inr bs, c')"
  shows "\<exists>ob d. capability (log_at E c) i token ob \<and> offset \<le> so_nbytes ob \<and> n \<noteq> 0 \<and>
    os_dir (posix_api E) (d_os c) (FinalName i) = Some (RegularFile d) \<and> length d = unat (so_nbytes ob) \<and>
    bs = take (unat n) (drop (unat offset) d) \<and> contents E c' = contents E c \<and>
    os_dir (posix_api E) (d_os c') = os_dir (posix_api E) (d_os c)"
proof -
  let ?lookup = "bindM EnsureAvailable (\<lambda>_.
       bindM (liftM (failIf (n = 0) (mk_status INVALID_ARGUMENT ''nbytes must be greater than 0''))) (\<lambda>_.
       bindM (CreateLinearizedSnapshot E) (\<lambda>snapshot.
       bindM (LoadAuthorizedObject E snapshot i token) (\<lambda>ob.
       bindM (liftM (failIf (offset > so_nbytes ob) (mk_status OUT_OF_RANGE ''offset exceeds object size''))) (\<lambda>_.
       retM ob)))))"
  have lookup: "runs ?lookup c (\<lambda>ob c1. c1 = c \<and> capability (log_at E c) i token ob \<and> offset \<le> so_nbytes ob \<and> n \<noteq> 0)
      (\<lambda>_ _. True)"
    by (intro wp laws) (auto simp: CreateSnapshot_view [OF laws] not_less)
  from run obtain ob where found: "?lookup c = (Inr ob, c)" and cap: "capability (log_at E c) i token ob"
    "offset \<le> so_nbytes ob" "n \<noteq> 0" and read: "classifyO E (ReadObjectFile E ob offset n) c = Some (Inr bs, c')"
    using runsD(1) [OF lookup] by (fastforce simp: ReadObject_def bind_inv)
  from read obtain os' where rr: "ReadRange (posix_api E) (so_object_id ob) (so_nbytes ob) offset n (d_os c) =
      Some (Inr bs, os')" and "c' = c\<lparr>d_os := os'\<rparr>"
    by (auto simp: classifyO_def ReadObjectFile_def on_os_pop_def failClassified_def failFatal_def
        split: option.splits prod.splits sum.splits if_splits)
  moreover have "so_object_id ob = i" using cap(1) by (simp add: capability_def valid_object_def)
  ultimately show ?thesis using ReadRange_data [OF env_lawsD(3) [OF laws] rr] cap by auto
qed

section \<open>The phases of a write against the log\<close>

definition prepare_effect :: "write_object_request \<Rightarrow> string \<Rightarrow> stored_object \<Rightarrow> event_log \<Rightarrow> event_log \<Rightarrow> bool" where
  "prepare_effect q token ob l l' \<longleftrightarrow>
     authentic l (wq_principal q) (wq_token q) \<and> ob = object_of q token (lg_next_object_id l) \<and>
     l' = l\<lparr>lg_preparing := (lg_preparing l)(so_object_id ob \<mapsto> ob), lg_next_object_id := lg_next_object_id l + 1\<rparr>"

lemma WriteObject_prepare_outcome:
  assumes laws: "env_laws E" and avail: "\<not> fatal_error_triggered c"
  shows "handler_outcome E (prepare_effect q token) (WriteObject_prepare E q token) c"
  unfolding WriteObject_prepare_def Let_def
proof (intro wp outcome laws avail, goal_cases)
  case (1 s _ next_id b b')
  have "next_id = lg_next_object_id (log_at E c)"
    using counter_log(4) [OF laws 1(3)] CreateSnapshot_view [OF laws 1(1)] by simp
  then show ?case
    using Authenticate_log [OF laws 1(2)] CreateSnapshot_view [OF laws 1(1)]
      object_writes(1) [OF laws 1(4), of "contents E c"] counter_writes(4) [OF 1(5)]
    by (auto simp: prepare_effect_def object_of_def)
qed

definition commit_effect :: "write_object_request \<Rightarrow> stored_object \<Rightarrow> event_log \<Rightarrow> event_log \<Rightarrow> bool" where
  "commit_effect q ob l l' \<longleftrightarrow>
     authentic l (wq_principal q) (wq_token q) \<and> lg_preparing l (so_object_id ob) = Some ob \<and>
     l' = l\<lparr>lg_preparing := (lg_preparing l)(so_object_id ob := None),
       lg_objects := (lg_objects l)(so_object_id ob \<mapsto> ob)\<rparr>"

lemma SameObject_eq: "SameObject a b \<longleftrightarrow> a = b"
  by (auto simp: SameObject_def)

lemma commit_object_committed:
  assumes laws: "env_laws E" and run: "commit_object E q ob c = (Committed, c')"
  shows "commit_effect q ob (log_at E c) (log_at E c')" and "d_os c' = d_os c"
    and "fatal_error_triggered c' = fatal_error_triggered c"
proof -
  from run obtain s b where snap: "CreateSnapshot E (d_db c) = Inr s"
    and auth: "Authenticate E s (wq_principal q) (wq_token q) = Inr ()"
    and prep: "GetPreparingObject E s (so_object_id ob) = Inr (Some ob)"
    and batch: "PutCommittedObject (proto_lib E) [] ob = Inr b"
    and commit: "CommitBatch E b c = (Inr (), c')"
    by (auto simp: commit_object_def Let_def SameObject_eq split: sum.splits if_splits option.splits prod.splits)
  note after = CommitBatch_ok [OF laws commit, unfolded after_commit_def]
  show "commit_effect q ob (log_at E c) (log_at E c')"
    using Authenticate_log [OF laws auth] object_log(2) [OF laws prep] CreateSnapshot_view [OF laws snap]
      object_writes(2) [OF laws batch, of "contents E c"] after
    by (auto simp: commit_effect_def)
  show "d_os c' = d_os c" "fatal_error_triggered c' = fatal_error_triggered c" using after by auto
qed

lemma WriteObject_finish_result:
  assumes laws: "env_laws E" and run: "WriteObject_finish E q ob c = (Inr r, c')"
  shows "commit_effect q ob (log_at E c) (log_at E c')" and "d_os c' = d_os c"
    and "r = \<lparr>wo_object_id = so_object_id ob, wo_object_token = so_object_token ob\<rparr>"
proof -
  from run have "commit_object E q ob c = (Committed, c')"
    and "r = \<lparr>wo_object_id = so_object_id ob, wo_object_token = so_object_token ob\<rparr>"
    by (auto simp: WriteObject_finish_def failFatal_def CleanupPreparingObject_def bind_inv
        split: prod.splits write_outcome.splits if_splits)
  with commit_object_committed [OF laws this(1)]
  show "commit_effect q ob (log_at E c) (log_at E c')" "d_os c' = d_os c"
    "r = \<lparr>wo_object_id = so_object_id ob, wo_object_token = so_object_token ob\<rparr>" by auto
qed

lemma WriteObject_file_result:
  assumes laws: "env_laws E" and run: "WriteObject_file E q ob c = Some (Inr u, c')"
  shows "d_db c' = d_db c" and "fatal_error_triggered c' = fatal_error_triggered c"
    and "os_dir (posix_api E) (d_os c') = 
      (os_dir (posix_api E) (d_os c))(FinalName (so_object_id ob) \<mapsto> RegularFile (wq_data q))"
    and "os_dir (posix_api E) (d_os c) (FinalName (so_object_id ob)) = None"
proof -
  from run obtain os' where w: "Write (posix_api E) (fault_injector E) (so_object_id ob) (wq_data q) (d_os c) =
      Some (Inr (), os')" and c': "c' = c\<lparr>d_os := os'\<rparr>"
    by (auto simp: WriteObject_file_def WriteObjectFile_def on_os_pop_def failFatal_def CleanupPreparingObject_def
        bind_inv split: option.splits prod.splits sum.splits if_splits)
  from hoareOD(1) [OF Write_triple [OF env_lawsD(3) [OF laws]] refl w]
  have "wr_renamed (posix_api E) (os_dir (posix_api E) (d_os c)) (TemporaryName (so_object_id ob))
      (FinalName (so_object_id ob)) (wq_data q) os'" .
  with c' show "d_db c' = d_db c" "fatal_error_triggered c' = fatal_error_triggered c"
    "os_dir (posix_api E) (d_os c') = 
      (os_dir (posix_api E) (d_os c))(FinalName (so_object_id ob) \<mapsto> RegularFile (wq_data q))"
    "os_dir (posix_api E) (d_os c) (FinalName (so_object_id ob)) = None"
    by (auto simp: wr_renamed_def fun_eq_iff)
qed

lemma on_os_pop_GenerateObjectToken:
  assumes "env_laws E" and "on_os_pop (GenerateObjectToken (posix_api E)) c = Some (r, c1)"
  shows "c1 = c\<lparr>d_os := d_os c1\<rparr>" and "os_dir (posix_api E) (d_os c1) = os_dir (posix_api E) (d_os c)"
    and "r = Inr t \<Longrightarrow> IsBase64UrlToken t"
  using GenerateObjectToken_spec [OF env_lawsD(3) [OF assms(1)], of "d_os c"] assms(2)
  by (auto simp: on_os_pop_def)

text \<open>The log and the directory with a committed object.\<close>

definition store_object :: "stored_object \<Rightarrow> event_log \<Rightarrow> event_log" where
  "store_object ob l = l\<lparr>lg_next_object_id := lg_next_object_id l + 1,
     lg_preparing := (lg_preparing l)(so_object_id ob := None), lg_objects := (lg_objects l)(so_object_id ob \<mapsto> ob)\<rparr>"

lemma WriteObject_check_Inr:
  "WriteObject_check q c = (Inr u, c') \<Longrightarrow>
     c' = c \<and> \<not> fatal_error_triggered c \<and> wq_principal q \<noteq> 0 \<and> \<not> invalid_object_request q"
  by (cases "fatal_error_triggered c") (auto simp: WriteObject_check_def bind_inv)

lemma WriteObject_result:
  assumes laws: "env_laws E" and run: "WriteObject E q c = Some (Inr r, c')"
  shows "\<exists>ob. ob = object_of q (wo_object_token r) (lg_next_object_id (log_at E c)) \<and>
      wo_object_id r = so_object_id ob \<and> IsBase64UrlToken (wo_object_token r) \<and>
      \<not> invalid_object_request q \<and> authentic (log_at E c) (wq_principal q) (wq_token q) \<and>
      log_at E c' = store_object ob (log_at E c) \<and>
      os_dir (posix_api E) (d_os c) (FinalName (so_object_id ob)) = None \<and>
      os_dir (posix_api E) (d_os c') =
        (os_dir (posix_api E) (d_os c))(FinalName (so_object_id ob) \<mapsto> RegularFile (wq_data q))"
proof -
  from run obtain c0 c1 token c2 ob c3 where check: "WriteObject_check q c = (Inr (), c0)"
    and gen0: "on_os_pop (GenerateObjectToken (posix_api E)) c0 = Some (Inr token, c1)"
    and prep: "WriteObject_prepare E q token c1 = (Inr ob, c2)"
    and wrote: "WriteObject_file E q ob c2 = Some (Inr (), c3)"
    and fin: "WriteObject_finish E q ob c3 = (Inr r, c')"
    by (auto simp: WriteObject_def bindO_Inr)
  from check have "c0 = c" and avail: "\<not> fatal_error_triggered c" and valid: "\<not> invalid_object_request q"
    by (auto dest: WriteObject_check_Inr)
  with gen0 have gen: "on_os_pop (GenerateObjectToken (posix_api E)) c = Some (Inr token, c1)" by simp
  note os = on_os_pop_GenerateObjectToken [OF laws gen]
  from os(1) obtain x where c1: "c1 = c\<lparr>d_os := x\<rparr>" by metis
  have p: "prepare_effect q token ob (log_at E c) (log_at E c2)" "d_os c2 = d_os c1"
    using runsD(1) [OF WriteObject_prepare_outcome [OF laws] prep] avail c1 by (simp_all add: succeeded_def)
  note f = WriteObject_file_result [OF laws wrote]
  note e = WriteObject_finish_result [OF laws fin]
  have "log_at E c3 = log_at E c2" using f(1) by simp
  with p e have "log_at E c' = store_object ob (log_at E c)"
    by (simp add: prepare_effect_def commit_effect_def store_object_def)
  moreover from p(1) have ob: "ob = object_of q token (lg_next_object_id (log_at E c))"
    and auth: "authentic (log_at E c) (wq_principal q) (wq_token q)"
    unfolding prepare_effect_def by blast+
  moreover have "so_object_token ob = token" unfolding ob by (simp add: object_of_def)
  ultimately show ?thesis
    using e(2,3) f(3,4) p(2) os(2,3) valid by simp
qed

section \<open>A failed write\<close>

text \<open>Only the commit of the second critical section adds a committed object; if it fails, the fatal
  state is latched.\<close>

definition objects_kept :: "('db, 'snap, 'os) env \<Rightarrow> ('db, 'snap, 'os) core \<Rightarrow> ('db, 'snap, 'os) core \<Rightarrow> bool" where
  "objects_kept E c c' \<longleftrightarrow> lg_objects (log_at E c') = lg_objects (log_at E c) \<or> fatal_error_triggered c'"

lemma FatalStorageError_log [simp]: "log_at E (FatalStorageError E s c) = log_at E c"
  by simp

lemma runs_CleanupPreparingObject:
  assumes laws: "env_laws E"
  shows "runs (CleanupPreparingObject E i s) c (\<lambda>_ _. False) (\<lambda>_. objects_kept E c)"
proof -
  obtain r1 os1 where cl: "Cleanup (posix_api E) [i] (d_os c) = (r1, os1)" by fastforce
  let ?c1 = "c\<lparr>d_os := os1\<rparr>"
  have "runs (bindM (CommitBatch E (DeletePreparingObject [] i)) (\<lambda>_. failM s)) ?c1 (\<lambda>_ _. False)
      (\<lambda>_. objects_kept E c)"
    by (intro wp runs_CommitBatch [OF laws])
      (auto simp: objects_kept_def after_commit_def failed_commit_def object_writes(3) [OF laws, of "[]", simplified])
  with cl show ?thesis unfolding CleanupPreparingObject_def
    by (intro runs_bindM, cases r1) (auto simp: runs_def classifyM_def CleanupObjectFiles_def on_os_def
        failClassified_def failFatal_def objects_kept_def)
qed

lemma commit_object_failed:
  assumes "commit_object E q ob c = (out, c')" and "out \<noteq> Committed"
  shows "(\<exists>s. out = Failed True s) \<or> lg_objects (log_at E c') = lg_objects (log_at E c)"
  using assms
  by (auto simp: commit_object_def Let_def split: sum.splits if_splits option.splits prod.splits)

lemma runs_WriteObject_finish:
  assumes laws: "env_laws E"
  shows "runs (WriteObject_finish E q ob) c (\<lambda>_ _. True) (\<lambda>_. objects_kept E c)"
proof -
  obtain out c1 where out: "commit_object E q ob c = (out, c1)" by fastforce
  show ?thesis
  proof (cases out)
    case (Failed attempted s)
    show ?thesis
    proof (cases "attempted \<or> is_fatal s")
      case True
      with out Failed show ?thesis
        by (auto simp: runs_def WriteObject_finish_def failFatal_def objects_kept_def)
    next
      case False
      have kept: "lg_objects (log_at E c1) = lg_objects (log_at E c)"
        using commit_object_failed [OF out] Failed False by auto
      have eq: "WriteObject_finish E q ob c = CleanupPreparingObject E (so_object_id ob) s c1"
        using out Failed False by (simp add: WriteObject_finish_def)
      have "runs (CleanupPreparingObject E (so_object_id ob) s) c1 (\<lambda>_ _. True) (\<lambda>_. objects_kept E c)"
        by (rule runs_mono [OF runs_CleanupPreparingObject [OF laws]]) (use kept in \<open>simp_all add: objects_kept_def\<close>)
      then show ?thesis unfolding runs_def eq .
    qed
  qed (use out commit_object_failed [OF out] in
      \<open>auto simp: runs_def WriteObject_finish_def objects_kept_def\<close>)
qed

lemma WriteObject_check_Inl: "WriteObject_check q c = (Inl e, c') \<Longrightarrow> c' = c"
  by (cases "fatal_error_triggered c") (auto simp: WriteObject_check_def bind_inv)

lemma WriteObject_file_failed:
  assumes laws: "env_laws E" and run: "WriteObject_file E q ob c = Some (Inl e, c')"
  shows "objects_kept E c c'"
proof -
  from run obtain s os' where "(if is_fatal s then failFatal E s (c\<lparr>d_os := os'\<rparr>)
      else CleanupPreparingObject E (so_object_id ob) s (c\<lparr>d_os := os'\<rparr>)) = (Inl e :: status + unit, c')"
    by (auto simp: WriteObject_file_def WriteObjectFile_def on_os_pop_def split: option.splits prod.splits sum.splits)
  then show ?thesis
    using runsD(2) [OF runs_CleanupPreparingObject [OF laws, of "so_object_id ob" s "c\<lparr>d_os := os'\<rparr>"]]
    by (auto simp: failFatal_def objects_kept_def split: if_splits)
qed

text \<open>Each phase hands the committed objects on unchanged, so that a failure of any of them keeps
  them.\<close>

definition objects_are :: "('db, 'snap, 'os) env \<Rightarrow> (u64 \<rightharpoonup> stored_object) \<Rightarrow> ('db, 'snap, 'os) core \<Rightarrow> bool" where
  "objects_are E m c \<longleftrightarrow> lg_objects (log_at E c) = m \<and> \<not> fatal_error_triggered c"

abbreviation objects_stay :: "('db, 'snap, 'os) env \<Rightarrow> (u64 \<rightharpoonup> stored_object) \<Rightarrow> ('db, 'snap, 'os) core \<Rightarrow> bool" where
  "objects_stay E m c \<equiv> lg_objects (log_at E c) = m \<or> fatal_error_triggered c"

lemma WriteObject_phases_keep:
  assumes laws: "env_laws E"
  shows "hoareO (objects_are E m) (on_os_pop (GenerateObjectToken (posix_api E))) (\<lambda>_. objects_are E m) (objects_stay E m)"
    and "hoareO (objects_are E m) (totalO (WriteObject_prepare E q token)) (\<lambda>_. objects_are E m) (objects_stay E m)"
    and "hoareO (objects_are E m) (WriteObject_file E q ob) (\<lambda>_. objects_are E m) (objects_stay E m)"
    and "hoareO (objects_are E m) (totalO (WriteObject_finish E q ob)) (\<lambda>_ _. True) (objects_stay E m)"
proof (goal_cases)
  case 1
  show ?case
    by (intro hoareOI) (auto simp: objects_are_def on_os_pop_def split: option.splits prod.splits)
next
  case 2
  have "objects_are E m s'" if "objects_are E m s" "WriteObject_prepare E q token s = (Inr ob, s')" for s ob s'
    using runsD(1) [OF WriteObject_prepare_outcome [OF laws] that(2)] that(1)
    by (auto simp: objects_are_def succeeded_def prepare_effect_def)
  moreover have "objects_stay E m s'" if "objects_are E m s" "WriteObject_prepare E q token s = (Inl e, s')" for s e s'
    using runsD(2) [OF WriteObject_prepare_outcome [OF laws] that(2)] that(1)
    by (auto simp: objects_are_def gave_up_def same_state_def)
  ultimately show ?case by (intro hoareOI) simp_all
next
  case 3
  have "objects_are E m s'" if "objects_are E m s" "WriteObject_file E q ob s = Some (Inr u, s')" for s u s'
    using WriteObject_file_result(1,2) [OF laws that(2)] that(1) by (simp add: objects_are_def)
  moreover have "objects_stay E m s'" if "objects_are E m s" "WriteObject_file E q ob s = Some (Inl e, s')" for s e s'
    using WriteObject_file_failed [OF laws that(2)] that(1) by (simp add: objects_are_def objects_kept_def)
  ultimately show ?case by (intro hoareOI)
next
  case 4
  have "objects_stay E m s'" if "objects_are E m s" "WriteObject_finish E q ob s = (Inl e, s')" for s e s'
    using runsD(2) [OF runs_WriteObject_finish [OF laws] that(2)] that(1) by (simp add: objects_are_def objects_kept_def)
  then show ?case by (intro hoareOI) simp_all
qed

lemma WriteObject_failure:
  assumes laws: "env_laws E" and run: "WriteObject E q c = Some (Inl e, c')"
  shows "objects_kept E c c'"
proof (cases "fatal_error_triggered c")
  case True
  with run show ?thesis by (auto simp: WriteObject_def WriteObject_check_def bind_inv objects_kept_def)
next
  case False
  let ?m = "lg_objects (log_at E c)"
  have check: "hoareO (\<lambda>s. s = c) (totalO (WriteObject_check q)) (\<lambda>_. objects_are E ?m) (objects_stay E ?m)"
    using False by (intro hoareOI) (auto dest: WriteObject_check_Inr WriteObject_check_Inl simp: objects_are_def)
  have "hoareO (\<lambda>s. s = c) (WriteObject E q) (\<lambda>_ _. True) (objects_stay E ?m)"
    unfolding WriteObject_def
    by (intro hoareO_bindO [OF check] hoareO_bindO [OF WriteObject_phases_keep(1) [OF laws]]
        hoareO_bindO [OF WriteObject_phases_keep(2) [OF laws]] hoareO_bindO [OF WriteObject_phases_keep(3) [OF laws]]
        WriteObject_phases_keep(4) [OF laws])
  from hoareOD(2) [OF this refl run] show ?thesis by (simp add: objects_kept_def)
qed

lemma WriteObject_returns: "env_laws E \<Longrightarrow> WriteObject E q c \<noteq> None"
proof -
  assume laws: "env_laws E"
  then have int: "interrupt_law (posix_api E)" using posix_lawsD(8) env_lawsD(3) by blast
  have "on_os_pop (GenerateObjectToken (posix_api E)) s \<noteq> None" for s :: "('a, 'b, 'c) core"
    using GenerateObjectToken_spec [OF env_lawsD(3) [OF laws], of "d_os s"] by (auto simp: on_os_pop_def)
  moreover have "WriteObject_file E q ob s \<noteq> None" for ob and s :: "('a, 'b, 'c) core"
    using Write_returns [OF int, of "fault_injector E" "so_object_id ob" "wq_data q" "d_os s"]
    by (auto simp: WriteObject_file_def WriteObjectFile_def on_os_pop_def split: option.splits sum.splits)
  ultimately show ?thesis unfolding WriteObject_def by (intro frame) simp_all
qed

lemma ReadObject_returns: "env_laws E \<Longrightarrow> ReadObject E i token offset n c \<noteq> None"
proof -
  assume laws: "env_laws E"
  then have int: "interrupt_law (posix_api E)" using posix_lawsD(8) env_lawsD(3) by blast
  have "classifyO E (ReadObjectFile E ob offset n) s \<noteq> None" for ob and s :: "('a, 'b, 'c) core"
    using ReadRange_returns [OF int, of "so_object_id ob" "so_nbytes ob" offset n "d_os s"]
    by (auto simp: classifyO_def ReadObjectFile_def on_os_pop_def split: option.splits sum.splits)
  then show ?thesis unfolding ReadObject_def by (intro frame) simp_all
qed

end
