(* ===== verification/Core_Tokens.thy ===== *)
theory Core_Tokens
  imports Core_Contract Tokens Reference_Env
begin

text \<open>The credentials of principals: \<^verbatim>\<open>OpenEventCore::AddToken\<close> and
  \<^verbatim>\<open>OpenEventCore::DeleteToken\<close>.\<close>

definition AddToken :: "('db, 'snap, 'os) env \<Rightarrow> u64 \<Rightarrow> (('db, 'snap, 'os) core, status, string) pop" where
  "AddToken E prin =
     bindO (totalO (
       bindM EnsureAvailable (\<lambda>_.
       liftM (failIf (prin = 0) (mk_status INVALID_ARGUMENT ''principal must be greater than 0''))))) (\<lambda>_.
     bindO (on_os_pop (GenerateToken (posix_api E))) (\<lambda>token.
     totalO (
       bindM (liftM (PutToken [] prin token)) (\<lambda>batch.
       bindM (CommitBatch E batch) (\<lambda>_.
       retM token)))))"

definition core_DeleteToken :: "('db, 'snap, 'os) env \<Rightarrow> u64 \<Rightarrow> string \<Rightarrow> ('db, 'snap, 'os, unit) core_op" where
  "core_DeleteToken E prin token =
     bindM EnsureAvailable (\<lambda>_.
     bindM (liftM (failIf (prin = 0 \<or> token = [])
       (mk_status INVALID_ARGUMENT ''principal must be greater than 0 and token must not be empty''))) (\<lambda>_.
     CommitBatch E (DeleteToken [] prin token)))"

section \<open>Effect on the log\<close>

definition set_token :: "u64 \<Rightarrow> string \<Rightarrow> bool \<Rightarrow> event_log \<Rightarrow> event_log" where
  "set_token prin token b l = l\<lparr>lg_tokens := (lg_tokens l)((prin, token) := b)\<rparr>"

lemma DeleteToken_outcome:
  assumes laws: "env_laws E"
  shows "handler_outcome E (\<lambda>_ l l'. prin \<noteq> 0 \<and> token \<noteq> [] \<and> l' = set_token prin token False l)
    (core_DeleteToken E prin token) c"
  unfolding core_DeleteToken_def
  by (intro wp outcome laws) (simp_all add: token_writes set_token_def)

lemma delete_token_latched:
  "fatal_error_triggered c \<Longrightarrow> core_DeleteToken E prin token c = (Inl unavailable, c)"
  by (simp add: core_DeleteToken_def)

interpretation delete_token: log_handler "\<lambda>E (prin, token). core_DeleteToken E prin token"
  "\<lambda>_ (prin, token) _ l l'. prin \<noteq> 0 \<and> token \<noteq> [] \<and> l' = set_token prin token False l"
  by unfold_locales (auto simp: delete_token_latched intro: DeleteToken_outcome)

text \<open>The part of \<open>AddToken\<close> after the token has been generated.\<close>

lemma AddToken_commit_outcome:
  assumes laws: "env_laws E" and "\<not> fatal_error_triggered c"
  shows "handler_outcome E (\<lambda>t l l'. t = token \<and> l' = set_token prin token True l)
    (bindM (liftM (PutToken [] prin token)) (\<lambda>batch. bindM (CommitBatch E batch) (\<lambda>_. retM token))) c"
  using assms(2) by (intro wp outcome laws) (simp_all add: token_writes set_token_def)

lemma on_os_pop_GenerateToken:
  assumes "env_laws E" and "on_os_pop (GenerateToken (posix_api E)) c = Some (r, c1)"
  shows "c1 = c\<lparr>d_os := d_os c1\<rparr>" and "os_dir (posix_api E) (d_os c1) = os_dir (posix_api E) (d_os c)"
    and "r = Inr t \<Longrightarrow> \<exists>bs. length bs = 16 \<and> t = format_token bs"
  using GenerateToken_spec [OF env_lawsD(3) [OF assms(1)], of "d_os c"] assms(2)
  by (auto simp: on_os_pop_def)

lemma AddToken_result:
  assumes laws: "env_laws E" and run: "AddToken E prin c = Some (Inr token, c')"
  shows "prin \<noteq> 0" and "\<exists>bs. length bs = 16 \<and> token = format_token bs"
    and "log_at E c' = set_token prin token True (log_at E c)"
    and "os_dir (posix_api E) (d_os c') = os_dir (posix_api E) (d_os c)"
proof -
  from run obtain c1 where avail: "\<not> fatal_error_triggered c" and "prin \<noteq> 0"
    and gen: "on_os_pop (GenerateToken (posix_api E)) c = Some (Inr token, c1)"
    and commit: "bindM (liftM (PutToken [] prin token)) (\<lambda>batch. bindM (CommitBatch E batch) (\<lambda>_. retM token)) c1 =
      (Inr token, c')"
    by (cases "fatal_error_triggered c") (auto simp: AddToken_def bind_inv)
  note os = on_os_pop_GenerateToken [OF laws gen]
  from os(1) obtain x where c1: "c1 = c\<lparr>d_os := x\<rparr>" by metis
  have "succeeded E (\<lambda>t l l'. t = token \<and> l' = set_token prin token True l) c1 token c'"
    using runsD(1) [OF AddToken_commit_outcome [OF laws] commit] avail c1 by simp
  with c1 os show "prin \<noteq> 0" "\<exists>bs. length bs = 16 \<and> token = format_token bs"
    "log_at E c' = set_token prin token True (log_at E c)"
    "os_dir (posix_api E) (d_os c') = os_dir (posix_api E) (d_os c)"
    using \<open>prin \<noteq> 0\<close> by (auto simp: succeeded_def)
qed

lemma AddToken_returns: "env_laws E \<Longrightarrow> AddToken E prin c \<noteq> None"
proof -
  assume "env_laws E"
  then have "on_os_pop (GenerateToken (posix_api E)) s \<noteq> None" for s :: "('a, 'b, 'c) core"
    using GenerateToken_spec [OF env_lawsD(3), of E "d_os s"] by (auto simp: on_os_pop_def)
  then show ?thesis unfolding AddToken_def by (intro frame) simp_all
qed

section \<open>Properties\<close>

text \<open>
  C23: A credential issued for a principal is valid for that principal, and once it has been deleted for the principal
  it is no longer, so that the authentication of the principal with it fails on every snapshot of the state that is left. Both
  operations leave every other pair of principal and token as it was, in particular the same token of another
  principal.
\<close>

theorem token_lifecycle:
  assumes "env_laws E" and "AddToken E prin c = Some (Inr token, c1)"
    and "core_DeleteToken E prin token c2 = (Inr u, c3)"
  shows "authentic (log_at E c1) prin token \<and> \<not> authentic (log_at E c3) prin token \<and>
    (\<forall>s. CreateSnapshot E (d_db c3) = Inr s \<longrightarrow> Authenticate E s prin token \<noteq> Inr ()) \<and>
    (\<forall>p t. (p, t) \<noteq> (prin, token) \<longrightarrow> authentic (log_at E c1) p t = authentic (log_at E c) p t \<and>
      authentic (log_at E c3) p t = authentic (log_at E c2) p t)"
proof -
  obtain bs where "length bs = 16" "token = format_token bs" using AddToken_result(2) [OF assms(1,2)] by blast
  then have "token \<noteq> []" using length_format_token [of bs] by auto
  moreover have "log_at E c3 = set_token prin token False (log_at E c2)"
    using delete_token.committed(1) [of E "(prin, token)"] assms(1,3) by simp
  ultimately have logs: "authentic (log_at E c1) prin token" "\<not> authentic (log_at E c3) prin token"
    "\<And>p t. (p, t) \<noteq> (prin, token) \<Longrightarrow> authentic (log_at E c1) p t = authentic (log_at E c) p t \<and>
      authentic (log_at E c3) p t = authentic (log_at E c2) p t"
    using AddToken_result(1,3) [OF assms(1,2)] by (auto simp: authentic_def set_token_def)
  have "Authenticate E s prin token \<noteq> Inr ()" if "CreateSnapshot E (d_db c3) = Inr s" for s
    using Authenticate_log [OF assms(1)] CreateSnapshot_view [OF assms(1) that] logs(2) by fastforce
  with logs show ?thesis by blast
qed

lemma ref_fill_random: "length bs < n \<Longrightarrow> fill_random ref_posix n bs os = Some (Inr (bs @ replicate (n - length bs) (CHR ''r'')), os)"
proof -
  assume "length bs < n"
  moreover have "fill_random ref_posix n cs os = Some (Inr cs, os)" if "length cs = n" for cs
    using that by (subst fill_random.simps) simp
  ultimately show ?thesis
    by (subst fill_random.simps) (simp add: ref_posix_def Let_def)
qed

theorem token_lifecycle_witness:
  "\<exists>token c1 c3. AddToken ref_env 9 (ref_core ref_state) = Some (Inr token, c1) \<and>
     core_DeleteToken ref_env 9 token c1 = (Inr (), c3) \<and> \<not> authentic (log_at ref_env c3) 9 token \<and>
     authentic (log_at ref_env c3) 7 ''t'' = authentic (log_at ref_env c1) 7 ''t''"
proof -
  let ?token = "format_token (replicate 16 (CHR ''r''))" and ?c = "ref_core ref_state"
  have gen: "on_os_pop (GenerateToken ref_posix) ?c = Some (Inr ?token, ?c)"
    using ref_fill_random [of "[]" 16 "d_os ?c"] by (simp add: on_os_pop_def GenerateToken_def ref_core_def)
  obtain c1 where add: "AddToken ref_env 9 ?c = Some (Inr ?token, c1)" and avail: "\<not> fatal_error_triggered c1"
    using gen by (simp add: AddToken_def PutToken_def)
  have "?token \<noteq> []" using length_format_token [of "replicate 16 (CHR ''r'')"] by auto
  with avail obtain c3 where "core_DeleteToken ref_env 9 ?token c1 = (Inr (), c3)"
    by (simp add: core_DeleteToken_def)
  with add token_lifecycle [OF ref_env_laws add this] show ?thesis by fastforce
qed

end
