(* ===== verification/Listings.thy ===== *)
theory Listings
  imports Event_Log
begin

text \<open>
  The two loops of the storage that list all entries of a kind: channels and objects in preparation.
  Both walk an iterator while the keys carry a prefix, decode each key and value, and stop with an error
  at the first entry that does not decode. The locale \<open>prefix_listing\<close> is what they share: a
  listing that succeeds holds every entry of the kind, decoded, in the order of the numbers.
\<close>

lemma list_all2_partner:
  "list_all2 R xs ys \<Longrightarrow> x \<in> set xs \<Longrightarrow> \<exists>y \<in> set ys. R x y"
  "list_all2 R xs ys \<Longrightarrow> y \<in> set ys \<Longrightarrow> \<exists>x \<in> set xs. R x y"
  by (induction rule: list_all2_induct) auto

locale prefix_listing =
  fixes p :: bytes
    and decode :: "proto \<Rightarrow> bytes \<Rightarrow> u64 \<Rightarrow> 'x result"
    and loop :: "proto \<Rightarrow> (bytes \<times> bytes) list \<Rightarrow> 'x list \<Rightarrow> ('x list \<times> (bytes \<times> bytes) list) result"
    and description :: string
  assumes loop_Nil: "loop P [] xs = Inr (xs, [])"
    and loop_Cons: "loop P ((k, v) # rest) xs =
      (if \<not> prefix p k then Inr (xs, (k, v) # rest)
       else bindR (DecodeNumericKey k p description) (\<lambda>i. bindR (decode P v i) (\<lambda>x. loop P rest (xs @ [x]))))"
begin

abbreviation with_prefix :: "bytes \<times> bytes \<Rightarrow> bool" where
  "with_prefix \<equiv> \<lambda>(k, _). prefix p k"

definition decodes :: "proto \<Rightarrow> bytes \<times> bytes \<Rightarrow> 'x \<Rightarrow> bool" where
  "decodes P e x \<longleftrightarrow> (\<exists>i. fst e = NumericKey p i \<and> decode P (snd e) i = Inr x)"

lemma loop_result:
  "loop P es acc = Inr (xs, rest) \<Longrightarrow> rest = dropWhile with_prefix es \<and>
     (\<exists>ys. xs = acc @ ys \<and> list_all2 (decodes P) (takeWhile with_prefix es) ys)"
proof (induction es arbitrary: acc)
  case (Cons e es)
  obtain k v where e: "e = (k, v)" by (cases e)
  show ?case
  proof (cases "prefix p k")
    case True
    with Cons.prems e obtain i x where "k = NumericKey p i" "decode P v i = Inr x" "loop P es (acc @ [x]) = Inr (xs, rest)"
      by (auto simp: loop_Cons bind_inv DecodeNumericKey_iff)
    with Cons.IH [OF this(3)] True e show ?thesis by (auto simp: decodes_def)
  qed (use Cons.prems e in \<open>auto simp: loop_Cons\<close>)
qed (simp add: loop_Nil)

lemma loop_succeeds:
  "(\<And>k v. (k, v) \<in> set es \<Longrightarrow> prefix p k \<Longrightarrow> \<exists>i x. k = NumericKey p i \<and> decode P v i = Inr x) \<Longrightarrow>
   \<exists>xs rest. loop P es acc = Inr (xs, rest)"
proof (induction es arbitrary: acc)
  case (Cons e es)
  obtain k v where e: "e = (k, v)" by (cases e)
  show ?case
  proof (cases "prefix p k")
    case True
    have "(k, v) \<in> set (e # es)" by (simp add: e)
    from Cons.prems [OF this True] obtain i x where x: "k = NumericKey p i" "decode P v i = Inr x" by blast
    have "\<exists>xs rest. loop P es (acc @ [x]) = Inr (xs, rest)" by (rule Cons.IH) (rule Cons.prems, simp_all)
    with x True show ?thesis by (simp add: e loop_Cons)
  qed (use e in \<open>simp add: loop_Cons\<close>)
qed (simp add: loop_Nil)

lemma prefix_le: "p \<le> NumericKey p i"
  using append_le_append [of p "[]"] by (simp add: NumericKey_def)

text \<open>With the laws of an iterator that did not fail before the end of the run.\<close>

lemma listing:
  assumes laws: "rocks_laws R" and it: "db_Iterate R s c p = (es, st)"
    and run: "loop P es [] = Inr (xs, rest)" and fin: "rest \<noteq> [] \<or> rocks_ok st"
  shows "x \<in> set xs \<longleftrightarrow> (\<exists>i v. snap_contents R s (c, NumericKey p i) = Some v \<and> decode P v i = Inr x)"
    and "snap_contents R s (c, NumericKey p i) = Some v \<Longrightarrow> \<exists>x. decode P v i = Inr x"
    and "list_all2 (decodes P) (takeWhile with_prefix es) xs"
proof -
  let ?t = "takeWhile with_prefix es"
  from loop_result [OF run] have rest: "rest = dropWhile with_prefix es"
    and ys: "list_all2 (decodes P) ?t xs" by auto
  show "list_all2 (decodes P) ?t xs" by fact
  have t: "set ?t = {(k, v) \<in> set es. prefix p k}"
  proof (rule prefix_run_takeWhile [OF rocks_iterate(1) [OF laws it]])
    fix k assume "k \<in> set (map fst es)"
    then obtain v where "(k, v) \<in> set es" by auto
    from rocks_iterate(2) [OF laws it this] show "p @ [] \<le> k" by simp
  qed
  have all: "(NumericKey p i, v) \<in> set es" if "snap_contents R s (c, NumericKey p i) = Some v" for i v
  proof (cases "rest = []")
    case True
    with fin that show ?thesis using rocks_iterate(3) [OF laws it] prefix_le by blast
  next
    case False
    then obtain k'' w tl where r: "rest = (k'', w) # tl" by (cases rest) auto
    have "\<not> prefix p k''" using hd_dropWhile [of with_prefix es] unfolding rest [symmetric] r by simp
    moreover have "(k'', w) \<in> set es"
      using set_dropWhileD [of "(k'', w)" with_prefix es] unfolding rest [symmetric] r by simp
    moreover from this have "p @ [] \<le> k''" using rocks_iterate(2) [OF laws it] by simp
    ultimately have "NumericKey p i \<le> k''"
      using beyond_prefix [of p k'' "[]" "EncodeUint64 i"] unfolding NumericKey_def by (blast intro: less_imp_le)
    with that \<open>(k'', w) \<in> set es\<close> show ?thesis
      using rocks_iterate(4) [OF laws it] prefix_le by blast
  qed
  have entry: "(NumericKey p i, v) \<in> set ?t \<longleftrightarrow> snap_contents R s (c, NumericKey p i) = Some v" for i v
  proof
    assume "(NumericKey p i, v) \<in> set ?t"
    then have "(NumericKey p i, v) \<in> set es" by (rule set_takeWhileD [THEN conjunct1])
    then show "snap_contents R s (c, NumericKey p i) = Some v" using rocks_iterate(2) [OF laws it] by blast
  next
    assume "snap_contents R s (c, NumericKey p i) = Some v"
    from all [OF this] show "(NumericKey p i, v) \<in> set ?t" unfolding t by simp
  qed
  show "x \<in> set xs \<longleftrightarrow> (\<exists>i v. snap_contents R s (c, NumericKey p i) = Some v \<and> decode P v i = Inr x)"
  proof
    assume "x \<in> set xs"
    with list_all2_partner(2) [OF ys] obtain e where e: "e \<in> set ?t" "decodes P e x" by blast
    then obtain i v where "e = (NumericKey p i, v)" "decode P v i = Inr x"
      unfolding decodes_def by (metis prod.collapse)
    with e(1) entry show "\<exists>i v. snap_contents R s (c, NumericKey p i) = Some v \<and> decode P v i = Inr x" by blast
  next
    assume "\<exists>i v. snap_contents R s (c, NumericKey p i) = Some v \<and> decode P v i = Inr x"
    then obtain i v where "(NumericKey p i, v) \<in> set ?t" and dec: "decode P v i = Inr x" using entry by blast
    with list_all2_partner(1) [OF ys] obtain y where "y \<in> set xs" "decodes P (NumericKey p i, v) y" by blast
    with dec show "x \<in> set xs" by (auto simp: decodes_def)
  qed
  show "\<exists>x. decode P v i = Inr x" if "snap_contents R s (c, NumericKey p i) = Some v"
  proof -
    from that entry list_all2_partner(1) [OF ys] obtain y where "decodes P (NumericKey p i, v) y" by blast
    then show ?thesis by (auto simp: decodes_def)
  qed
qed

text \<open>The entries come in the order of their numbers.\<close>

lemma listing_sorted:
  assumes "rocks_laws R" and "db_Iterate R s c p = (es, st)" and "loop P es [] = Inr (xs, rest)"
    and number: "\<And>v i x. decode P v i = Inr x \<Longrightarrow> number x = i"
  shows "sorted_wrt (<) (map number xs)"
proof -
  from loop_result [OF assms(3)] have ys: "list_all2 (decodes P) (takeWhile with_prefix es) xs" by auto
  have "map fst (takeWhile with_prefix es) = map (\<lambda>x. NumericKey p (number x)) xs"
    using ys number by (induction rule: list_all2_induct) (auto simp: decodes_def)
  moreover have "sorted_wrt (<) (map fst (takeWhile with_prefix es))"
    using rocks_iterate(1) [OF assms(1,2)] by (metis sorted_wrt_append map_append takeWhile_dropWhile_id)
  ultimately show ?thesis by (simp add: sorted_wrt_map)
qed

end

interpretation channel_listing: prefix_listing kChannelPrefix "\<lambda>P v i. decode_channel P v i ''list channels''"
  ListChannels_loop "''channel''"
  by unfold_locales simp_all

interpretation preparing_listing: prefix_listing kPreparingObjectPrefix ParseObject
  ListPreparingObjects_loop "''preparing object''"
  by unfold_locales simp_all

section \<open>The listings of the storage\<close>

lemma ListChannels_result:
  assumes laws: "env_laws E" and run: "ListChannels E s = Inr channels"
  shows "ch \<in> set channels \<longleftrightarrow> lg_channels (log_in E s) (ch_channel_id ch) = Some ch"
    and "sorted_wrt (<) (map ch_channel_id channels)"
proof -
  obtain es st where it: "db_Iterate (rocks E) s Meta kChannelPrefix = (es, st)" by fastforce
  from run it obtain rest where loop: "ListChannels_loop (proto_lib E) es [] = Inr (channels, rest)"
    and fin: "rest \<noteq> [] \<or> rocks_ok st"
    by (auto simp: ListChannels_def bind_inv)
  note list = channel_listing.listing [OF env_lawsD(1) [OF laws] it loop fin]
  have "(\<exists>i v. snap_view E s (Meta, NumericKey kChannelPrefix i) = Some v \<and>
      decode_channel (proto_lib E) v i ''list channels'' = Inr ch) \<longleftrightarrow>
    lg_channels (log_in E s) (ch_channel_id ch) = Some ch"
    using list(2) by (fastforce simp: decode_channel_Inr log_of_def bind_eq_Some_conv)
  with list(1) [of ch] show "ch \<in> set channels \<longleftrightarrow> lg_channels (log_in E s) (ch_channel_id ch) = Some ch" by simp
  show "sorted_wrt (<) (map ch_channel_id channels)"
    by (rule channel_listing.listing_sorted [OF env_lawsD(1) [OF laws] it loop]) (simp add: decode_channel_Inr)
qed

lemma ListPreparingObjects_result:
  assumes laws: "env_laws E" and run: "ListPreparingObjects E db = Inr objects"
  shows "ob \<in> set objects \<longleftrightarrow>
      lg_preparing (log_of (proto_lib E) (db_contents (rocks E) db)) (so_object_id ob) = Some ob"
    and "lg_preparing (log_of (proto_lib E) (db_contents (rocks E) db)) i = Some ob \<Longrightarrow> so_object_id ob = i"
proof -
  let ?s = "db_Latest (rocks E) db" and ?l = "log_of (proto_lib E) (db_contents (rocks E) db)"
  have view: "snap_view E ?s = db_contents (rocks E) db" by (rule rocks_latest [OF env_lawsD(1) [OF laws]])
  obtain es st where it: "db_Iterate (rocks E) ?s Objects kPreparingObjectPrefix = (es, st)" by fastforce
  from run it obtain rest where loop: "ListPreparingObjects_loop (proto_lib E) es [] = Inr (objects, rest)"
    and fin: "rest \<noteq> [] \<or> rocks_ok st"
    by (auto simp: ListPreparingObjects_def bind_inv)
  note list = preparing_listing.listing [OF env_lawsD(1) [OF laws] it loop fin, unfolded view]
  have prep: "lg_preparing ?l i = Some ob \<longleftrightarrow> (\<exists>v. db_contents (rocks E) db (Objects, NumericKey kPreparingObjectPrefix i) = Some v \<and>
      map_option object_of_record (record_ParseFromString (proto_lib E) v) = Some ob)" for i ob
    by (auto simp: log_of_def object_at_def bind_eq_Some_conv)
  show id: "so_object_id ob = i" if "lg_preparing ?l i = Some ob" for i ob
    using that list(2) unfolding prep by (fastforce simp: ParseObject_Inr valid_object_def)
  show "ob \<in> set objects \<longleftrightarrow> lg_preparing ?l (so_object_id ob) = Some ob"
    unfolding list(1) prep using list(2) by (fastforce simp: ParseObject_Inr valid_object_def)
qed

end
