(* ===== verification/Core_Publish.thy ===== *)
theory Core_Publish
  imports Core_Contract Reference_Env
begin

text \<open>
  The operations of \<^verbatim>\<open>OpenEventCore\<close> on the event log: status, uuid allocation and
  lookup, and the two ways to publish (\<^verbatim>\<open>src/service/open_event_core.cpp\<close>).
\<close>

section \<open>Requests\<close>

record publish_request =
  pr_principal :: u64
  pr_token :: string
  pr_channel_id :: u64
  pr_seq :: u64
  pr_uuid :: u64
  pr_recipients :: "u64 list"
  pr_payload :: string
  pr_object_keys :: "object_key list"

record publish_auto_request =
  pa_principal :: u64
  pa_token :: string
  pa_channel_id :: u64
  pa_uuid :: u64
  pa_recipients :: "u64 list"
  pa_payload :: string
  pa_object_keys :: "object_key list"

section \<open>Status and uuids\<close>

definition kMaxUuidBatch :: u32 where "kMaxUuidBatch = 1024"

definition GetStatus :: "('db, 'snap, 'os) env \<Rightarrow> u64 \<Rightarrow> string \<Rightarrow> ('db, 'snap, 'os, u64) core_op" where
  "GetStatus E prin token =
     bindM EnsureAvailable (\<lambda>_.
     bindM (CreateLinearizedSnapshot E) (\<lambda>snapshot.
     bindM (liftM (Authenticate E snapshot prin token)) (\<lambda>_.
     liftM (GetMaxSeq E snapshot))))"

definition AllocateUuids :: "('db, 'snap, 'os) env \<Rightarrow> u32 \<Rightarrow> ('db, 'snap, 'os, u64 list) core_op" where
  "AllocateUuids E count =
     bindM EnsureAvailable (\<lambda>_.
     bindM (liftM (failIf (count = 0 \<or> count > kMaxUuidBatch)
       (mk_status INVALID_ARGUMENT ''uuid allocation count must be in the range 1..1024''))) (\<lambda>_.
     bindM (askM (\<lambda>c. CreateSnapshot E (d_db c))) (\<lambda>snapshot.
     bindM (liftM (GetNextUuid E snapshot)) (\<lambda>first_uuid.
     let next_value = first_uuid + ucast count in
     bindM (liftM (SetNextUuid [] next_value)) (\<lambda>batch.
     bindM (CommitBatch E batch) (\<lambda>_.
     retM (map (\<lambda>offset. first_uuid + of_nat offset) [0..<unat count])))))))"

definition GetSeqByUuid :: "('db, 'snap, 'os) env \<Rightarrow> u64 \<Rightarrow> ('db, 'snap, 'os, u64) core_op" where
  "GetSeqByUuid E uuid =
     bindM EnsureAvailable (\<lambda>_.
     bindM (CreateLinearizedSnapshot E) (\<lambda>snapshot.
     bindM (liftM (GetUsedUuidSeq E snapshot uuid)) (\<lambda>seq.
     case seq of
       None \<Rightarrow> failM (mk_status NOT_FOUND ''uuid has not been consumed by a committed message'')
     | Some s \<Rightarrow> retM s)))"

definition ValidateAvailableUuid :: "('db, 'snap, 'os) env \<Rightarrow> 'snap \<Rightarrow> u64 \<Rightarrow> unit result" where
  "ValidateAvailableUuid E snapshot uuid =
     (if uuid = 0 then Inl (mk_status INVALID_ARGUMENT ''uuid must be allocated by the server'')
      else
        bindR (GetNextUuid E snapshot) (\<lambda>next_uuid.
        if uuid \<ge> next_uuid then Inl (mk_status INVALID_ARGUMENT ''uuid was not allocated by the server'')
        else
          bindR (GetUsedUuidSeq E snapshot uuid) (\<lambda>uuid_seq.
          failIf (uuid_seq \<noteq> None) (mk_status ALREADY_EXISTS ''uuid has already been used''))))"

section \<open>Publishing\<close>

text \<open>Every object key names a committed object and carries its token.\<close>

definition capability_holds ::
  "('db, 'snap, 'os) env \<Rightarrow> u64 list \<Rightarrow> stored_object option list \<Rightarrow> object_key \<Rightarrow> bool" where
  "capability_holds E object_ids objects k =
     (case map_of (zip object_ids objects) (ok_object_id k) of
        Some (Some ob) \<Rightarrow> ConstantTimeEquals (posix_api E) (so_object_token ob) (ok_object_token k)
      | _ \<Rightarrow> False)"

definition publish_message :: "u64 \<Rightarrow> u64 \<Rightarrow> u64 \<Rightarrow> u64 \<Rightarrow> u64 list \<Rightarrow> string \<Rightarrow> object_key list \<Rightarrow> u64 \<Rightarrow>
    event_message" where
  "publish_message prin channel_id seq uuid recipients payload object_keys ts_ms =
     \<lparr>msg_seq = seq, msg_channel_id = channel_id, msg_principal = prin, msg_recipients = recipients,
      msg_payload = payload, msg_ts_ms = ts_ms, msg_uuid = uuid, msg_object_keys = object_keys\<rparr>"

definition BuildPublishBatch :: "('db, 'snap, 'os) env \<Rightarrow> 'snap \<Rightarrow> u64 \<Rightarrow> u64 \<Rightarrow> u64 \<Rightarrow> u64 \<Rightarrow> u64 list \<Rightarrow>
    string \<Rightarrow> object_key list \<Rightarrow> u64 \<Rightarrow> ('db, 'snap, 'os, write_batch) core_op" where
  "BuildPublishBatch E snapshot prin channel_id seq uuid recipients payload object_keys ts_ms =
     bindM (liftM (failIf (channel_id = 0)
       (mk_status PERMISSION_DENIED ''system channel is read-only''))) (\<lambda>_.
     bindM (liftM (LoadChannel E snapshot channel_id)) (\<lambda>loaded.
     case loaded of
       None \<Rightarrow> failM (mk_status NOT_FOUND ''channel not found'')
     | Some channel \<Rightarrow>
         bindM (liftM (failIf (\<not> CanWrite channel prin)
           (mk_status PERMISSION_DENIED ''write permission denied''))) (\<lambda>_.
         bindM (liftM (ValidateRecipients channel recipients)) (\<lambda>_.
         let object_ids = first_occurrences (map ok_object_id object_keys) in
         bindM (liftClassified E (GetCommittedObjects E snapshot object_ids)) (\<lambda>objects.
         bindM (liftM (failIf (\<not> list_all (capability_holds E object_ids objects) object_keys)
           (mk_status NOT_FOUND ''object capability not found''))) (\<lambda>_.
         let message = publish_message prin channel_id seq uuid recipients payload object_keys ts_ms in
         liftM (bindR (PutMessage (proto_lib E) [] message) (\<lambda>batch.
                bindR (PutUsedUuid batch uuid seq) (\<lambda>batch.
                SetMaxSeq batch seq)))))))))"

definition principals_nonzero :: "u64 \<Rightarrow> u64 list \<Rightarrow> unit result" where
  "principals_nonzero prin recipients =
     failIf (prin = 0 \<or> 0 \<in> set recipients)
       (mk_status INVALID_ARGUMENT ''principal and recipients must be greater than 0'')"

text \<open>\<open>rpc1\<close> and \<open>rpc2\<close> are the observations of the two checks of the call, \<open>now\<close> is
  the clock.\<close>

definition Publish :: "('db, 'snap, 'os) env \<Rightarrow> publish_request \<Rightarrow> u64 \<Rightarrow> rpc_observation \<Rightarrow>
    rpc_observation \<Rightarrow> ('db, 'snap, 'os, unit) core_op" where
  "Publish E request now rpc1 rpc2 =
     bindM EnsureAvailable (\<lambda>_.
     bindM (liftM (principals_nonzero (pr_principal request) (pr_recipients request))) (\<lambda>_.
     bindM (liftM (CheckRpcActive rpc1)) (\<lambda>_.
     bindM (askM (\<lambda>c. CreateSnapshot E (d_db c))) (\<lambda>snapshot.
     bindM (liftM (Authenticate E snapshot (pr_principal request) (pr_token request))) (\<lambda>_.
     bindM (liftM (ValidateAvailableUuid E snapshot (pr_uuid request))) (\<lambda>_.
     bindM (liftM (ValidatePayloadSize E (pr_payload request))) (\<lambda>_.
     bindM (liftM (ValidateObjectKeysShape (pr_object_keys request))) (\<lambda>_.
     bindM (liftM (GetMaxSeq E snapshot)) (\<lambda>max_seq.
     bindM (liftM (failIf (pr_seq request \<noteq> max_seq + 1)
       (mk_status ABORTED ''seq must equal max_seq + 1''))) (\<lambda>_.
     bindM (BuildPublishBatch E snapshot (pr_principal request) (pr_channel_id request) (pr_seq request)
       (pr_uuid request) (pr_recipients request) (pr_payload request) (pr_object_keys request) now) (\<lambda>batch.
     bindM (liftM (CheckRpcActive rpc2)) (\<lambda>_.
     CommitBatch E batch))))))))))))"

definition PublishAutoSeq :: "('db, 'snap, 'os) env \<Rightarrow> publish_auto_request \<Rightarrow> u64 \<Rightarrow> rpc_observation \<Rightarrow>
    rpc_observation \<Rightarrow> ('db, 'snap, 'os, u64) core_op" where
  "PublishAutoSeq E request now rpc1 rpc2 =
     bindM EnsureAvailable (\<lambda>_.
     bindM (liftM (principals_nonzero (pa_principal request) (pa_recipients request))) (\<lambda>_.
     bindM (liftM (CheckRpcActive rpc1)) (\<lambda>_.
     bindM (askM (\<lambda>c. CreateSnapshot E (d_db c))) (\<lambda>snapshot.
     bindM (liftM (Authenticate E snapshot (pa_principal request) (pa_token request))) (\<lambda>_.
     bindM (liftM (ValidateAvailableUuid E snapshot (pa_uuid request))) (\<lambda>_.
     bindM (liftM (ValidatePayloadSize E (pa_payload request))) (\<lambda>_.
     bindM (liftM (ValidateObjectKeysShape (pa_object_keys request))) (\<lambda>_.
     bindM (liftM (GetMaxSeq E snapshot)) (\<lambda>max_seq.
     let seq = max_seq + 1 in
     bindM (BuildPublishBatch E snapshot (pa_principal request) (pa_channel_id request) seq
       (pa_uuid request) (pa_recipients request) (pa_payload request) (pa_object_keys request) now) (\<lambda>batch.
     bindM (liftM (CheckRpcActive rpc2)) (\<lambda>_.
     bindM (CommitBatch E batch) (\<lambda>_.
     retM seq))))))))))))"

section \<open>What publishing requires and does\<close>

text \<open>The channel exists, the principal may write to it and every recipient is a member.\<close>

definition channel_accepts :: "publish_request \<Rightarrow> event_log \<Rightarrow> bool" where
  "channel_accepts q l \<longleftrightarrow>
     pr_channel_id q \<noteq> 0 \<and>
     (case lg_channels l (pr_channel_id q) of
        None \<Rightarrow> False
      | Some ch \<Rightarrow> CanWrite ch (pr_principal q) \<and> set (pr_recipients q) \<subseteq> set (ch_members ch))"

text \<open>The conditions on the log under which a message may be published, and the log with the message
  appended.\<close>

definition publish_allowed :: "('db, 'snap, 'os) env \<Rightarrow> publish_request \<Rightarrow> event_log \<Rightarrow> bool" where
  "publish_allowed E q l \<longleftrightarrow>
     authentic l (pr_principal q) (pr_token q) \<and> 0 \<notin> set (pr_recipients q) \<and>
     pr_uuid q \<noteq> 0 \<and> pr_uuid q < lg_next_uuid l \<and> lg_used l (pr_uuid q) = None \<and>
     pr_seq q = lg_max_seq l + 1 \<and> pr_seq q \<noteq> 0 \<and>
     length (pr_payload q) \<le> unat (max_payload_bytes E) \<and>
     length (pr_object_keys q) \<le> kMaxObjectKeys \<and>
     list_all (\<lambda>k. ok_object_id k \<noteq> 0 \<and> (\<exists>ob. lg_objects l (ok_object_id k) = Some ob \<and>
       so_object_token ob = ok_object_token k)) (pr_object_keys q) \<and>
     channel_accepts q l"

definition request_message :: "publish_request \<Rightarrow> u64 \<Rightarrow> event_message" where
  "request_message q ts_ms = publish_message (pr_principal q) (pr_channel_id q) (pr_seq q) (pr_uuid q)
     (pr_recipients q) (pr_payload q) (pr_object_keys q) ts_ms"

definition publish_effect :: "('db, 'snap, 'os) env \<Rightarrow> publish_request \<Rightarrow> u64 \<Rightarrow> event_log \<Rightarrow> event_log \<Rightarrow> bool" where
  "publish_effect E q ts_ms l l' \<longleftrightarrow> publish_allowed E q l \<and> l' = append_message (request_message q ts_ms) l"

lemma ValidateAvailableUuid_log:
  assumes "env_laws E" and "ValidateAvailableUuid E s u = Inr x"
  shows "u \<noteq> 0 \<and> u < lg_next_uuid (log_in E s) \<and> lg_used (log_in E s) u = None"
  using assms(2) counter_log(2) [OF assms(1)] GetUsedUuidSeq_log(1) [OF assms(1)]
  by (fastforce simp: ValidateAvailableUuid_def bind_inv not_le split: if_splits)

lemma capabilities_log:
  assumes "env_laws E" and "list_all (capability_holds E ids (map (lg_objects l) ids)) ks"
    and "set ids = ok_object_id ` set ks"
  shows "list_all (\<lambda>k. \<exists>ob. lg_objects l (ok_object_id k) = Some ob \<and>
    so_object_token ob = ok_object_token k) ks"
  using assms env_lawsD(3) [OF assms(1)]
  by (auto simp: list_all_iff capability_holds_def map_of_zip_map split: option.splits)

lemma batch_effect:
  assumes "env_laws E"
    and "bindR (PutMessage (proto_lib E) [] (request_message q ts)) (\<lambda>batch.
         bindR (PutUsedUuid batch (pr_uuid q) (pr_seq q)) (\<lambda>batch.
         SetMaxSeq batch (pr_seq q))) = Inr b"
  shows "log_of (proto_lib E) (apply_batch b m) = append_message (request_message q ts) (log_of (proto_lib E) m)"
    and "pr_seq q \<noteq> 0"
proof -
  from assms(2) obtain b1 b2 where b: "PutMessage (proto_lib E) [] (request_message q ts) = Inr b1"
    "PutUsedUuid b1 (pr_uuid q) (pr_seq q) = Inr b2" "SetMaxSeq b2 (pr_seq q) = Inr b"
    by (auto simp: bind_inv)
  show "log_of (proto_lib E) (apply_batch b m) = append_message (request_message q ts) (log_of (proto_lib E) m)"
    using counter_writes(1) [OF b(3)] PutUsedUuid_log(1) [OF b(2)] PutMessage_log [OF assms(1) b(1)]
    by (simp add: append_message_def request_message_def publish_message_def)
  show "pr_seq q \<noteq> 0" by (rule PutUsedUuid_log(3) [OF b(2)])
qed

text \<open>The batch appends the message, provided the channel accepts it.\<close>

lemma runs_BuildPublishBatch:
  assumes laws: "env_laws E"
    and ok: "\<And>b. channel_accepts q (log_in E s) \<Longrightarrow>
      list_all (\<lambda>k. \<exists>ob. lg_objects (log_in E s) (ok_object_id k) = Some ob \<and>
        so_object_token ob = ok_object_token k) (pr_object_keys q) \<Longrightarrow> pr_seq q \<noteq> 0 \<Longrightarrow>
      (\<And>m. log_of (proto_lib E) (apply_batch b m) =
        append_message (request_message q ts) (log_of (proto_lib E) m)) \<Longrightarrow> Q b c"
    and error: "\<And>e c'. same_state c c' \<Longrightarrow> R e c'"
  shows "runs (BuildPublishBatch E s (pr_principal q) (pr_channel_id q) (pr_seq q) (pr_uuid q)
    (pr_recipients q) (pr_payload q) (pr_object_keys q) ts) c Q R"
  unfolding BuildPublishBatch_def Let_def request_message_def [symmetric]
proof (intro wp error same_state_refl, goal_cases)
  case (1 _ loaded ch _ _ objects _ b)
  from 1(1) have "pr_channel_id q \<noteq> 0" by simp
  with 1 LoadChannel_log(1) [OF laws 1(2)] have "channel_accepts q (log_in E s)"
    by (simp add: channel_accepts_def channel_in_def ValidateRecipients_Inr)
  moreover from 1(7) have "list_all (\<lambda>k. \<exists>ob. lg_objects (log_in E s) (ok_object_id k) = Some ob \<and>
      so_object_token ob = ok_object_token k) (pr_object_keys q)"
    unfolding GetCommittedObjects_log [OF laws 1(6)] by (intro capabilities_log [OF laws]) auto
  ultimately show ?case using batch_effect [OF laws 1(8)] by (intro ok)
qed

section \<open>Publishing keeps the contract\<close>

lemma ValidatePayloadSize_Inr: "ValidatePayloadSize E p = Inr u \<longleftrightarrow> length p \<le> unat (max_payload_bytes E)"
  by (simp add: ValidatePayloadSize_def)

lemma ValidateObjectKeysShape_Inr:
  "ValidateObjectKeysShape ks = Inr u \<longleftrightarrow>
     length ks \<le> kMaxObjectKeys \<and> list_all (\<lambda>k. ok_object_id k \<noteq> 0 \<and> ok_object_token k \<noteq> []) ks"
  by (auto simp: ValidateObjectKeysShape_def list_ex_iff list_all_iff)

text \<open>What the checks before the batch establish.\<close>

lemma publish_checks:
  assumes "env_laws E" and "CreateSnapshot E (d_db c) = Inr s"
    and "principals_nonzero (pr_principal q) (pr_recipients q) = Inr u1"
    and "Authenticate E s (pr_principal q) (pr_token q) = Inr u2"
    and "ValidateAvailableUuid E s (pr_uuid q) = Inr u3"
    and "ValidatePayloadSize E (pr_payload q) = Inr u4"
    and "ValidateObjectKeysShape (pr_object_keys q) = Inr u5"
    and "GetMaxSeq E s = Inr max_seq" and "pr_seq q = max_seq + 1"
    and "channel_accepts q (log_in E s)"
    and "list_all (\<lambda>k. \<exists>ob. lg_objects (log_in E s) (ok_object_id k) = Some ob \<and>
      so_object_token ob = ok_object_token k) (pr_object_keys q)" and "pr_seq q \<noteq> 0"
  shows "publish_allowed E q (log_at E c)"
  using assms Authenticate_log [OF assms(1,4)] ValidateAvailableUuid_log [OF assms(1,5)]
    counter_log(1) [OF assms(1,8)] CreateSnapshot_view [OF assms(1,2)]
  by (auto simp: publish_allowed_def principals_nonzero_def ValidatePayloadSize_Inr
      ValidateObjectKeysShape_Inr list_all_iff)

lemma Publish_outcome:
  assumes laws: "env_laws E"
  shows "handler_outcome E (\<lambda>_. publish_effect E q now) (Publish E q now rpc1 rpc2) c"
  unfolding Publish_def Let_def
  by (intro wp outcome runs_BuildPublishBatch [OF laws] laws)
    (simp_all add: publish_effect_def publish_checks [OF laws])

text \<open>The request of \<open>Publish\<close> with the sequence number \<open>PublishAutoSeq\<close> chooses.\<close>

definition with_seq :: "publish_auto_request \<Rightarrow> u64 \<Rightarrow> publish_request" where
  "with_seq q seq = \<lparr>pr_principal = pa_principal q, pr_token = pa_token q, pr_channel_id = pa_channel_id q,
     pr_seq = seq, pr_uuid = pa_uuid q, pr_recipients = pa_recipients q, pr_payload = pa_payload q,
     pr_object_keys = pa_object_keys q\<rparr>"

lemma with_seq_simps [simp]:
  "pr_principal (with_seq q seq) = pa_principal q" "pr_token (with_seq q seq) = pa_token q"
  "pr_channel_id (with_seq q seq) = pa_channel_id q" "pr_seq (with_seq q seq) = seq"
  "pr_uuid (with_seq q seq) = pa_uuid q" "pr_recipients (with_seq q seq) = pa_recipients q"
  "pr_payload (with_seq q seq) = pa_payload q" "pr_object_keys (with_seq q seq) = pa_object_keys q"
  by (simp_all add: with_seq_def)

text \<open>\<open>PublishAutoSeq\<close> is \<open>Publish\<close> at the sequence number after the last one.\<close>

lemma PublishAutoSeq_Publish:
  assumes "CreateSnapshot E (d_db c) = Inr s" and "GetMaxSeq E s = Inr max_seq"
  shows "PublishAutoSeq E q now rpc1 rpc2 c =
    bindM (Publish E (with_seq q (max_seq + 1)) now rpc1 rpc2) (\<lambda>_. retM (max_seq + 1)) c"
  using assms unfolding PublishAutoSeq_def Publish_def Let_def
  by (cases "fatal_error_triggered c") (simp_all add: bindM_def split: sum.split prod.split)

lemma runs_BuildPublishBatch_auto:
  assumes laws: "env_laws E"
    and ok: "\<And>b. channel_accepts (with_seq q seq) (log_in E s) \<Longrightarrow>
      list_all (\<lambda>k. \<exists>ob. lg_objects (log_in E s) (ok_object_id k) = Some ob \<and>
        so_object_token ob = ok_object_token k) (pa_object_keys q) \<Longrightarrow> seq \<noteq> 0 \<Longrightarrow>
      (\<And>m. log_of (proto_lib E) (apply_batch b m) =
        append_message (request_message (with_seq q seq) ts) (log_of (proto_lib E) m)) \<Longrightarrow> Q b c"
    and error: "\<And>e c'. same_state c c' \<Longrightarrow> R e c'"
  shows "runs (BuildPublishBatch E s (pa_principal q) (pa_channel_id q) seq (pa_uuid q)
    (pa_recipients q) (pa_payload q) (pa_object_keys q) ts) c Q R"
  using runs_BuildPublishBatch [OF laws, of "with_seq q seq" s ts Q c R] ok error by simp

lemma PublishAutoSeq_outcome:
  assumes laws: "env_laws E"
  shows "handler_outcome E (\<lambda>seq. publish_effect E (with_seq q seq) now) (PublishAutoSeq E q now rpc1 rpc2) c"
  unfolding PublishAutoSeq_def Let_def
  by (intro wp outcome runs_BuildPublishBatch_auto [OF laws] laws)
    (simp_all add: publish_effect_def publish_checks [OF laws])

section \<open>Allocation\<close>

definition allocate_effect :: "u32 \<Rightarrow> u64 list \<Rightarrow> event_log \<Rightarrow> event_log \<Rightarrow> bool" where
  "allocate_effect count uuids l l' \<longleftrightarrow>
     0 < count \<and> count \<le> kMaxUuidBatch \<and> lg_next_uuid l + ucast count \<noteq> 0 \<and>
     uuids = map (\<lambda>i. lg_next_uuid l + of_nat i) [0..<unat count] \<and>
     l' = l\<lparr>lg_next_uuid := lg_next_uuid l + ucast count\<rparr>"

lemma AllocateUuids_outcome:
  assumes laws: "env_laws E"
  shows "handler_outcome E (allocate_effect count) (AllocateUuids E count) c"
  unfolding AllocateUuids_def Let_def
proof (intro wp outcome laws, goal_cases)
  case (2 _ s first b)
  then have "first = lg_next_uuid (log_at E c)"
    using counter_log(2) [OF laws] CreateSnapshot_view [OF laws] by metis
  moreover have "first + ucast count \<noteq> 0"
    using 2 by (auto simp: SetNextUuid_def split: if_splits)
  ultimately show ?case
    using 2 counter_writes(2) [of "[]" _ b "proto_lib E" "contents E c"]
    by (auto simp: allocate_effect_def word_neq_0_conv)
qed simp_all

section \<open>The contract, instantiated\<close>

lemma publish_latched:
  assumes "fatal_error_triggered c"
  shows "Publish E q now rpc1 rpc2 c = (Inl unavailable, c)"
    and "PublishAutoSeq E p now rpc1 rpc2 c = (Inl unavailable, c)"
    and "AllocateUuids E count c = (Inl unavailable, c)"
  using assms by (simp_all add: Publish_def PublishAutoSeq_def AllocateUuids_def)

interpretation publish: log_handler "\<lambda>E (q, now, rpc1, rpc2). Publish E q now rpc1 rpc2"
  "\<lambda>E (q, now, rpc1, rpc2) _. publish_effect E q now"
  by unfold_locales (auto simp: publish_latched intro: Publish_outcome)

interpretation publish_auto: log_handler "\<lambda>E (q, now, rpc1, rpc2). PublishAutoSeq E q now rpc1 rpc2"
  "\<lambda>E (q, now, rpc1, rpc2) seq. publish_effect E (with_seq q seq) now"
  by unfold_locales (auto simp: publish_latched intro: PublishAutoSeq_outcome)

interpretation allocate: log_handler AllocateUuids "\<lambda>_. allocate_effect"
  by unfold_locales (auto simp: publish_latched intro: AllocateUuids_outcome)

section \<open>Properties\<close>

text \<open>A publication that succeeds in the reference environment.\<close>

definition ref_publish :: publish_request where
  "ref_publish = \<lparr>pr_principal = 7, pr_token = ''t'', pr_channel_id = 1, pr_seq = 2, pr_uuid = 3,
     pr_recipients = [8], pr_payload = ''hi'', pr_object_keys = []\<rparr>"

definition ref_publish_auto :: publish_auto_request where
  "ref_publish_auto = \<lparr>pa_principal = 7, pa_token = ''t'', pa_channel_id = 1, pa_uuid = 3,
     pa_recipients = [8], pa_payload = ''hi'', pa_object_keys = []\<rparr>"

lemma ref_publish_with_seq: "with_seq ref_publish_auto 2 = ref_publish"
  by (simp add: with_seq_def ref_publish_auto_def ref_publish_def)

lemma ref_publish_batch:
  "BuildPublishBatch ref_env ref_state 7 1 2 3 [8] ''hi'' [] 9 c =
     (Inr [Put Messages (NumericKey kMessagePrefix 2) (put_message (request_message ref_publish 9)),
           Put Meta (NumericKey kUuidPrefix 3) (EncodeUint64 2), Put Meta kMaxSeqKey (EncodeUint64 2)], c)"
  by (simp add: BuildPublishBatch_def ref_channel_def CanWrite_def IsMember_def ValidateRecipients_def
      first_occurrences_def GetCommittedObjects_def liftClassified_def PutMessage_def PutUsedUuid_def
      SetMaxSeq_def message_fits_def fits_def publish_message_def request_message_def ref_publish_def)

lemma ref_publish_run:
  "fst (Publish ref_env ref_publish 9 None None (ref_core ref_state)) = Inr ()"
  "fst (PublishAutoSeq ref_env ref_publish_auto 9 None None (ref_core ref_state)) = Inr 2"
  using ref_publish_batch
  by (simp_all add: Publish_def PublishAutoSeq_def ref_publish_def ref_publish_auto_def principals_nonzero_def
      CheckRpcActive_def ValidateAvailableUuid_def ValidatePayloadSize_def ValidateObjectKeysShape_def Let_def)

text \<open>
  C10: A publication that succeeds met every condition on the log (credential, uuid allocated and unused,
  sequence number the next one, payload and keys within limits, every object key the capability of a
  committed object, channel writable, recipients members), and its whole effect on the log is to append
  the message under that sequence number and uuid.
\<close>

theorem publish_appends:
  assumes "env_laws E" and "Publish E q now rpc1 rpc2 c = (Inr u, c')"
  shows "publish_allowed E q (log_at E c) \<and>
    log_at E c' = append_message (request_message q now) (log_at E c) \<and> d_os c' = d_os c"
  using publish.committed [of E "(q, now, rpc1, rpc2)"] assms by (simp add: publish_effect_def)

theorem publish_appends_witness:
  "publish_allowed ref_env ref_publish (log_at ref_env (ref_core ref_state))"
  using publish_appends [OF ref_env_laws, of ref_publish 9 None None "ref_core ref_state"]
    ref_publish_run(1) by (metis prod.collapse)

text \<open>
  C11: A publication that fails leaves the database as it was, or it failed while committing: then the
  server has latched the fatal state and the database holds the whole effect or none of it.
\<close>

theorem publish_failure_atomic:
  assumes "env_laws E" and "Publish E q now rpc1 rpc2 c = (Inl e, c')"
  shows "contents E c' = contents E c \<or> fatal_error_triggered c' \<and> publish_allowed E q (log_at E c) \<and>
    log_at E c' = append_message (request_message q now) (log_at E c)"
  using publish.rejected [of E "(q, now, rpc1, rpc2)"] assms by (simp add: publish_effect_def)

theorem publish_failure_atomic_witness:
  "let q = ref_publish\<lparr>pr_seq := 5\<rparr>; (r, c') = Publish ref_env q 9 None None (ref_core ref_state) in
   r = Inl (mk_status ABORTED ''seq must equal max_seq + 1'') \<and> contents ref_env c' = map_of ref_state"
proof -
  let ?q = "ref_publish\<lparr>pr_seq := 5\<rparr>"
  have run: "Publish ref_env ?q 9 None None (ref_core ref_state) =
      (Inl (mk_status ABORTED ''seq must equal max_seq + 1''), ref_core ref_state)"
    by (simp add: Publish_def ref_publish_def principals_nonzero_def CheckRpcActive_def
        ValidateAvailableUuid_def ValidatePayloadSize_def ValidateObjectKeysShape_def)
  from publish_failure_atomic [OF ref_env_laws this] run show ?thesis by simp
qed

text \<open>
  C20: \<^verbatim>\<open>PublishAutoSeq\<close> behaves as \<^verbatim>\<open>Publish\<close> at the sequence number after the last one
  (result, error and state), and returns that number.
\<close>

theorem publish_auto_seq_equiv:
  assumes "CreateSnapshot E (d_db c) = Inr s" and "GetMaxSeq E s = Inr max_seq"
  shows "PublishAutoSeq E q now rpc1 rpc2 c =
    (let (r, c') = Publish E (with_seq q (max_seq + 1)) now rpc1 rpc2 c
     in (map_sum id (\<lambda>_. max_seq + 1) r, c'))"
  unfolding PublishAutoSeq_Publish [OF assms]
  by (simp add: bindM_def split: prod.split sum.split)

theorem publish_auto_seq_equiv_witness:
  "fst (PublishAutoSeq ref_env ref_publish_auto 9 None None (ref_core ref_state)) = Inr 2"
  using publish_auto_seq_equiv [of ref_env "ref_core ref_state" ref_state 1 ref_publish_auto 9 None None]
    ref_publish_run(1) ref_publish_with_seq by (simp split: prod.splits)

text \<open>
  C21: While the counter stays below the range of 64 bits, the uuids of one allocation are distinct, as
  many as requested, none of them was allocated before, all of them count as allocated afterwards, and
  nothing else changes.
\<close>

theorem allocate_uuids_fresh:
  assumes "env_laws E" and "AllocateUuids E count c = (Inr uuids, c')"
    and "unat (lg_next_uuid (log_at E c)) + unat count < 2 ^ 64"
  shows "length uuids = unat count \<and> 1 \<le> unat count \<and> unat count \<le> 1024 \<and> distinct uuids \<and>
    (\<forall>u. u \<in> set uuids \<longleftrightarrow> lg_next_uuid (log_at E c) \<le> u \<and> u < lg_next_uuid (log_at E c')) \<and>
    log_at E c' = (log_at E c)\<lparr>lg_next_uuid := lg_next_uuid (log_at E c) + ucast count\<rparr>"
proof -
  let ?n = "lg_next_uuid (log_at E c)" and ?k = "unat count"
  have eff: "allocate_effect count uuids (log_at E c) (log_at E c')"
    by (rule allocate.committed(1) [OF assms(1,2)])
  then have uuids: "uuids = map (\<lambda>i. ?n + of_nat i) [0..<?k]" and count: "1 \<le> ?k" "?k \<le> 1024"
    and log': "log_at E c' = (log_at E c)\<lparr>lg_next_uuid := ?n + ucast count\<rparr>"
    by (auto simp: allocate_effect_def kMaxUuidBatch_def word_less_nat_alt word_le_nat_alt)
  have at: "unat (?n + of_nat i) = unat ?n + i" if "i \<le> ?k" for i
    using that assms(3) unat_add_no_wrap [of ?n "of_nat i"] by (simp add: unat_of_nat_u64)
  have top: "unat (lg_next_uuid (log_at E c')) = unat ?n + ?k"
    using unat_add_no_wrap [of ?n "ucast count"] assms(3) by (simp add: log' unat_ucast_u64)
  have inj: "inj_on (\<lambda>i. ?n + of_nat i) {0..<?k}"
    by (rule inj_onI) (use at in \<open>metis add_left_cancel atLeastLessThan_iff less_imp_le\<close>)
  have "u \<in> set uuids \<longleftrightarrow> ?n \<le> u \<and> u < lg_next_uuid (log_at E c')" for u
  proof
    assume "u \<in> set uuids"
    then obtain i where "i < ?k" "u = ?n + of_nat i" unfolding uuids by auto
    with at [of i] top show "?n \<le> u \<and> u < lg_next_uuid (log_at E c')"
      by (simp add: word_le_nat_alt word_less_nat_alt)
  next
    assume "?n \<le> u \<and> u < lg_next_uuid (log_at E c')"
    then obtain i where i: "unat u = unat ?n + i" "i < ?k"
      using top by (auto simp: word_le_nat_alt word_less_nat_alt le_iff_add)
    with at [of i] have "u = ?n + of_nat i" by (simp add: word_unat_eq_iff)
    with i show "u \<in> set uuids" unfolding uuids by simp
  qed
  then show ?thesis using count log' inj by (auto simp: uuids distinct_map)
qed

theorem allocate_uuids_fresh_witness:
  "fst (AllocateUuids ref_env 2 (ref_core ref_state)) = Inr [4, 5] \<and> distinct [4, 5 :: u64]"
proof -
  let ?c = "ref_core ref_state"
  have run: "AllocateUuids ref_env 2 ?c = (Inr [4, 5], snd (AllocateUuids ref_env 2 ?c))"
    by (simp add: AllocateUuids_def kMaxUuidBatch_def SetNextUuid_def upt_rec)
  have "lg_next_uuid (log_at ref_env ?c) = 4"
    by (simp add: log_of_def counter_at_def ref_state_def be64.dec_enc)
  then have "unat (lg_next_uuid (log_at ref_env ?c)) + unat (2 :: u32) < 2 ^ 64" by simp
  from allocate_uuids_fresh [OF ref_env_laws run this] run show ?thesis by (metis fst_conv)
qed

text \<open>
  C22: The guard on the allocation counter only rejects the value zero: when the counter wraps around past
  zero, an allocation succeeds, hands out the reserved uuid 0 and uuids that were allocated before, and
  moves the counter back.
\<close>

theorem allocate_uuids_wraps:
  assumes "env_laws E" and "lg_next_uuid (log_at E c) = 2 ^ 64 - 1"
    and "AllocateUuids E 3 c = (Inr uuids, c')"
  shows "uuids = [2 ^ 64 - 1, 0, 1] \<and> lg_next_uuid (log_at E c') = 2"
proof -
  have "uuids = map (\<lambda>i. lg_next_uuid (log_at E c) + of_nat i) [0..<unat (3 :: u32)]"
    "lg_next_uuid (log_at E c') = lg_next_uuid (log_at E c) + ucast (3 :: u32)"
    using allocate.committed(1) [OF assms(1,3)] by (simp_all add: allocate_effect_def)
  then show ?thesis unfolding assms(2) by (simp add: upt_rec)
qed

theorem allocate_uuids_wraps_witness:
  "fst (AllocateUuids ref_env 3 (ref_core [((Meta, kNextUuidKey), EncodeUint64 (2 ^ 64 - 1))])) =
     Inr [2 ^ 64 - 1, 0, 1]"
proof -
  let ?c = "ref_core [((Meta, kNextUuidKey), EncodeUint64 (2 ^ 64 - 1))]"
  have "fst (AllocateUuids ref_env 3 ?c) \<in> range Inr"
    by (simp add: AllocateUuids_def kMaxUuidBatch_def SetNextUuid_def GetNextUuid_def GetRequiredUint64_def
        ref_lookup_def)
  then obtain uuids where run: "AllocateUuids ref_env 3 ?c = (Inr uuids, snd (AllocateUuids ref_env 3 ?c))"
    by (auto simp: prod_eq_iff)
  have "lg_next_uuid (log_at ref_env ?c) = 2 ^ 64 - 1" by (simp add: log_of_def counter_at_def be64.dec_enc)
  from allocate_uuids_wraps [OF ref_env_laws this run] run show ?thesis by (metis fst_conv)
qed

end
