(* ===== verification/Core_Channels.thy ===== *)
theory Core_Channels
  imports Core_Contract
begin

text \<open>
  The channel operations of \<^verbatim>\<open>OpenEventCore\<close>: creation, lookup, listing and membership.
  Every change of a channel is committed together with the system message that announces it.
\<close>

section \<open>Requests\<close>

record create_channel_request =
  cc_principal :: u64
  cc_token :: string
  cc_name :: string
  cc_visibility :: visibility
  cc_protocol :: string
  cc_description :: string
  cc_members :: "u64 list"

definition kMaxChannelMembers :: nat where "kMaxChannelMembers = 1024"

section \<open>The batch of a channel change\<close>

definition channel_message :: "u64 \<Rightarrow> u64 \<Rightarrow> channel_info \<Rightarrow> string \<Rightarrow> u64 \<Rightarrow> event_message" where
  "channel_message max_seq next_uuid channel payload now =
     empty_message\<lparr>msg_seq := max_seq + 1, msg_channel_id := ch_channel_id channel, msg_principal := 0,
       msg_uuid := next_uuid, msg_payload := payload, msg_ts_ms := now\<rparr>"

definition BuildChannelMutationBatch :: "('db, 'snap, 'os) env \<Rightarrow> 'snap \<Rightarrow> channel_info \<Rightarrow> string \<Rightarrow> u64 \<Rightarrow>
    write_batch result" where
  "BuildChannelMutationBatch E snapshot channel payload now =
     bindR (GetMaxSeq E snapshot) (\<lambda>max_seq.
     bindR (GetNextUuid E snapshot) (\<lambda>next_uuid.
     let message = channel_message max_seq next_uuid channel payload now in
     bindR (PutChannel (proto_lib E) [] channel) (\<lambda>batch.
     bindR (PutMessage (proto_lib E) batch message) (\<lambda>batch.
     bindR (PutUsedUuid batch (msg_uuid message) (msg_seq message)) (\<lambda>batch.
     bindR (SetMaxSeq batch (msg_seq message)) (\<lambda>batch.
     SetNextUuid batch (msg_uuid message + 1)))))))"

section \<open>Creation, lookup, listing\<close>

definition invalid_channel_parameters :: "create_channel_request \<Rightarrow> bool" where
  "invalid_channel_parameters request \<longleftrightarrow>
     cc_principal request = 0 \<or> 0 \<in> set (cc_members request) \<or> cc_name request = [] \<or>
     length (cc_name request) > 255 \<or> length (cc_protocol request) > 255 \<or>
     length (cc_description request) > 4096 \<or> length (cc_members request) > kMaxChannelMembers"

text \<open>The creator comes first, the other members follow without repetitions.\<close>

definition initial_members :: "create_channel_request \<Rightarrow> u64 list" where
  "initial_members request = first_occurrences (cc_principal request # cc_members request)"

definition new_channel :: "create_channel_request \<Rightarrow> u64 \<Rightarrow> channel_info" where
  "new_channel request channel_id =
     \<lparr>ch_channel_id = channel_id, ch_name = cc_name request, ch_visibility = cc_visibility request,
      ch_protocol = cc_protocol request, ch_description = cc_description request,
      ch_creator = Some (cc_principal request), ch_members = initial_members request\<rparr>"

definition CreateChannel :: "('db, 'snap, 'os) env \<Rightarrow> create_channel_request \<Rightarrow> u64 \<Rightarrow>
    ('db, 'snap, 'os, channel_info) core_op" where
  "CreateChannel E request now =
     bindM EnsureAvailable (\<lambda>_.
     bindM (liftM (failIf (invalid_channel_parameters request)
       (mk_status INVALID_ARGUMENT ''invalid Channel parameters''))) (\<lambda>_.
     bindM (liftM (ValidateVisibility (cc_visibility request))) (\<lambda>_.
     bindM (askM (\<lambda>c. CreateSnapshot E (d_db c))) (\<lambda>snapshot.
     bindM (liftM (Authenticate E snapshot (cc_principal request) (cc_token request))) (\<lambda>_.
     bindM (liftM (failIf (length (initial_members request) > kMaxChannelMembers)
       (mk_status RESOURCE_EXHAUSTED
         ''Channel can contain at most 1024 members including its creator''))) (\<lambda>_.
     bindM (liftM (GetNextChannelId E snapshot)) (\<lambda>next_channel_id.
     let channel = new_channel request next_channel_id in
     bindM (liftM (BuildChannelMutationBatch E snapshot channel (ChannelInitializedPayload channel) now)) (\<lambda>batch.
     bindM (liftM (SetNextChannelId batch (next_channel_id + 1))) (\<lambda>batch.
     bindM (CommitBatch E batch) (\<lambda>_.
     retM channel))))))))))"

definition GetChannelInfo :: "('db, 'snap, 'os) env \<Rightarrow> u64 \<Rightarrow> string \<Rightarrow> u64 \<Rightarrow>
    ('db, 'snap, 'os, channel_info) core_op" where
  "GetChannelInfo E prin token channel_id =
     bindM EnsureAvailable (\<lambda>_.
     bindM (CreateLinearizedSnapshot E) (\<lambda>snapshot.
     bindM (liftM (Authenticate E snapshot prin token)) (\<lambda>_.
     bindM (liftM (LoadChannel E snapshot channel_id)) (\<lambda>loaded.
     case loaded of
       None \<Rightarrow> failM (mk_status NOT_FOUND ''channel not found'')
     | Some channel \<Rightarrow>
         if \<not> CanRead channel prin then failM (mk_status PERMISSION_DENIED ''channel not visible'')
         else retM channel))))"

definition listed :: "channel_filter \<Rightarrow> u64 \<Rightarrow> channel_info \<Rightarrow> bool" where
  "listed filt prin channel \<longleftrightarrow>
     CanRead channel prin \<and>
     \<not> (filt = CHANNEL_FILTER_JOINED \<and> \<not> IsMember channel prin) \<and>
     \<not> (filt = CHANNEL_FILTER_OWNED \<and> ch_creator channel \<noteq> Some prin)"

definition ListChannelInfos :: "('db, 'snap, 'os) env \<Rightarrow> u64 \<Rightarrow> string \<Rightarrow> channel_filter \<Rightarrow>
    ('db, 'snap, 'os, channel_info list) core_op" where
  "ListChannelInfos E prin token filt =
     bindM EnsureAvailable (\<lambda>_.
     bindM (liftM (ValidateFilter filt)) (\<lambda>_.
     bindM (CreateLinearizedSnapshot E) (\<lambda>snapshot.
     bindM (liftM (Authenticate E snapshot prin token)) (\<lambda>_.
     bindM (liftM (ListChannels E snapshot)) (\<lambda>channels.
     retM ((if filt = CHANNEL_FILTER_ALL then [SystemChannel] else []) @
           filter (listed filt prin) channels))))))"

section \<open>Membership\<close>

text \<open>What adding and removing a member have in common up to the check of the creator.\<close>

definition load_owned_channel :: "('db, 'snap, 'os) env \<Rightarrow> 'snap \<Rightarrow> u64 \<Rightarrow> u64 \<Rightarrow> string \<Rightarrow>
    channel_info result" where
  "load_owned_channel E snapshot prin channel_id denied =
     (if channel_id = 0 then Inl (mk_status PERMISSION_DENIED ''system channel cannot be modified'')
      else
        bindR (LoadChannel E snapshot channel_id) (\<lambda>loaded.
        case loaded of
          None \<Rightarrow> Inl (mk_status NOT_FOUND ''channel not found'')
        | Some channel \<Rightarrow>
            if ch_creator channel \<noteq> Some prin then Inl (mk_status PERMISSION_DENIED denied)
            else Inr channel))"

definition AddMember :: "('db, 'snap, 'os) env \<Rightarrow> u64 \<Rightarrow> string \<Rightarrow> u64 \<Rightarrow> u64 \<Rightarrow> u64 \<Rightarrow>
    ('db, 'snap, 'os, unit) core_op" where
  "AddMember E prin token channel_id target now =
     bindM EnsureAvailable (\<lambda>_.
     bindM (liftM (failIf (prin = 0 \<or> target = 0)
       (mk_status INVALID_ARGUMENT ''principals must be greater than 0''))) (\<lambda>_.
     bindM (askM (\<lambda>c. CreateSnapshot E (d_db c))) (\<lambda>snapshot.
     bindM (liftM (Authenticate E snapshot prin token)) (\<lambda>_.
     bindM (liftM (load_owned_channel E snapshot prin channel_id ''only creator can add members'')) (\<lambda>channel.
     bindM (liftM (failIf (IsMember channel target)
       (mk_status ALREADY_EXISTS ''member already exists''))) (\<lambda>_.
     bindM (liftM (failIf (length (ch_members channel) \<ge> kMaxChannelMembers)
       (mk_status RESOURCE_EXHAUSTED
         ''Channel can contain at most 1024 members including its creator''))) (\<lambda>_.
     let channel = channel\<lparr>ch_members := ch_members channel @ [target]\<rparr> in
     bindM (liftM (BuildChannelMutationBatch E snapshot channel
       (MemberChangedPayload ''system.member_added'' target) now)) (\<lambda>batch.
     CommitBatch E batch))))))))"

definition RemoveMember :: "('db, 'snap, 'os) env \<Rightarrow> u64 \<Rightarrow> string \<Rightarrow> u64 \<Rightarrow> u64 \<Rightarrow> u64 \<Rightarrow>
    ('db, 'snap, 'os, unit) core_op" where
  "RemoveMember E prin token channel_id target now =
     bindM EnsureAvailable (\<lambda>_.
     bindM (liftM (failIf (prin = 0 \<or> target = 0)
       (mk_status INVALID_ARGUMENT ''principals must be greater than 0''))) (\<lambda>_.
     bindM (askM (\<lambda>c. CreateSnapshot E (d_db c))) (\<lambda>snapshot.
     bindM (liftM (Authenticate E snapshot prin token)) (\<lambda>_.
     bindM (liftM (load_owned_channel E snapshot prin channel_id ''only creator can remove members'')) (\<lambda>channel.
     bindM (liftM (failIf (Some target = ch_creator channel)
       (mk_status PERMISSION_DENIED ''creator cannot be removed''))) (\<lambda>_.
     if target \<notin> set (ch_members channel) then retM ()
     else
       let channel = channel\<lparr>ch_members := remove1 target (ch_members channel)\<rparr> in
       bindM (liftM (BuildChannelMutationBatch E snapshot channel
         (MemberChangedPayload ''system.member_removed'' target) now)) (\<lambda>batch.
       CommitBatch E batch)))))))"

section \<open>What the operations do to the log\<close>

text \<open>A channel is stored together with the message that announces the change.\<close>

definition record_channel :: "channel_info \<Rightarrow> string \<Rightarrow> u64 \<Rightarrow> event_log \<Rightarrow> event_log" where
  "record_channel ch payload now l =
     (append_message (channel_message (lg_max_seq l) (lg_next_uuid l) ch payload now) l)
       \<lparr>lg_channels := (lg_channels l)(ch_channel_id ch \<mapsto> ch), lg_next_uuid := lg_next_uuid l + 1\<rparr>"

text \<open>Neither the sequence number nor the uuid of the announcement wraps around.\<close>

definition counters_free :: "event_log \<Rightarrow> bool" where
  "counters_free l \<longleftrightarrow> lg_max_seq l + 1 \<noteq> 0 \<and> lg_next_uuid l \<noteq> 0 \<and> lg_next_uuid l + 1 \<noteq> 0"

lemma BuildChannelMutationBatch_log:
  assumes laws: "env_laws E" and snap: "CreateSnapshot E (d_db c) = Inr s"
    and build: "BuildChannelMutationBatch E s ch payload now = Inr b"
  shows "log_of (proto_lib E) (apply_batch b (contents E c)) = record_channel ch payload now (log_at E c)"
    and "counters_free (log_at E c)"
proof -
  from build obtain max_seq next_uuid b1 b2 b3 b4 where
    reads: "GetMaxSeq E s = Inr max_seq" "GetNextUuid E s = Inr next_uuid" and
    writes: "PutChannel (proto_lib E) [] ch = Inr b1"
      "PutMessage (proto_lib E) b1 (channel_message max_seq next_uuid ch payload now) = Inr b2"
      "PutUsedUuid b2 next_uuid (max_seq + 1) = Inr b3" "SetMaxSeq b3 (max_seq + 1) = Inr b4"
      "SetNextUuid b4 (next_uuid + 1) = Inr b"
    by (auto simp: BuildChannelMutationBatch_def Let_def bind_inv channel_message_def)
  have at: "max_seq = lg_max_seq (log_at E c)" "next_uuid = lg_next_uuid (log_at E c)"
    using reads counter_log(1,2) [OF laws] CreateSnapshot_view [OF laws snap] by metis+
  show "log_of (proto_lib E) (apply_batch b (contents E c)) = record_channel ch payload now (log_at E c)"
    using counter_writes(2) [OF writes(5)] counter_writes(1) [OF writes(4)] PutUsedUuid_log(1) [OF writes(3)]
      PutMessage_log [OF laws writes(2)] PutChannel_log [OF laws writes(1)]
    by (simp add: record_channel_def append_message_def channel_message_def at)
  show "counters_free (log_at E c)"
    using PutUsedUuid_log(2,3) [OF writes(3)] writes(5) at
    by (auto simp: counters_free_def SetNextUuid_def split: if_splits)
qed

definition create_effect :: "create_channel_request \<Rightarrow> u64 \<Rightarrow> channel_info \<Rightarrow> event_log \<Rightarrow> event_log \<Rightarrow> bool" where
  "create_effect q now ch l l' \<longleftrightarrow>
     authentic l (cc_principal q) (cc_token q) \<and> \<not> invalid_channel_parameters q \<and>
     cc_visibility q \<in> {VISIBILITY_PUBLIC, VISIBILITY_PROTECTED, VISIBILITY_PRIVATE} \<and>
     length (initial_members q) \<le> kMaxChannelMembers \<and> counters_free l \<and>
     ch = new_channel q (lg_next_channel_id l) \<and>
     l' = (record_channel ch (ChannelInitializedPayload ch) now l)\<lparr>lg_next_channel_id := lg_next_channel_id l + 1\<rparr>"

lemma CreateChannel_outcome:
  assumes laws: "env_laws E"
  shows "handler_outcome E (create_effect q now) (CreateChannel E q now) c"
  unfolding CreateChannel_def Let_def
proof (intro wp outcome laws, goal_cases)
  case (2 _ _ s _ _ next_id b b')
  have "next_id = lg_next_channel_id (log_at E c)"
    using counter_log(3) [OF laws 2(7)] CreateSnapshot_view [OF laws 2(4)] by simp
  then show ?case
    using 2 BuildChannelMutationBatch_log [OF laws 2(4) 2(8)] Authenticate_log [OF laws 2(5)]
      CreateSnapshot_view [OF laws 2(4)] counter_writes(3) [OF 2(9)]
    by (auto simp: create_effect_def ValidateVisibility_def not_less split: if_splits)
qed simp_all

definition owned_channel :: "event_log \<Rightarrow> u64 \<Rightarrow> string \<Rightarrow> u64 \<Rightarrow> channel_info \<Rightarrow> bool" where
  "owned_channel l prin token i ch \<longleftrightarrow>
     authentic l prin token \<and> i \<noteq> 0 \<and> lg_channels l i = Some ch \<and> ch_channel_id ch = i \<and>
     ch_creator ch = Some prin"

lemma load_owned_channel_log:
  assumes "env_laws E" and "CreateSnapshot E (d_db c) = Inr s"
    and "Authenticate E s prin token = Inr u" and "load_owned_channel E s prin i denied = Inr ch"
  shows "owned_channel (log_at E c) prin token i ch"
  using assms LoadChannel_log(1,2) [OF assms(1)] Authenticate_log [OF assms(1,3)]
    CreateSnapshot_view [OF assms(1,2)]
  by (fastforce simp: load_owned_channel_def owned_channel_def channel_in_def bind_inv
      split: if_splits option.splits)

definition add_effect :: "u64 \<Rightarrow> string \<Rightarrow> u64 \<Rightarrow> u64 \<Rightarrow> u64 \<Rightarrow> event_log \<Rightarrow> event_log \<Rightarrow> bool" where
  "add_effect prin token i target now l l' \<longleftrightarrow>
     (\<exists>ch. owned_channel l prin token i ch \<and> counters_free l \<and> target \<noteq> 0 \<and>
       target \<notin> set (ch_members ch) \<and> length (ch_members ch) < kMaxChannelMembers \<and>
       l' = record_channel (ch\<lparr>ch_members := ch_members ch @ [target]\<rparr>)
         (MemberChangedPayload ''system.member_added'' target) now l)"

lemma AddMember_outcome:
  assumes laws: "env_laws E"
  shows "handler_outcome E (\<lambda>_. add_effect prin token i target now) (AddMember E prin token i target now) c"
  unfolding AddMember_def Let_def
proof (intro wp outcome laws, goal_cases)
  case (2 _ s _ ch _ _ b)
  then show ?case
    using load_owned_channel_log [OF laws 2(3) 2(4) 2(5)] BuildChannelMutationBatch_log [OF laws 2(3) 2(8)]
    by (auto simp: add_effect_def IsMember_def not_le)
qed simp_all

definition remove_effect :: "u64 \<Rightarrow> string \<Rightarrow> u64 \<Rightarrow> u64 \<Rightarrow> u64 \<Rightarrow> event_log \<Rightarrow> event_log \<Rightarrow> bool" where
  "remove_effect prin token i target now l l' \<longleftrightarrow>
     (\<exists>ch. owned_channel l prin token i ch \<and> target \<noteq> prin \<and>
       (if target \<in> set (ch_members ch)
        then counters_free l \<and> l' = record_channel (ch\<lparr>ch_members := remove1 target (ch_members ch)\<rparr>)
               (MemberChangedPayload ''system.member_removed'' target) now l
        else l' = l))"

lemma RemoveMember_outcome:
  assumes laws: "env_laws E"
  shows "handler_outcome E (\<lambda>_. remove_effect prin token i target now) (RemoveMember E prin token i target now) c"
  unfolding RemoveMember_def Let_def
proof (intro wp outcome laws, goal_cases)
  case (1 _ s _ ch _)
  then show ?case
    using load_owned_channel_log [OF laws 1(3) 1(4) 1(5)]
    by (auto simp: remove_effect_def succeeded_def owned_channel_def)
next
  case (3 _ s _ ch _ b)
  then show ?case
    using load_owned_channel_log [OF laws 3(3) 3(4) 3(5)] BuildChannelMutationBatch_log [OF laws 3(3) 3(8)]
    by (auto simp: remove_effect_def owned_channel_def)
qed simp_all

lemma channel_latched:
  assumes "fatal_error_triggered c"
  shows "CreateChannel E q now c = (Inl unavailable, c)"
    and "AddMember E prin token i target now c = (Inl unavailable, c)"
    and "RemoveMember E prin token i target now c = (Inl unavailable, c)"
  using assms by (simp_all add: CreateChannel_def AddMember_def RemoveMember_def)

interpretation create_channel: log_handler "\<lambda>E (q, now). CreateChannel E q now" "\<lambda>_ (q, now). create_effect q now"
  by unfold_locales (auto simp: channel_latched intro: CreateChannel_outcome)

interpretation add_member: log_handler
  "\<lambda>E (prin, token, i, target, now). AddMember E prin token i target now"
  "\<lambda>_ (prin, token, i, target, now) _. add_effect prin token i target now"
  by unfold_locales (auto simp: channel_latched intro: AddMember_outcome)

interpretation remove_member: log_handler
  "\<lambda>E (prin, token, i, target, now). RemoveMember E prin token i target now"
  "\<lambda>_ (prin, token, i, target, now) _. remove_effect prin token i target now"
  by unfold_locales (auto simp: channel_latched intro: RemoveMember_outcome)

end
