(* ===== verification/Log_Invariant.thy ===== *)
theory Log_Invariant
  imports Core_Publish Core_Channels
begin

text \<open>
  The invariant of the event log: the messages are exactly those with sequence numbers up to the last
  one, the used uuids and the messages point at each other, no uuid beyond the allocation counter is in
  use, every stored channel is well formed and every message belongs to an existing channel. The log of
  a new storage satisfies it and every operation of the core preserves it.
\<close>

section \<open>The invariant\<close>

definition channel_ok :: "channel_info \<Rightarrow> bool" where
  "channel_ok ch \<longleftrightarrow>
     distinct (ch_members ch) \<and> length (ch_members ch) \<le> kMaxChannelMembers \<and> 0 \<notin> set (ch_members ch) \<and>
     (\<exists>p. ch_creator ch = Some p \<and> p \<in> set (ch_members ch)) \<and>
     ch_name ch \<noteq> [] \<and> length (ch_name ch) \<le> 255 \<and> length (ch_protocol ch) \<le> 255 \<and>
     length (ch_description ch) \<le> 4096 \<and>
     ch_visibility ch \<in> {VISIBILITY_PUBLIC, VISIBILITY_PROTECTED, VISIBILITY_PRIVATE}"

definition messages_ok :: "event_log \<Rightarrow> bool" where
  "messages_ok l \<longleftrightarrow>
     dom (lg_messages l) = {s. s \<le> lg_max_seq l} \<and>
     (\<forall>s msg. lg_messages l s = Some msg \<longrightarrow> msg_seq msg = s \<and>
        (if s = 0 then msg_channel_id msg = 0
         else msg_channel_id msg \<noteq> 0 \<and> msg_channel_id msg \<in> dom (lg_channels l)))"

definition uuids_ok :: "event_log \<Rightarrow> bool" where
  "uuids_ok l \<longleftrightarrow>
     (\<forall>u s. lg_used l u = Some s \<longleftrightarrow> (\<exists>msg. lg_messages l s = Some msg \<and> msg_uuid msg = u)) \<and>
     (\<forall>u. u \<in> dom (lg_used l) \<longrightarrow> u < lg_next_uuid l)"

definition channels_ok :: "event_log \<Rightarrow> bool" where
  "channels_ok l \<longleftrightarrow>
     (\<forall>i ch. lg_channels l i = Some ch \<longrightarrow> i \<noteq> 0 \<and> i < lg_next_channel_id l \<and> ch_channel_id ch = i \<and> channel_ok ch) \<and>
     lg_next_channel_id l \<noteq> 0"

definition log_ok :: "event_log \<Rightarrow> bool" where
  "log_ok l \<longleftrightarrow> messages_ok l \<and> uuids_ok l \<and> channels_ok l"

section \<open>Appending a message\<close>

lemma messages_ok_append:
  assumes "messages_ok l" and "lg_max_seq l + 1 \<noteq> 0" and "msg_seq msg = lg_max_seq l + 1"
    and "msg_channel_id msg \<noteq> 0" and "msg_channel_id msg \<in> dom (lg_channels l)"
  shows "messages_ok (append_message msg l)"
proof -
  have "{s. s \<le> lg_max_seq l + 1} = insert (lg_max_seq l + 1) {s. s \<le> lg_max_seq l}"
    using word_less_Suc [OF assms(2)] by (auto simp: le_less)
  with assms show ?thesis by (auto simp: messages_ok_def append_message_def)
qed

lemma uuids_ok_append:
  assumes "messages_ok l" and "uuids_ok l" and "lg_max_seq l + 1 \<noteq> 0" and "msg_seq msg = lg_max_seq l + 1"
    and "lg_used l (msg_uuid msg) = None" and "msg_uuid msg < lg_next_uuid l"
  shows "uuids_ok (append_message msg l)"
proof -
  have "lg_messages l (lg_max_seq l + 1) = None"
    using assms(1,3) word_less_Suc [OF assms(3), of "lg_max_seq l + 1"]
    unfolding messages_ok_def by (metis domIff leD less_irrefl mem_Collect_eq order_refl)
  with assms(2,4-6) show ?thesis
    by (auto simp: uuids_ok_def append_message_def) (metis option.distinct(1))
qed

lemma log_ok_publish:
  assumes "log_ok l" and "publish_effect E q now l l'"
  shows "log_ok l'"
proof -
  let ?msg = "request_message q now"
  have l': "l' = append_message ?msg l" and ok: "publish_allowed E q l"
    using assms(2) by (simp_all add: publish_effect_def)
  have msg: "lg_max_seq l + 1 \<noteq> 0" "msg_seq ?msg = lg_max_seq l + 1" "msg_channel_id ?msg \<noteq> 0"
    "msg_channel_id ?msg \<in> dom (lg_channels l)" "lg_used l (msg_uuid ?msg) = None"
    "msg_uuid ?msg < lg_next_uuid l"
    using ok by (auto simp: publish_allowed_def channel_accepts_def request_message_def publish_message_def
        split: option.splits)
  from assms(1) have "messages_ok l" "uuids_ok l" by (simp_all add: log_ok_def)
  with messages_ok_append [OF _ msg(1-4)] uuids_ok_append [OF _ _ msg(1,2,5,6)] assms(1)
  show ?thesis unfolding l' by (auto simp: log_ok_def append_message_def channels_ok_def)
qed

section \<open>Allocation\<close>

lemma log_ok_allocate:
  assumes "log_ok l" and "allocate_effect count uuids l l'" and "unat (lg_next_uuid l) + unat count < 2 ^ 64"
  shows "log_ok l'"
proof -
  have "lg_next_uuid l \<le> lg_next_uuid l + ucast count"
    using assms(3) unat_add_no_wrap [of "lg_next_uuid l" "ucast count"]
    by (simp add: word_le_nat_alt unat_ucast_u64)
  with assms(1,2) show ?thesis
    by (auto simp: log_ok_def allocate_effect_def messages_ok_def uuids_ok_def channels_ok_def
        intro: order.strict_trans2)
qed

section \<open>Channels\<close>

lemma log_ok_record_channel:
  assumes "log_ok l" and "counters_free l" and "ch_channel_id ch \<noteq> 0"
    and "ch_channel_id ch < lg_next_channel_id l" and "channel_ok ch"
  shows "log_ok (record_channel ch payload now l)"
proof -
  let ?l = "l\<lparr>lg_channels := (lg_channels l)(ch_channel_id ch \<mapsto> ch), lg_next_uuid := lg_next_uuid l + 1\<rparr>"
    and ?msg = "channel_message (lg_max_seq l) (lg_next_uuid l) ch payload now"
  have less: "u < lg_next_uuid l + 1 \<longleftrightarrow> u \<le> lg_next_uuid l" for u
    using assms(2) by (intro word_less_Suc) (simp add: counters_free_def)
  have msgs: "messages_ok ?l" and uuids: "uuids_ok ?l"
    using assms(1) less by (auto simp: log_ok_def messages_ok_def uuids_ok_def)
  have fresh: "lg_used l (lg_next_uuid l) = None"
    using assms(1) by (auto simp: log_ok_def uuids_ok_def)
  have eq: "record_channel ch payload now l = append_message ?msg ?l"
    by (simp add: record_channel_def append_message_def)
  have "messages_ok (append_message ?msg ?l)"
    using msgs assms(2,3) by (intro messages_ok_append) (auto simp: channel_message_def counters_free_def)
  moreover have "uuids_ok (append_message ?msg ?l)"
    using msgs uuids fresh assms(2) less
    by (intro uuids_ok_append) (auto simp: channel_message_def counters_free_def)
  moreover have "channels_ok (append_message ?msg ?l)"
    using assms by (auto simp: log_ok_def channels_ok_def append_message_def)
  ultimately show ?thesis unfolding eq by (simp add: log_ok_def)
qed

lemma log_ok_more_channels:
  "log_ok l \<Longrightarrow> lg_next_channel_id l \<le> n \<Longrightarrow> n \<noteq> 0 \<Longrightarrow> log_ok (l\<lparr>lg_next_channel_id := n\<rparr>)"
  by (auto simp: log_ok_def messages_ok_def uuids_ok_def channels_ok_def) (metis order.strict_trans2)

lemma new_channel_ok:
  assumes "\<not> invalid_channel_parameters q" and "length (initial_members q) \<le> kMaxChannelMembers"
    and "cc_visibility q \<in> {VISIBILITY_PUBLIC, VISIBILITY_PROTECTED, VISIBILITY_PRIVATE}"
  shows "channel_ok (new_channel q i)" and "ch_channel_id (new_channel q i) = i"
  using assms by (auto simp: channel_ok_def new_channel_def invalid_channel_parameters_def initial_members_def)

lemma log_ok_create:
  assumes "log_ok l" and "create_effect q now ch l l'" and room: "lg_next_channel_id l + 1 \<noteq> 0"
  shows "log_ok l'"
proof -
  let ?m = "l\<lparr>lg_next_channel_id := lg_next_channel_id l + 1\<rparr>"
  have "lg_next_channel_id l < lg_next_channel_id l + 1" using word_less_Suc [OF room] by simp
  then have "log_ok ?m" using log_ok_more_channels assms(1) room less_imp_le by metis
  then have "log_ok (record_channel ch (ChannelInitializedPayload ch) now ?m)"
    using assms(1,2) new_channel_ok [of q] \<open>lg_next_channel_id l < lg_next_channel_id l + 1\<close>
    by (intro log_ok_record_channel) (auto simp: create_effect_def counters_free_def log_ok_def channels_ok_def)
  moreover have "l' = record_channel ch (ChannelInitializedPayload ch) now ?m"
    using assms(2) by (simp add: create_effect_def record_channel_def append_message_def)
  ultimately show ?thesis by simp
qed

lemma log_ok_owned:
  assumes "log_ok l" and "owned_channel l prin token i ch"
  shows "channel_ok ch" and "i < lg_next_channel_id l" and "i \<noteq> 0" and "ch_channel_id ch = i"
    and "ch_creator ch = Some prin"
  using assms by (auto simp: log_ok_def channels_ok_def owned_channel_def)

lemma log_ok_add:
  assumes "log_ok l" and "add_effect prin token i target now l l'"
  shows "log_ok l'"
proof -
  from assms(2) obtain ch where ch: "owned_channel l prin token i ch" "counters_free l" "target \<noteq> 0"
    "target \<notin> set (ch_members ch)" "length (ch_members ch) < kMaxChannelMembers"
    "l' = record_channel (ch\<lparr>ch_members := ch_members ch @ [target]\<rparr>)
       (MemberChangedPayload ''system.member_added'' target) now l"
    unfolding add_effect_def by blast
  note own = log_ok_owned [OF assms(1) ch(1)]
  show ?thesis unfolding ch(6)
    using assms(1) ch own by (intro log_ok_record_channel) (auto simp: channel_ok_def)
qed

lemma log_ok_remove:
  assumes "log_ok l" and "remove_effect prin token i target now l l'"
  shows "log_ok l'"
proof -
  from assms(2) obtain ch where ch: "owned_channel l prin token i ch" "target \<noteq> prin"
    "if target \<in> set (ch_members ch)
     then counters_free l \<and> l' = record_channel (ch\<lparr>ch_members := remove1 target (ch_members ch)\<rparr>)
            (MemberChangedPayload ''system.member_removed'' target) now l
     else l' = l"
    unfolding remove_effect_def by blast
  note own = log_ok_owned [OF assms(1) ch(1)]
  have "channel_ok (ch\<lparr>ch_members := remove1 target (ch_members ch)\<rparr>)"
    using own(1,5) ch(2) set_remove1_subset [of target "ch_members ch"] length_remove1 [of target "ch_members ch"]
    by (auto simp: channel_ok_def in_set_remove1)
  with assms(1) ch own show ?thesis
    by (cases "target \<in> set (ch_members ch)") (auto intro!: log_ok_record_channel)
qed

end
