(* ===== verification/Recovery.thy ===== *)
theory Recovery
  imports Listings Log_Invariant Reference_Env
begin

text \<open>
  A storage at its start: the batch that initializes a new one, the validation of an existing one, and
  the recovery of objects that were in preparation when the server stopped.
\<close>

section \<open>Recovery\<close>

lemma delete_preparing_log:
  assumes "env_laws E"
  shows "log_of (proto_lib E) (apply_batch (foldl DeletePreparingObject b ids) m) =
    (log_of (proto_lib E) (apply_batch b m))\<lparr>lg_preparing :=
       (\<lambda>i. if i \<in> set ids then None else lg_preparing (log_of (proto_lib E) (apply_batch b m)) i)\<rparr>"
proof (induction ids arbitrary: b)
  case (Cons i ids)
  show ?case unfolding foldl_Cons Cons object_writes(3) [OF assms] by (simp add: fun_eq_iff)
qed simp

lemma check_not_committed_log:
  assumes "env_laws E"
  shows "check_not_committed E s obs = Inr u \<Longrightarrow> ob \<in> set obs \<Longrightarrow> lg_objects (log_in E s) (so_object_id ob) = None"
  by (induction obs) (auto simp: bind_inv split: if_splits dest: object_log(1) [OF assms])

text \<open>
  The steps of a recovery that finds objects: what it lists, the conflict check, the files, the batch.
\<close>

lemma Recover_steps:
  assumes laws: "env_laws E" and run: "RecoverPreparingObjects E d = (Inr u, d')"
    and some: "ListPreparingObjects E (d_db d) = Inr objects" "objects \<noteq> []"
  shows "log_at E d' = (log_at E d)\<lparr>lg_preparing := (\<lambda>i. if i \<in> so_object_id ` set objects then None
      else lg_preparing (log_at E d) i)\<rparr>"
    and "os_dir (posix_api E) (d_os d') = (\<lambda>n. if n \<in> file_names (map so_object_id objects) then None
      else os_dir (posix_api E) (d_os d) n)"
    and "ob \<in> set objects \<Longrightarrow> lg_objects (log_at E d) (so_object_id ob) = None"
proof -
  let ?ids = "map so_object_id objects"
  from run some obtain s os1 where snap: "CreateSnapshot E (d_db d) = Inr s"
    and check: "check_not_committed E s objects = Inr ()"
    and clean: "Cleanup (posix_api E) ?ids (d_os d) = (Inr (), os1)"
    and commit: "Commit E (foldl DeletePreparingObject [] ?ids) (d\<lparr>d_os := os1\<rparr>) = (Inr (), d')"
    by (auto simp: RecoverPreparingObjects_def bind_inv on_os_def split: prod.splits)
  from Commit_ok [OF laws commit] have "contents E d' = apply_batch (foldl DeletePreparingObject [] ?ids) (contents E d)"
    and "d_os d' = os1" by (simp_all, metis disk.ext_inject disk.surjective disk.update_convs(1,2) disk.select_convs(2))
  then show "log_at E d' = (log_at E d)\<lparr>lg_preparing := (\<lambda>i. if i \<in> so_object_id ` set objects then None
      else lg_preparing (log_at E d) i)\<rparr>"
    and "os_dir (posix_api E) (d_os d') = (\<lambda>n. if n \<in> file_names ?ids then None else os_dir (posix_api E) (d_os d) n)"
    using Cleanup_dir(2) [OF env_lawsD(3) [OF laws] clean] by (simp_all add: delete_preparing_log [OF laws, of "[]", unfolded apply_batch_simps])
  show "ob \<in> set objects \<Longrightarrow> lg_objects (log_at E d) (so_object_id ob) = None"
    using check_not_committed_log [OF laws check] CreateSnapshot_view [OF laws snap] by simp
qed

lemma listed_preparing:
  assumes "env_laws E" and "ListPreparingObjects E (d_db d) = Inr objects"
  shows "dom (lg_preparing (log_at E d)) = so_object_id ` set objects"
proof (intro equalityI subsetI)
  note result = ListPreparingObjects_result [OF assms]
  fix i
  show "i \<in> so_object_id ` set objects" if "i \<in> dom (lg_preparing (log_at E d))"
    using that result by (metis domD imageI)
  show "i \<in> dom (lg_preparing (log_at E d))" if "i \<in> so_object_id ` set objects"
    using that result(1) by auto
qed

definition preparing_files :: "event_log \<Rightarrow> string set" where
  "preparing_files l = {n. \<exists>i \<in> dom (lg_preparing l). n \<in> {TemporaryName i, FinalName i}}"

lemma listed_files:
  assumes "env_laws E" and "ListPreparingObjects E (d_db d) = Inr objects"
  shows "file_names (map so_object_id objects) = preparing_files (log_at E d)"
  unfolding preparing_files_def listed_preparing [OF assms] file_names_def by auto

lemma Recover_result:
  assumes laws: "env_laws E" and run: "RecoverPreparingObjects E d = (Inr u, d')"
  shows "log_at E d' = (log_at E d)\<lparr>lg_preparing := Map.empty\<rparr>"
    and "i \<in> dom (lg_preparing (log_at E d)) \<Longrightarrow> i \<notin> dom (lg_objects (log_at E d))"
    and "os_dir (posix_api E) (d_os d') n =
      (if \<exists>i \<in> dom (lg_preparing (log_at E d)). n \<in> {TemporaryName i, FinalName i} then None
       else os_dir (posix_api E) (d_os d) n)"
proof -
  from run obtain objects where list: "ListPreparingObjects E (d_db d) = Inr objects"
    by (auto simp: RecoverPreparingObjects_def bind_inv)
  note dom = listed_preparing [OF laws list]
  have "log_at E d' = (log_at E d)\<lparr>lg_preparing := Map.empty\<rparr> \<and>
    (i \<in> dom (lg_preparing (log_at E d)) \<longrightarrow> i \<notin> dom (lg_objects (log_at E d))) \<and>
    os_dir (posix_api E) (d_os d') n = (if n \<in> preparing_files (log_at E d) then None else os_dir (posix_api E) (d_os d) n)"
  proof (cases "objects = []")
    case True
    with run list have "d' = d" by (auto simp: RecoverPreparingObjects_def bind_inv)
    moreover from dom True have "lg_preparing (log_at E d) = Map.empty" by simp
    ultimately show ?thesis by (simp add: dom preparing_files_def)
  next
    case False
    note steps = Recover_steps [OF laws run list False]
    have "(\<lambda>i. if i \<in> so_object_id ` set objects then None else lg_preparing (log_at E d) i) = Map.empty"
      using dom by (auto simp: fun_eq_iff)
    moreover have "i \<notin> dom (lg_objects (log_at E d))" if "i \<in> dom (lg_preparing (log_at E d))"
      using that steps(3) unfolding dom by auto
    ultimately show ?thesis using steps(1,2) listed_files [OF laws list] by simp
  qed
  then show "log_at E d' = (log_at E d)\<lparr>lg_preparing := Map.empty\<rparr>"
    and "i \<in> dom (lg_preparing (log_at E d)) \<Longrightarrow> i \<notin> dom (lg_objects (log_at E d))"
    and "os_dir (posix_api E) (d_os d') n =
      (if \<exists>i \<in> dom (lg_preparing (log_at E d)). n \<in> {TemporaryName i, FinalName i} then None
       else os_dir (posix_api E) (d_os d) n)" unfolding preparing_files_def mem_Collect_eq by blast+
qed

text \<open>A recovery that fails has touched no file but those of unfinished objects, and has forgotten these objects
  or nothing.\<close>

lemma Recover_failed:
  assumes laws: "env_laws E" and run: "RecoverPreparingObjects E d = (Inl e, d')"
  shows "log_at E d' = log_at E d \<or> log_at E d' = (log_at E d)\<lparr>lg_preparing := Map.empty\<rparr>"
    and "agrees_except (posix_api E) (os_dir (posix_api E) (d_os d)) (preparing_files (log_at E d)) (d_os d')"
proof -
  from run consider "d' = d"
    | objects r os1 where "ListPreparingObjects E (d_db d) = Inr objects"
        "Cleanup (posix_api E) (map so_object_id objects) (d_os d) = (r, os1)"
        "d' = d\<lparr>d_os := os1\<rparr> \<or> Commit E (foldl DeletePreparingObject [] (map so_object_id objects)) (d\<lparr>d_os := os1\<rparr>) = (Inl e, d')"
    by (auto simp: RecoverPreparingObjects_def bind_inv on_os_def split: prod.splits if_splits)
  then have "(log_at E d' = log_at E d \<or> log_at E d' = (log_at E d)\<lparr>lg_preparing := Map.empty\<rparr>) \<and>
    agrees_except (posix_api E) (os_dir (posix_api E) (d_os d)) (preparing_files (log_at E d)) (d_os d')"
  proof cases
    case (2 objects r os1)
    let ?b = "foldl DeletePreparingObject [] (map so_object_id objects)"
    have files: "agrees_except (posix_api E) (os_dir (posix_api E) (d_os d)) (preparing_files (log_at E d)) os1"
      using Cleanup_dir(1) [OF env_lawsD(3) [OF laws] 2(2)] listed_files [OF laws 2(1)] by simp
    have "d_os d' = os1 \<and> (contents E d' = contents E d \<or> contents E d' = apply_batch ?b (contents E d))"
      using 2(3) Commit_error(1,2) [OF laws, of ?b "d\<lparr>d_os := os1\<rparr>" e d']
      by (auto, (metis disk.ext_inject disk.surjective disk.update_convs(1,2) disk.select_convs(2))+)
    moreover have "log_of (proto_lib E) (apply_batch ?b (contents E d)) = (log_at E d)\<lparr>lg_preparing := Map.empty\<rparr>"
    proof -
      have "(\<lambda>i. if i \<in> so_object_id ` set objects then None else lg_preparing (log_at E d) i) = Map.empty"
        using listed_preparing [OF laws 2(1)] by (auto simp: fun_eq_iff)
      then show ?thesis by (simp add: delete_preparing_log [OF laws, of "[]", unfolded apply_batch_simps])
    qed
    ultimately show ?thesis using files by auto
  qed (simp add: agrees_except_def)
  then show "log_at E d' = log_at E d \<or> log_at E d' = (log_at E d)\<lparr>lg_preparing := Map.empty\<rparr>"
    and "agrees_except (posix_api E) (os_dir (posix_api E) (d_os d)) (preparing_files (log_at E d)) (d_os d')" by blast+
qed

text \<open>Nothing happens if nothing was in preparation.\<close>

lemma Recover_nothing:
  assumes "env_laws E" and "RecoverPreparingObjects E d = (Inr u, d')" and "lg_preparing (log_at E d) = Map.empty"
  shows "d' = d"
proof -
  from assms(2) obtain objects where list: "ListPreparingObjects E (d_db d) = Inr objects"
    by (auto simp: RecoverPreparingObjects_def bind_inv)
  have "ob \<notin> set objects" for ob using ListPreparingObjects_result(1) [OF assms(1) list] assms(3) by fastforce
  then have "objects = []" by (metis list.set_intros(1) neq_Nil_conv)
  with list assms(2) show ?thesis by (auto simp: RecoverPreparingObjects_def bind_inv)
qed

section \<open>Initialization and validation\<close>

text \<open>A read that returns the stored value, or an error of the database that makes the server exit.\<close>

definition reads_or_exits :: "'a result \<Rightarrow> 'a \<Rightarrow> bool" where
  "reads_or_exits r v \<longleftrightarrow> r = Inr v \<or> (\<exists>e. r = Inl e \<and> st_requires_server_exit e)"

lemma reads_or_exits_bindR:
  "reads_or_exits r a \<Longrightarrow> reads_or_exits (f a) v \<Longrightarrow> reads_or_exits (bindR r f) v"
  by (auto simp: reads_or_exits_def)

lemma reads_or_exits_failIf: "\<not> b \<Longrightarrow> reads_or_exits (failIf b e) ()"
  by (simp add: reads_or_exits_def)

lemma reads_or_exits_rocks:
  "(rocks_ok st \<Longrightarrow> reads_or_exits (f ()) v) \<Longrightarrow> reads_or_exits (bindR (RocksToStatus g st op) f) v"
  by (cases "rocks_ok st") (auto simp: RocksToStatus_def reads_or_exits_def Let_def)

lemma GetRequiredUint64_reads:
  assumes "env_laws E" and "snap_view E s (Meta, key) = Some (EncodeUint64 v)"
  shows "reads_or_exits (GetRequiredUint64 E s key) v"
proof -
  obtain st b where g: "db_Get (rocks E) s Meta key = (st, b)" by fastforce
  note laws = rocks_lawsD(3,4) [OF env_lawsD(1) [OF assms(1)] g]
  from laws(2) assms(2) have "\<not> rocks_not_found st" by auto
  moreover have "reads_or_exits (bindR (rocks_result E st op) (\<lambda>_. DecodeRequiredUint64 b key)) v" for op
    using laws(1) assms(2) by (intro reads_or_exits_rocks) (simp add: reads_or_exits_def DecodeRequired_iff)
  ultimately show ?thesis using g by (simp add: GetRequiredUint64_def)
qed

lemma GetUsedUuidSeq_reads:
  assumes "env_laws E" and "snap_view E s (Meta, NumericKey kUuidPrefix 0) = Some (EncodeUint64 0)"
  shows "reads_or_exits (GetUsedUuidSeq E s 0) (Some 0)"
proof -
  obtain st b where g: "db_Get (rocks E) s Meta (NumericKey kUuidPrefix 0) = (st, b)" by fastforce
  note laws = rocks_lawsD(3,4) [OF env_lawsD(1) [OF assms(1)] g]
  have dec: "DecodeRequiredUint64 (EncodeUint64 0) ''used uuid'' = Inr 0" by (simp add: DecodeRequired_iff)
  from laws(2) assms(2) have "\<not> rocks_not_found st" by auto
  with g have "GetUsedUuidSeq E s 0 = bindR (rocks_result E st ''read used uuid'') (\<lambda>_.
      bindR (DecodeRequiredUint64 b ''used uuid'') (\<lambda>seq. if seq \<noteq> 0
        then Inl (StorageCorruption ''read used uuid'' ''invalid stored UUID mapping'') else Inr (Some seq)))"
    by (simp add: GetUsedUuidSeq_def)
  also have "reads_or_exits \<dots> (Some 0)"
    using laws(1) assms(2) dec by (intro reads_or_exits_rocks) (simp add: reads_or_exits_def)
  finally show ?thesis .
qed

text \<open>What the initialization leaves in an empty database.\<close>

definition initial_contents :: "bytes \<Rightarrow> kv" where
  "initial_contents b = [(Meta, kSchemaVersionKey) \<mapsto> EncodeUint64 kSchemaVersion, (Meta, kMaxSeqKey) \<mapsto> EncodeUint64 0,
     (Meta, kNextUuidKey) \<mapsto> EncodeUint64 1, (Meta, kNextChannelIdKey) \<mapsto> EncodeUint64 1,
     (Meta, kNextObjectIdKey) \<mapsto> EncodeUint64 1, (Meta, NumericKey kUuidPrefix 0) \<mapsto> EncodeUint64 0,
     (Messages, NumericKey kMessagePrefix 0) \<mapsto> b]"

lemma InitializeNew_contents:
  assumes "env_laws E" and "db_contents (rocks E) (d_db d) = Map.empty"
    and "message_SerializeToString (proto_lib E) (InitializationMessage ms) = Some b"
    and "InitializeNew_write E ms d = (Inr u, d')"
  shows "db_contents (rocks E) (d_db d') = initial_contents b"
proof -
  obtain st db' where w: "db_Write (rocks E) (d_db d) (InitializationBatch (proto_lib E) ms) = (st, db')" by fastforce
  with assms(4) have "rocks_ok st" "d_db d' = db'"
    by (auto simp: InitializeNew_write_def bind_inv split: sum.splits prod.splits)
  with rocks_write [OF env_lawsD(1) [OF assms(1)] w] assms(2,3) show ?thesis
    by (simp add: InitializationBatch_def initial_contents_def)
qed

lemma initial_log_ok:
  assumes "message_ParseFromString P b = Some (InitializationMessage ms)"
  shows "log_ok (log_of P (initial_contents b))"
proof -
  let ?l = "log_of P (initial_contents b)"
  have counters: "lg_max_seq ?l = 0" "lg_next_uuid ?l = 1" "lg_next_channel_id ?l = 1"
    by (simp_all add: log_of_def counter_at_def initial_contents_def be64.dec_enc)
  have maps: "lg_messages ?l = [0 \<mapsto> InitializationMessage ms]" "lg_used ?l = [0 \<mapsto> 0]" "lg_channels ?l = Map.empty"
    using assms by (auto simp: log_of_def initial_contents_def be64.dec_enc fun_eq_iff)
  show ?thesis
    unfolding log_ok_def messages_ok_def uuids_ok_def channels_ok_def counters maps
    by (auto simp: InitializationMessage_def empty_message_def)
qed

lemma Validate_passes:
  assumes laws: "env_laws E" and m: "db_contents (rocks E) db = m"
    and schema: "m (Meta, kSchemaVersionKey) = Some (EncodeUint64 kSchemaVersion)"
    and max_seq: "m (Meta, kMaxSeqKey) = Some (EncodeUint64 n)"
    and next_uuid: "m (Meta, kNextUuidKey) = Some (EncodeUint64 a)" "a \<noteq> 0"
    and next_channel: "m (Meta, kNextChannelIdKey) = Some (EncodeUint64 i)" "i \<noteq> 0"
    and next_object: "m (Meta, kNextObjectIdKey) = Some (EncodeUint64 j)" "j \<noteq> 0"
    and uuid: "m (Meta, NumericKey kUuidPrefix 0) = Some (EncodeUint64 0)"
    and message: "m (Messages, NumericKey kMessagePrefix 0) = Some b"
    and parse: "message_ParseFromString (proto_lib E) b = Some msg" and valid: "ValidInitializationMessage (proto_lib E) msg"
  shows "reads_or_exits (Validate E db) ()"
proof (cases "CreateSnapshot E db")
  case (Inl e)
  then show ?thesis
    by (auto simp: Validate_def reads_or_exits_def CreateSnapshot_def split: option.splits)
next
  case (Inr s)
  have view: "snap_view E s = m" using CreateSnapshot_view [OF laws Inr] m by simp
  have reads: "reads_or_exits (GetRequiredUint64 E s kSchemaVersionKey) kSchemaVersion"
    "reads_or_exits (GetMaxSeq E s) n" "reads_or_exits (GetNextUuid E s) a"
    "reads_or_exits (GetNextChannelId E s) i" "reads_or_exits (GetNextObjectId E s) j"
    "reads_or_exits (GetUsedUuidSeq E s 0) (Some 0)"
    unfolding GetMaxSeq_def GetNextUuid_def GetNextChannelId_def GetNextObjectId_def
    by (rule GetRequiredUint64_reads [OF laws] GetUsedUuidSeq_reads [OF laws],
        simp add: view schema max_seq next_uuid next_channel next_object uuid)+
  obtain st v where g: "db_Get (rocks E) s Messages (NumericKey kMessagePrefix 0) = (st, v)" by fastforce
  note get = rocks_lawsD(3,4) [OF env_lawsD(1) [OF laws] g]
  have found: "\<not> rocks_not_found st" and "rocks_ok st \<Longrightarrow> v = b"
    using get by (auto simp: view message)
  show ?thesis
    unfolding Validate_def Inr bindR_simps g prod.case Let_def if_not_P [OF found]
    by (intro reads_or_exits_bindR [OF reads(1)] reads_or_exits_bindR [OF reads(2)] reads_or_exits_bindR [OF reads(3)]
        reads_or_exits_bindR [OF reads(4)] reads_or_exits_bindR [OF reads(5)] reads_or_exits_bindR [OF reads(6)]
        reads_or_exits_bindR [OF reads_or_exits_failIf] reads_or_exits_rocks reads_or_exits_failIf)
      (use found parse valid next_uuid(2) next_channel(2) next_object(2) \<open>rocks_ok st \<Longrightarrow> v = b\<close> in simp_all)
qed

lemma Validate_initial:
  assumes "env_laws E" and "db_contents (rocks E) db = initial_contents b"
    and "message_ParseFromString (proto_lib E) b = Some message" and "ValidInitializationMessage (proto_lib E) message"
  shows "reads_or_exits (Validate E db) ()"
  by (rule Validate_passes [OF assms(1,2) _ _ _ _ _ _ _ _ _ _ assms(3,4), of 0 1 1 1]) (simp_all add: initial_contents_def)

section \<open>Properties\<close>

text \<open>
  C19: Recovery removes what was in preparation and nothing else: afterwards no object is in preparation,
  the files of those that were are gone, every other file and the rest of the log are as before, and none
  of the removed objects had been committed.
\<close>

theorem recovery_removes_preparing:
  assumes "env_laws E" and "RecoverPreparingObjects E d = (Inr u, d')"
  shows "log_at E d' = (log_at E d)\<lparr>lg_preparing := Map.empty\<rparr> \<and>
    dom (lg_preparing (log_at E d)) \<inter> dom (lg_objects (log_at E d)) = {} \<and>
    os_dir (posix_api E) (d_os d') = (\<lambda>n. if \<exists>i \<in> dom (lg_preparing (log_at E d)). n \<in> {TemporaryName i, FinalName i}
      then None else os_dir (posix_api E) (d_os d) n)"
  using Recover_result [OF assms] by blast

definition ref_object :: "u64 \<Rightarrow> stored_object" where
  "ref_object i = \<lparr>so_object_id = i, so_object_token = replicate 43 (CHR ''A''), so_creator_principal = 7,
     so_name = ''n'', so_type = ''t'', so_description = [], so_nbytes = 3\<rparr>"

definition ref_record :: "u64 \<Rightarrow> bytes" where
  "ref_record i = put_record \<lparr>rec_object_id = i, rec_object_token = replicate 43 (CHR ''A''),
     rec_creator_principal = 7, rec_name = ''n'', rec_type = ''t'', rec_description = [], rec_nbytes = 3\<rparr>"

lemma ref_record_parse [simp]: "whole get_record (ref_record i) = Some \<lparr>rec_object_id = i,
    rec_object_token = replicate 43 (CHR ''A''), rec_creator_principal = 7, rec_name = ''n'', rec_type = ''t'',
    rec_description = [], rec_nbytes = 3\<rparr>"
  unfolding ref_record_def by (rule whole_put) (simp add: record_fits_def fits_def)

lemma ref_ParseObject [simp]: "i \<noteq> 0 \<Longrightarrow> ParseObject ref_proto (ref_record i) i = Inr (ref_object i)"
  by (simp add: ParseObject_Inr object_of_record_def ref_object_def valid_object_def IsBase64UrlToken_def
      list_all_iff is_base64url_char_def kObjectTokenEncodedBytes_def kMaxObjectNameBytes_def kMaxObjectTypeBytes_def
      kMaxObjectDescriptionBytes_def kMaxObjectBytes_def)

text \<open>An object was in preparation under the number 1, with its file already renamed.\<close>

definition ref_unfinished :: "(ref_db, ref_os) disk" where
  "ref_unfinished = \<lparr>d_db = [((Objects, NumericKey kPreparingObjectPrefix 1), ref_record 1)],
     d_os = \<lparr>ro_dir = [FinalName 1 \<mapsto> RegularFile ''abc'', FinalName 2 \<mapsto> RegularFile ''xyz''],
       ro_fds = Map.empty, ro_next = 3\<rparr>\<rparr>"

lemma ref_list_unfinished: "ListPreparingObjects ref_env (d_db ref_unfinished) = Inr [ref_object 1]"
proof -
  have "ref_entries (d_db ref_unfinished) Objects kPreparingObjectPrefix =
      [(NumericKey kPreparingObjectPrefix 1, ref_record 1)]"
    by (simp add: ref_entries_def ref_keys_def ref_unfinished_def preparing_listing.prefix_le)
  moreover have "db_Latest (rocks ref_env) db = db" for db by (simp add: ref_env_def ref_rocks_def)
  ultimately show ?thesis by (simp add: ListPreparingObjects_def iter_status_def ref_result)
qed

theorem recovery_removes_preparing_witness:
  "\<exists>d'. RecoverPreparingObjects ref_env ref_unfinished = (Inr (), d') \<and>
     lg_preparing (log_at ref_env ref_unfinished) 1 = Some (ref_object 1) \<and>
     lg_preparing (log_at ref_env d') 1 = None \<and> ro_dir (d_os d') (FinalName 1) = None"
proof -
  have prep: "lg_preparing (log_at ref_env ref_unfinished) 1 = Some (ref_object 1)"
    using ListPreparingObjects_result(1) [OF ref_env_laws ref_list_unfinished, of "ref_object 1"]
    by (simp add: ref_object_def)
  have "check_not_committed ref_env (d_db ref_unfinished) [ref_object 1] = Inr ()"
    by (simp add: GetCommittedObject_def GetObject_def ref_lookup_def ref_unfinished_def)
  moreover have "fst (Cleanup ref_posix [so_object_id (ref_object 1)] (d_os ref_unfinished)) = Inr ()"
    by (simp add: Cleanup_def UnlinkKnownPath_def fsync_directory_def ref_posix_def ref_unfinished_def ref_object_def)
  ultimately obtain d' where run: "RecoverPreparingObjects ref_env ref_unfinished = (Inr (), d')"
    using ref_list_unfinished
    by (cases "Cleanup ref_posix [so_object_id (ref_object 1)] (d_os ref_unfinished)")
      (auto simp: RecoverPreparingObjects_def on_os_def)
  have "os_dir ref_posix = ro_dir" by (simp add: ref_posix_def)
  with recovery_removes_preparing [OF ref_env_laws run] prep run show ?thesis by (auto simp: dom_def)
qed

end
