(* ===== verification/Server_Steps.thy ===== *)
theory Server_Steps
  imports Core_Subscription Core_Objects Core_Tokens Recovery
begin

text \<open>
  The running server as a transition system. A state is the core and the object writes in flight, each
  at the phase it has reached; a step is an operation of the core, possibly one that began before the fatal state was
  latched, one phase of a write, a step of the refresh thread, a restart with recovery, or a stop: a crash that leaves the files of unfinished objects in
  any condition, a recovery that fails. Operations that hold the coordinator mutex for their whole
  body are one step; the phases of different writes interleave freely. The log of the server refines the
  abstract log \<open>log_next\<close>, whose invariant is preserved; the object files agree with the committed
  objects in every reachable state.
\<close>

section \<open>Reading leaves the files alone\<close>

lemma ReadObject_quiet:
  assumes laws: "env_laws E" and run: "ReadObject E i token offset n c = Some (r, c')"
  shows "contents E c' = contents E c" and "os_dir (posix_api E) (d_os c') = os_dir (posix_api E) (d_os c)"
proof -
  let ?lookup = "bindM EnsureAvailable (\<lambda>_.
       bindM (liftM (failIf (n = 0) (mk_status INVALID_ARGUMENT ''nbytes must be greater than 0''))) (\<lambda>_.
       bindM (CreateLinearizedSnapshot E) (\<lambda>snapshot.
       bindM (LoadAuthorizedObject E snapshot i token) (\<lambda>ob.
       bindM (liftM (failIf (offset > so_nbytes ob) (mk_status OUT_OF_RANGE ''offset exceeds object size''))) (\<lambda>_.
       retM ob)))))"
  let ?P = "\<lambda>s. contents E s = contents E c \<and> os_dir (posix_api E) (d_os s) = os_dir (posix_api E) (d_os c)"
  have "runs ?lookup c (\<lambda>_. ?P) (\<lambda>_. ?P)" by (intro wp laws) (simp_all add: same_state_def)
  then have look: "hoareO (\<lambda>s. s = c) (totalO ?lookup) (\<lambda>_. ?P) ?P" by (rule hoareO_runs)
  have read: "hoareO ?P (classifyO E (ReadObjectFile E ob offset n)) (\<lambda>_. ?P) ?P" for ob
    by (rule hoareOI) (auto simp: classifyO_def ReadObjectFile_def on_os_pop_def failClassified_def failFatal_def
        dest!: ReadRange_dir [OF env_lawsD(3) [OF laws]] split: option.splits prod.splits sum.splits if_splits)
  from hoareOD [OF hoareO_bindO [OF look read] refl] run
  show "contents E c' = contents E c" and "os_dir (posix_api E) (d_os c') = os_dir (posix_api E) (d_os c)"
    by (cases r; auto simp: ReadObject_def)+
qed

section \<open>What the phases of a write may do\<close>

lemma CleanupPreparingObject_effect:
  fixes E :: "('db, 'snap, 'os) env" and r :: "status + 'a"
  assumes laws: "env_laws E" and run: "CleanupPreparingObject E i s c = (r, c')"
  shows "log_at E c' = log_at E c \<or> log_at E c' = (log_at E c)\<lparr>lg_preparing := (lg_preparing (log_at E c))(i := None)\<rparr>"
    and "agrees_except (posix_api E) (os_dir (posix_api E) (d_os c)) {TemporaryName i, FinalName i} (d_os c')"
    and "r \<noteq> Inr a"
proof -
  let ?dir = "os_dir (posix_api E)"
  obtain r1 os1 where cl: "Cleanup (posix_api E) [i] (d_os c) = (r1, os1)" by fastforce
  have files: "agrees_except (posix_api E) (?dir (d_os c)) {TemporaryName i, FinalName i} os1"
    using Cleanup_dir(1) [OF env_lawsD(3) [OF laws] cl] by (simp add: file_names_def insert_commute)
  have "runs (bindM (CommitBatch E (DeletePreparingObject [] i)) (\<lambda>_. failM s) :: ('db, 'snap, 'os, 'a) core_op)
      (c\<lparr>d_os := os1\<rparr>) (\<lambda>_ _. False) (\<lambda>_ c'. d_os c' = os1 \<and> (log_at E c' = log_at E c \<or>
        log_at E c' = (log_at E c)\<lparr>lg_preparing := (lg_preparing (log_at E c))(i := None)\<rparr>))"
    by (intro wp runs_CommitBatch [OF laws])
      (auto simp: after_commit_def failed_commit_def object_writes(3) [OF laws, of "[]", simplified])
  then have "runs (CleanupPreparingObject E i s :: ('db, 'snap, 'os, 'a) core_op) c (\<lambda>_ _. False)
      (\<lambda>_ c'. d_os c' = os1 \<and> (log_at E c' = log_at E c \<or>
        log_at E c' = (log_at E c)\<lparr>lg_preparing := (lg_preparing (log_at E c))(i := None)\<rparr>))"
    unfolding CleanupPreparingObject_def
    using cl by (intro runs_bindM, cases r1) (auto simp: runs_def classifyM_def CleanupObjectFiles_def on_os_def
        failClassified_def failFatal_def)
  with run have "r \<noteq> Inr a \<and> d_os c' = os1 \<and> (log_at E c' = log_at E c \<or>
      log_at E c' = (log_at E c)\<lparr>lg_preparing := (lg_preparing (log_at E c))(i := None)\<rparr>)"
    by (cases r) (auto simp: runs_def)
  with files show "log_at E c' = log_at E c \<or> log_at E c' = (log_at E c)\<lparr>lg_preparing := (lg_preparing (log_at E c))(i := None)\<rparr>"
    and "agrees_except (posix_api E) (?dir (d_os c)) {TemporaryName i, FinalName i} (d_os c')"
    and "r \<noteq> Inr a" by auto
qed

text \<open>An unfinished object may have been forgotten, its files touched, nothing else.\<close>

definition abandoned :: "('db, 'snap, 'os) env \<Rightarrow> u64 \<Rightarrow> ('db, 'snap, 'os) core \<Rightarrow> ('db, 'snap, 'os) core \<Rightarrow> bool" where
  "abandoned E i c c' \<longleftrightarrow>
     (log_at E c' = log_at E c \<or> log_at E c' = (log_at E c)\<lparr>lg_preparing := (lg_preparing (log_at E c))(i := None)\<rparr>) \<and>
     agrees_except (posix_api E) (os_dir (posix_api E) (d_os c)) {TemporaryName i, FinalName i} (d_os c')"

lemma WriteObject_file_abandoned:
  assumes laws: "env_laws E" and run: "WriteObject_file E q ob c = Some (Inl e, c')"
  shows "abandoned E (so_object_id ob) c c'"
proof -
  let ?i = "so_object_id ob"
  from run obtain s os' where w: "Write (posix_api E) (fault_injector E) ?i (wq_data q) (d_os c) = Some (Inl s, os')"
    and next_state: "(if is_fatal s then failFatal E s (c\<lparr>d_os := os'\<rparr>)
      else CleanupPreparingObject E ?i s (c\<lparr>d_os := os'\<rparr>)) = (Inl e :: status + unit, c')"
    by (auto simp: WriteObject_file_def WriteObjectFile_def on_os_pop_def split: option.splits prod.splits sum.splits)
  have files: "agrees_except (posix_api E) (os_dir (posix_api E) (d_os c)) {TemporaryName ?i, FinalName ?i} os'"
    using hoareOD(2) [OF Write_triple [OF env_lawsD(3) [OF laws]] refl w] .
  show ?thesis
  proof (cases "is_fatal s")
    case True
    with next_state files show ?thesis by (auto simp: abandoned_def failFatal_def)
  next
    case False
    with next_state have "CleanupPreparingObject E ?i s (c\<lparr>d_os := os'\<rparr>) = (Inl e :: status + unit, c')" by simp
    from CleanupPreparingObject_effect(1,2) [OF laws this] files show ?thesis
      by (auto simp: abandoned_def agrees_except_def)
  qed
qed

lemma commit_object_effect:
  assumes laws: "env_laws E" and run: "commit_object E q ob c = (out, c')"
  shows "d_os c' = d_os c"
    and "log_at E c' = log_at E c \<or> commit_effect q ob (log_at E c) (log_at E c')"
    and "out = Failed False s \<Longrightarrow> log_at E c' = log_at E c"
proof -
  have "(out = Failed False s \<longrightarrow> log_at E c' = log_at E c) \<and> d_os c' = d_os c \<and>
    (log_at E c' = log_at E c \<or> commit_effect q ob (log_at E c) (log_at E c'))"
  proof (cases "\<exists>s. out = Failed True s")
    case True
    then obtain e where "out = Failed True e" ..
    with run obtain s b where snap: "CreateSnapshot E (d_db c) = Inr s"
      and auth: "Authenticate E s (wq_principal q) (wq_token q) = Inr ()"
      and prep: "GetPreparingObject E s (so_object_id ob) = Inr (Some ob)"
      and batch: "PutCommittedObject (proto_lib E) [] ob = Inr b"
      and commit: "CommitBatch E b c = (Inl e, c')"
      by (auto simp: commit_object_def Let_def SameObject_eq split: sum.splits if_splits option.splits prod.splits)
    note after = CommitBatch_error(1) [OF laws commit, unfolded failed_commit_def]
    have "commit_effect q ob (log_at E c) (log_of (proto_lib E) (apply_batch b (contents E c)))"
      using Authenticate_log [OF laws auth] object_log(2) [OF laws prep] CreateSnapshot_view [OF laws snap]
        object_writes(2) [OF laws batch, of "contents E c"]
      by (auto simp: commit_effect_def)
    with after True show ?thesis by auto
  next
    case False
    show ?thesis
    proof (cases "out = Committed")
      case True
      with commit_object_committed [OF laws] run show ?thesis by auto
    next
      case False
      with \<open>\<nexists>s. out = Failed True s\<close> run show ?thesis
        by (auto simp: commit_object_def Let_def split: sum.splits if_splits option.splits prod.splits)
    qed
  qed
  then show "d_os c' = d_os c" and "log_at E c' = log_at E c \<or> commit_effect q ob (log_at E c) (log_at E c')"
    and "out = Failed False s \<Longrightarrow> log_at E c' = log_at E c" by blast+
qed

lemma WriteObject_finish_effect:
  assumes laws: "env_laws E" and run: "WriteObject_finish E q ob c = (r, c')"
  shows "commit_effect q ob (log_at E c) (log_at E c') \<and> d_os c' = d_os c \<or> abandoned E (so_object_id ob) c c'"
proof -
  obtain out c1 where out: "commit_object E q ob c = (out, c1)" by fastforce
  note eff = commit_object_effect [OF laws out]
  have same: "abandoned E i c c1" if "log_at E c1 = log_at E c" for i
    using that eff(1) by (simp add: abandoned_def agrees_except_def)
  show ?thesis
  proof (cases "\<exists>s. out = Failed False s \<and> \<not> is_fatal s")
    case True
    then obtain s where s: "out = Failed False s" "\<not> is_fatal s" by blast
    with run out have "CleanupPreparingObject E (so_object_id ob) s c1 = (r, c')"
      by (simp add: WriteObject_finish_def)
    from CleanupPreparingObject_effect(1,2) [OF laws this] eff(1) eff(3) [OF s(1)]
    show ?thesis by (auto simp: abandoned_def)
  next
    case False
    then have "d_os c' = d_os c1 \<and> log_at E c' = log_at E c1"
      using run out by (auto simp: WriteObject_finish_def failFatal_def split: write_outcome.splits if_splits)
    with eff(1,2) show ?thesis by (auto simp: abandoned_def agrees_except_def)
  qed
qed

lemma AddToken_effect:
  assumes laws: "env_laws E" and run: "AddToken E prin c = Some (r, c')"
  shows "log_at E c' = log_at E c \<or> (\<exists>t. log_at E c' = set_token prin t True (log_at E c))"
    and "os_dir (posix_api E) (d_os c') = os_dir (posix_api E) (d_os c)"
proof -
  have "(log_at E c' = log_at E c \<or> (\<exists>t. log_at E c' = set_token prin t True (log_at E c))) \<and>
    os_dir (posix_api E) (d_os c') = os_dir (posix_api E) (d_os c)"
  proof (cases r)
    case (Inr t)
    with AddToken_result(3,4) [OF laws] run show ?thesis by blast
  next
    case (Inl e)
    with run consider "c' = c" | "on_os_pop (GenerateToken (posix_api E)) c = Some (Inl e, c')"
      | t c1 where "\<not> fatal_error_triggered c" "on_os_pop (GenerateToken (posix_api E)) c = Some (Inr t, c1)"
        "bindM (liftM (PutToken [] prin t)) (\<lambda>batch. bindM (CommitBatch E batch) (\<lambda>_. retM t)) c1 = (Inl e, c')"
      by (cases "fatal_error_triggered c") (auto simp: AddToken_def bind_inv)
    then show ?thesis
    proof cases
      case 2
      from on_os_pop_GenerateToken(1,2) [OF laws 2] show ?thesis by (metis disk.select_convs(1) disk.surjective disk.update_convs(2))
    next
      case 3
      note os = on_os_pop_GenerateToken(1,2) [OF laws 3(2)]
      from os(1) obtain x where c1: "c1 = c\<lparr>d_os := x\<rparr>" by metis
      have "gave_up E (\<lambda>a l l'. a = t \<and> l' = set_token prin t True l) c1 c'"
        using runsD(2) [OF AddToken_commit_outcome [OF laws] 3(3)] 3(1) c1 by simp
      with c1 os(2) show ?thesis using same_stateD [of c1 c' E] by (auto simp: gave_up_def)
    qed simp
  qed
  then show "log_at E c' = log_at E c \<or> (\<exists>t. log_at E c' = set_token prin t True (log_at E c))"
    and "os_dir (posix_api E) (d_os c') = os_dir (posix_api E) (d_os c)" by blast+
qed

section \<open>The transition system\<close>

text \<open>An object write in flight: its request has been checked, its token drawn, its metadata committed as
  preparing, its file written.\<close>

datatype inflight =
  Checked write_object_request
| Named write_object_request string
| Prepared write_object_request stored_object
| Written write_object_request stored_object

type_synonym ('db, 'snap, 'os) system = "('db, 'snap, 'os) core \<times> inflight list"

definition storage_of :: "('db, 'snap, 'os) core \<Rightarrow> ('db, 'os) disk" where
  "storage_of c = \<lparr>d_db = d_db c, d_os = d_os c\<rparr>"

text \<open>The operations on the core that are one step.\<close>

inductive operation_step :: "('db, 'snap, 'os) env \<Rightarrow> ('db, 'snap, 'os) core \<Rightarrow> ('db, 'snap, 'os) core \<Rightarrow> bool" for E where
  op_publish: "Publish E q now rpc1 rpc2 c = (r, c') \<Longrightarrow> operation_step E c c'"
| op_publish_auto: "PublishAutoSeq E p now rpc1 rpc2 c = (r, c') \<Longrightarrow> operation_step E c c'"
| op_allocate: "AllocateUuids E count c = (r, c') \<Longrightarrow> operation_step E c c'"
| op_create: "CreateChannel E q now c = (r, c') \<Longrightarrow> operation_step E c c'"
| op_add: "AddMember E prin token i target now c = (r, c') \<Longrightarrow> operation_step E c c'"
| op_remove: "RemoveMember E prin token i target now c = (r, c') \<Longrightarrow> operation_step E c c'"
| op_add_token: "AddToken E prin c = Some (r, c') \<Longrightarrow> operation_step E c c'"
| op_delete_token: "core_DeleteToken E prin token c = (r, c') \<Longrightarrow> operation_step E c c'"
| op_read_object: "ReadObject E i token offset n c = Some (r, c') \<Longrightarrow> operation_step E c c'"

text \<open>An operation looks at the fatal state before it takes the coordinator mutex. One that has passed the check
  does its work even if another thread latches the fatal state meanwhile: it runs as on an available core, the latch
  stays, and an error it reports finds the handler called already (\<^verbatim>\<open>FatalStorageError\<close> exchanges the flag).\<close>

definition late :: "('db, 'snap, 'os) core \<Rightarrow> ('db, 'snap, 'os) core \<Rightarrow> ('db, 'snap, 'os) core" where
  "late c c' = c'\<lparr>fatal_error_triggered := True, fatal_handler_calls := fatal_handler_calls c\<rparr>"

lemma late_state [simp]: "d_db (late c c') = d_db c'" "d_os (late c c') = d_os c'"
  by (simp_all add: late_def)

fun inflight_ids :: "inflight \<Rightarrow> u64 list" where
  "inflight_ids (Prepared q ob) = [so_object_id ob]"
| "inflight_ids (Written q ob) = [so_object_id ob]"
| "inflight_ids _ = []"

text \<open>A process that has stopped answers no call: it is in the fatal state until the next start. When it is killed
  the files of unfinished objects are left in any condition, by writes in flight as well as by a recovery under way.\<close>

definition stopped :: "('db, 'snap, 'os) core \<Rightarrow> ('db, 'snap, 'os) core" where
  "stopped c = c\<lparr>fatal_error_triggered := True\<rparr>"

definition unfinished_files :: "event_log \<Rightarrow> inflight list \<Rightarrow> string set" where
  "unfinished_files l w = preparing_files l \<union> file_names (concat (map inflight_ids w))"

inductive server_step :: "('db, 'snap, 'os) env \<Rightarrow> ('db, 'snap, 'os) system \<Rightarrow> ('db, 'snap, 'os) system \<Rightarrow> bool"
  for E where
  step_operation: "operation_step E c c' \<Longrightarrow> server_step E (c, w) (c', w)"
| step_late: "fatal_error_triggered c \<Longrightarrow> operation_step E (c\<lparr>fatal_error_triggered := False\<rparr>) c' \<Longrightarrow>
    server_step E (c, w) (late c c', w)"
| step_report: "HandleRpcStatus E (r :: unit result) c = (r', c') \<Longrightarrow> server_step E (c, w) (c', w)"
| step_refresh: "refresh_store g s c = (pc, c') \<Longrightarrow> server_step E (c, w) (c', w)"
| step_check: "WriteObject_check q c = (Inr u, c') \<Longrightarrow> server_step E (c, w) (c', Checked q # w)"
| step_name: "Checked q \<in> set w \<Longrightarrow> on_os_pop (GenerateObjectToken (posix_api E)) c = Some (r, c') \<Longrightarrow>
    server_step E (c, w) (c', (case r of Inr t \<Rightarrow> [Named q t] | Inl _ \<Rightarrow> []) @ remove1 (Checked q) w)"
| step_prepare: "Named q t \<in> set w \<Longrightarrow> WriteObject_prepare E q t c = (r, c') \<Longrightarrow>
    server_step E (c, w) (c', (case r of Inr ob \<Rightarrow> [Prepared q ob] | Inl _ \<Rightarrow> []) @ remove1 (Named q t) w)"
| step_file: "Prepared q ob \<in> set w \<Longrightarrow> WriteObject_file E q ob c = Some (r, c') \<Longrightarrow>
    server_step E (c, w) (c', (case r of Inr _ \<Rightarrow> [Written q ob] | Inl _ \<Rightarrow> []) @ remove1 (Prepared q ob) w)"
| step_finish: "Written q ob \<in> set w \<Longrightarrow> WriteObject_finish E q ob c = (r, c') \<Longrightarrow>
    server_step E (c, w) (c', remove1 (Written q ob) w)"
| step_restart: "RecoverPreparingObjects E (storage_of c) = (Inr u, d) \<Longrightarrow>
    server_step E (c, w) (OpenEventCore E d, [])"
| step_restart_failed: "RecoverPreparingObjects E (storage_of c) = (Inl e, d) \<Longrightarrow>
    server_step E (c, w) (stopped (OpenEventCore E d), [])"
| step_crash: "agrees_except (posix_api E) (os_dir (posix_api E) (d_os c)) (unfinished_files (log_at E c) w) os \<Longrightarrow>
    server_step E (c, w) (stopped (c\<lparr>d_os := os\<rparr>), [])"

section \<open>The abstract log\<close>

text \<open>What may happen to the log, independently of how it is stored.\<close>

inductive log_next :: "('db, 'snap, 'os) env \<Rightarrow> event_log \<Rightarrow> event_log \<Rightarrow> bool" for E where
  log_stay: "log_next E l l"
| log_publish: "publish_effect E q now l l' \<Longrightarrow> log_next E l l'"
| log_allocate: "allocate_effect count uuids l l' \<Longrightarrow> log_next E l l'"
| log_create: "create_effect q now ch l l' \<Longrightarrow> log_next E l l'"
| log_add: "add_effect prin token i target now l l' \<Longrightarrow> log_next E l l'"
| log_remove: "remove_effect prin token i target now l l' \<Longrightarrow> log_next E l l'"
| log_token: "log_next E l (set_token prin token b l)"
| log_prepare: "prepare_effect q token ob l l' \<Longrightarrow> log_next E l l'"
| log_commit: "commit_effect q ob l l' \<Longrightarrow> log_next E l l'"
| log_forget: "log_next E l (l\<lparr>lg_preparing := lg_preparing l |` S\<rparr>)"

text \<open>Nothing new is stored, and unfinished objects are at most forgotten.\<close>

definition objects_fixed :: "event_log \<Rightarrow> event_log \<Rightarrow> bool" where
  "objects_fixed l l' \<longleftrightarrow> lg_objects l' = lg_objects l \<and> lg_next_object_id l' = lg_next_object_id l \<and>
     lg_preparing l' \<subseteq>\<^sub>m lg_preparing l"

lemma objects_fixed_refl [simp]: "objects_fixed l l"
  by (simp add: objects_fixed_def)

lemma log_change_fixed:
  "publish_effect E q now l l' \<Longrightarrow> objects_fixed l l'" "allocate_effect count uuids l l' \<Longrightarrow> objects_fixed l l'"
  "create_effect cq now ch l l' \<Longrightarrow> objects_fixed l l'" "add_effect prin token i target now l l' \<Longrightarrow> objects_fixed l l'"
  "remove_effect prin token i target now l l' \<Longrightarrow> objects_fixed l l'" "objects_fixed l (set_token prin token b l)"
  by (auto simp: objects_fixed_def publish_effect_def allocate_effect_def create_effect_def add_effect_def
      remove_effect_def set_token_def append_message_def record_channel_def split: if_splits)

definition quiet_next :: "('db, 'snap, 'os) env \<Rightarrow> event_log \<Rightarrow> event_log \<Rightarrow> bool" where
  "quiet_next E l l' \<longleftrightarrow> log_next E l l' \<and> objects_fixed l l'"

lemma quiet_effects:
  "quiet_next E l l" "publish_effect E q now l l' \<Longrightarrow> quiet_next E l l'" "allocate_effect count uuids l l' \<Longrightarrow> quiet_next E l l'"
  "create_effect cq now ch l l' \<Longrightarrow> quiet_next E l l'" "add_effect prin token i target now l l' \<Longrightarrow> quiet_next E l l'"
  "remove_effect prin token i target now l l' \<Longrightarrow> quiet_next E l l'" "quiet_next E l (set_token prin token b l)"
  unfolding quiet_next_def by (auto intro: log_next.intros log_change_fixed)

lemma log_forget_one: "log_next E l (l\<lparr>lg_preparing := (lg_preparing l)(i := None)\<rparr>)"
  using log_forget [of E l "- {i}"] by (simp add: restrict_complement_singleton_eq)

lemma abandoned_log: "abandoned E i c c' \<Longrightarrow> log_next E (log_at E c) (log_at E c')"
  by (metis abandoned_def log_stay log_forget_one)

lemma prepare_batch:
  assumes laws: "env_laws E" and snap: "CreateSnapshot E (d_db c) = Inr s"
    and auth: "Authenticate E s (wq_principal q) (wq_token q) = Inr u"
    and next_id: "GetNextObjectId E s = Inr i"
    and put: "PutPreparingObject (proto_lib E) [] (object_of q t i) = Inr b"
    and set_next: "SetNextObjectId b (so_object_id (object_of q t i) + 1) = Inr b'"
  shows "prepare_effect q t (object_of q t i) (log_at E c) (log_of (proto_lib E) (apply_batch b' (contents E c)))"
proof -
  have "i = lg_next_object_id (log_at E c)"
    using counter_log(4) [OF laws next_id] CreateSnapshot_view [OF laws snap] by simp
  then show ?thesis
    using Authenticate_log [OF laws auth] CreateSnapshot_view [OF laws snap]
      object_writes(1) [OF laws put, of "contents E c"] counter_writes(4) [OF set_next]
    by (auto simp: prepare_effect_def object_of_def)
qed

lemma WriteObject_prepare_effect:
  assumes laws: "env_laws E" and run: "WriteObject_prepare E q t c = (r, c')"
  shows "d_os c' = d_os c"
    and "log_at E c' = log_at E c \<or> (\<exists>ob. prepare_effect q t ob (log_at E c) (log_at E c'))"
    and "r = Inr ob \<Longrightarrow> prepare_effect q t ob (log_at E c) (log_at E c')"
proof -
  let ?R = "\<lambda>_ s. d_os s = d_os c \<and> (log_at E s = log_at E c \<or> (\<exists>ob. prepare_effect q t ob (log_at E c) (log_at E s)))"
  have "runs (WriteObject_prepare E q t) c
      (\<lambda>ob s. d_os s = d_os c \<and> prepare_effect q t ob (log_at E c) (log_at E s)) ?R"
    unfolding WriteObject_prepare_def Let_def
  proof (intro wp runs_CommitBatch [OF laws] laws, goal_cases)
    case (1 s _ next_id b b' c1)
    then show ?case using prepare_batch [OF laws 1(1-5)] by (simp add: after_commit_def)
  next
    case (2 s _ next_id b b' e c1)
    then show ?case using prepare_batch [OF laws 2(1-5)] by (auto simp: failed_commit_def)
  qed auto
  with run show "d_os c' = d_os c"
    "log_at E c' = log_at E c \<or> (\<exists>ob. prepare_effect q t ob (log_at E c) (log_at E c'))"
    "r = Inr ob \<Longrightarrow> prepare_effect q t ob (log_at E c) (log_at E c')"
    by (cases r; auto simp: runs_def)+
qed

lemma handler_quiet:
  assumes "env_laws E" and "log_handler run effect" and "run E q c = (r, c')"
    and "\<And>a l l'. effect E q a l l' \<Longrightarrow> quiet_next E l l'"
  shows "quiet_next E (log_at E c) (log_at E c') \<and> os_dir (posix_api E) (d_os c') = os_dir (posix_api E) (d_os c)"
  using log_handler.log_change [OF assms(2,1,3)] assms(4) by (metis quiet_effects(1))

lemma operation_step_quiet:
  assumes laws: "env_laws E" and "operation_step E c c'"
  shows "quiet_next E (log_at E c) (log_at E c') \<and> os_dir (posix_api E) (d_os c') = os_dir (posix_api E) (d_os c)"
  using assms(2)
proof cases
  case (op_publish q now rpc1 rpc2 r)
  then show ?thesis
    by (intro handler_quiet [OF laws publish.log_handler_axioms, of "(q, now, rpc1, rpc2)"]) (auto intro: quiet_effects)
next
  case (op_publish_auto p now rpc1 rpc2 r)
  then show ?thesis
    by (intro handler_quiet [OF laws publish_auto.log_handler_axioms, of "(p, now, rpc1, rpc2)"]) (auto intro: quiet_effects)
next
  case (op_allocate count r)
  then show ?thesis by (intro handler_quiet [OF laws allocate.log_handler_axioms, of count]) (auto intro: quiet_effects)
next
  case (op_create q now r)
  then show ?thesis
    by (intro handler_quiet [OF laws create_channel.log_handler_axioms, of "(q, now)"]) (auto intro: quiet_effects)
next
  case (op_add prin token i target now r)
  then show ?thesis
    by (intro handler_quiet [OF laws add_member.log_handler_axioms, of "(prin, token, i, target, now)"])
      (auto intro: quiet_effects)
next
  case (op_remove prin token i target now r)
  then show ?thesis
    by (intro handler_quiet [OF laws remove_member.log_handler_axioms, of "(prin, token, i, target, now)"])
      (auto intro: quiet_effects)
next
  case (op_delete_token prin token r)
  then show ?thesis
    by (intro handler_quiet [OF laws delete_token.log_handler_axioms, of "(prin, token)"]) (auto intro: quiet_effects)
next
  case (op_add_token prin r)
  from AddToken_effect [OF laws op_add_token] show ?thesis by (metis quiet_effects(1,7))
next
  case (op_read_object i token offset n r)
  from ReadObject_quiet [OF laws op_read_object] show ?thesis by (simp add: quiet_effects)
qed

text \<open>A report of an error and the refresh thread touch neither the database nor the files.\<close>

lemma HandleRpcStatus_state: "HandleRpcStatus E r c = (r', c') \<Longrightarrow> d_db c' = d_db c \<and> d_os c' = d_os c"
  by (auto simp: HandleRpcStatus_def)

lemma refresh_store_state: "refresh_store g s c = (pc, c') \<Longrightarrow> d_db c' = d_db c \<and> d_os c' = d_os c"
  by (auto simp: refresh_store_def Let_def split: if_splits sum.splits)

lemma OpenEventCore_state [simp]:
  "d_db (OpenEventCore E d) = d_db d" "d_os (OpenEventCore E d) = d_os d"
  by (simp_all add: OpenEventCore_def Let_def split: sum.split)

lemma stopped_state [simp]:
  "d_db (stopped c) = d_db c" "d_os (stopped c) = d_os c"
  by (simp_all add: stopped_def)

lemma server_step_log:
  assumes laws: "env_laws E" and "server_step E x y"
  shows "log_next E (log_at E (fst x)) (log_at E (fst y))"
  using assms(2)
proof (cases rule: server_step.cases)
  case (step_operation c c' w)
  with operation_step_quiet [OF laws step_operation(3)] show ?thesis by (simp add: quiet_next_def)
next
  case (step_late c c' w)
  with operation_step_quiet [OF laws step_late(4)] show ?thesis by (simp add: quiet_next_def)
next
  case (step_report r c r' c' w)
  with HandleRpcStatus_state [OF step_report(3)] show ?thesis by (simp add: log_stay)
next
  case (step_refresh g s c pc c' w)
  with refresh_store_state [OF step_refresh(3)] show ?thesis by (simp add: log_stay)
next
  case (step_check q c u c' w)
  then show ?thesis using WriteObject_check_Inr by (fastforce intro: log_stay)
next
  case (step_name q w c r c')
  then show ?thesis using on_os_pop_GenerateObjectToken(1) [OF laws]
    by (auto simp: on_os_pop_def split: option.splits intro: log_stay)
next
  case (step_prepare q t w c r c')
  with WriteObject_prepare_effect(2) [OF laws] show ?thesis by (metis fst_conv log_stay log_prepare)
next
  case (step_file q ob w c r c')
  then show ?thesis
  proof (cases r)
    case (Inl e)
    with step_file have "abandoned E (so_object_id ob) c c'" by (intro WriteObject_file_abandoned [OF laws]) simp
    with step_file show ?thesis by (simp add: abandoned_log)
  next
    case (Inr u)
    with step_file WriteObject_file_result(1) [OF laws] show ?thesis by (auto intro: log_stay)
  qed
next
  case (step_finish q ob w c r c')
  with WriteObject_finish_effect [OF laws step_finish(4)] show ?thesis by (auto intro: abandoned_log log_commit)
next
  case (step_restart c u d w)
  have "log_at E d = (log_at E c)\<lparr>lg_preparing := lg_preparing (log_at E c) |` {}\<rparr>"
    using Recover_result(1) [OF laws step_restart(3)] by (simp add: storage_of_def)
  then show ?thesis using step_restart(1,2) log_forget [of E "log_at E c" "{}"] by simp
next
  case (step_restart_failed c e d w)
  have "log_at E d \<in> {log_at E c, (log_at E c)\<lparr>lg_preparing := lg_preparing (log_at E c) |` {}\<rparr>}"
    using Recover_failed(1) [OF laws step_restart_failed(3)] by (simp add: storage_of_def)
  then show ?thesis using step_restart_failed(1,2) log_forget [of E "log_at E c" "{}"] by (auto intro: log_stay)
next
  case (step_crash c w os)
  then show ?thesis by (simp add: log_stay)
qed

end
