(* ===== verification/Server_Invariant.thy ===== *)
theory Server_Invariant
  imports Server_Steps
begin

text \<open>
  Invariants of the running server: the log stays well formed and append-only, the files of committed
  objects are complete and never change. They hold in every state reachable from an initialized storage
  by operations, interleaved phases of object writes and restarts, as long as the counters of identifiers
  have room.
\<close>

section \<open>The log\<close>

text \<open>The counters are not about to wrap around: there is room for a batch of uuids, a channel and an
  object.\<close>

definition roomy :: "event_log \<Rightarrow> bool" where
  "roomy l \<longleftrightarrow> unat (lg_next_uuid l) + unat kMaxUuidBatch < 2 ^ 64 \<and> lg_next_channel_id l + 1 \<noteq> 0 \<and>
     lg_next_object_id l + 1 \<noteq> 0"

lemma log_ok_other:
  assumes "log_ok l" and "lg_messages l' = lg_messages l" "lg_used l' = lg_used l" "lg_channels l' = lg_channels l"
    "lg_max_seq l' = lg_max_seq l" "lg_next_uuid l' = lg_next_uuid l" "lg_next_channel_id l' = lg_next_channel_id l"
  shows "log_ok l'"
  using assms by (simp add: log_ok_def messages_ok_def uuids_ok_def channels_ok_def)

lemma log_next_ok:
  assumes "log_next E l l'" and "log_ok l" and "roomy l"
  shows "log_ok l'"
  using assms(1)
proof cases
  case (log_allocate count uuids)
  then have "unat count \<le> unat kMaxUuidBatch" by (simp add: allocate_effect_def word_le_nat_alt)
  with log_allocate assms(2,3) show ?thesis by (intro log_ok_allocate [OF assms(2)]) (auto simp: roomy_def)
next
  case (log_create q now ch)
  with assms(2,3) log_ok_create show ?thesis by (auto simp: roomy_def)
next
  case (log_prepare q token ob)
  then show ?thesis by (intro log_ok_other [OF assms(2)]) (auto simp: prepare_effect_def)
next
  case (log_commit q ob)
  then show ?thesis by (intro log_ok_other [OF assms(2)]) (auto simp: commit_effect_def)
next
  case (log_token prin token b)
  then show ?thesis by (intro log_ok_other [OF assms(2)]) (simp_all add: set_token_def)
next
  case (log_forget S)
  then show ?thesis by (intro log_ok_other [OF assms(2)]) simp_all
next
  case (log_publish q now)
  with assms(2) show ?thesis by (simp add: log_ok_publish)
next
  case (log_add prin token i target now)
  with assms(2) show ?thesis by (simp add: log_ok_add)
next
  case (log_remove prin token i target now)
  with assms(2) show ?thesis by (simp add: log_ok_remove)
qed (use assms(2) in simp)

text \<open>A log extends another when it keeps its messages, used uuids and committed objects.\<close>

definition extends :: "event_log \<Rightarrow> event_log \<Rightarrow> bool" where
  "extends l l' \<longleftrightarrow> lg_messages l \<subseteq>\<^sub>m lg_messages l' \<and> lg_used l \<subseteq>\<^sub>m lg_used l' \<and> lg_max_seq l \<le> lg_max_seq l'"

lemma extends_refl [simp]: "extends l l" and extends_trans: "extends l l' \<Longrightarrow> extends l' l'' \<Longrightarrow> extends l l''"
  by (auto simp: extends_def intro: map_le_trans)

lemma extends_append:
  assumes "log_ok l" and "lg_max_seq l + 1 \<noteq> 0" and "msg_seq msg = lg_max_seq l + 1" and "lg_used l (msg_uuid msg) = None"
    and "lg_messages l1 = lg_messages l" "lg_used l1 = lg_used l" "lg_max_seq l1 = lg_max_seq l"
  shows "extends l (append_message msg l1)"
proof -
  have less: "lg_max_seq l < lg_max_seq l + 1" using word_less_Suc [OF assms(2)] by simp
  have "dom (lg_messages l) = {s. s \<le> lg_max_seq l}" using assms(1) by (simp add: log_ok_def messages_ok_def)
  with less have "lg_messages l (lg_max_seq l + 1) = None" by (metis domIff leD mem_Collect_eq)
  with assms less show ?thesis by (auto simp: extends_def append_message_def map_le_def dom_def)
qed

lemma extends_record_channel:
  assumes "log_ok l" and "counters_free l"
    and "lg_messages l1 = lg_messages l" "lg_used l1 = lg_used l" "lg_max_seq l1 = lg_max_seq l"
    "lg_next_uuid l1 = lg_next_uuid l"
  shows "extends l (record_channel ch payload now l1)"
proof -
  have fresh: "lg_used l (lg_next_uuid l) = None" using assms(1) by (auto simp: log_ok_def uuids_ok_def)
  have "record_channel ch payload now l1 = append_message (channel_message (lg_max_seq l) (lg_next_uuid l) ch payload now)
      (l1\<lparr>lg_channels := (lg_channels l1)(ch_channel_id ch \<mapsto> ch), lg_next_uuid := lg_next_uuid l + 1\<rparr>)"
    using assms(3-) by (simp add: record_channel_def append_message_def)
  also have "extends l \<dots>"
    using assms fresh by (intro extends_append) (auto simp: channel_message_def counters_free_def)
  finally show ?thesis .
qed

lemma log_next_extends:
  assumes "log_next E l l'" and "log_ok l"
  shows "extends l l'"
  using assms(1)
proof cases
  case (log_publish q now)
  then have l': "l' = append_message (request_message q now) l" and ok: "publish_allowed E q l"
    by (simp_all add: publish_effect_def)
  from ok have "lg_max_seq l + 1 \<noteq> 0" "msg_seq (request_message q now) = lg_max_seq l + 1"
    "lg_used l (msg_uuid (request_message q now)) = None"
    by (auto simp: publish_allowed_def request_message_def publish_message_def split: option.splits)
  with assms(2) show ?thesis unfolding l' by (intro extends_append) simp_all
next
  case (log_create q now ch)
  let ?l1 = "l\<lparr>lg_next_channel_id := lg_next_channel_id l + 1\<rparr>"
  from log_create have "l' = record_channel ch (ChannelInitializedPayload ch) now ?l1" "counters_free l"
    by (simp_all add: create_effect_def record_channel_def append_message_def)
  with assms(2) show ?thesis by (simp add: extends_record_channel)
next
  case (log_add prin token i target now)
  with assms(2) show ?thesis by (auto simp: add_effect_def intro!: extends_record_channel)
next
  case (log_remove prin token i target now)
  with assms(2) show ?thesis by (auto simp: remove_effect_def intro!: extends_record_channel split: if_splits)
qed (auto simp: extends_def allocate_effect_def prepare_effect_def commit_effect_def set_token_def)

section \<open>Objects and their files\<close>

definition pending :: "write_object_request \<Rightarrow> stored_object \<Rightarrow> event_log \<Rightarrow> bool" where
  "pending q ob l \<longleftrightarrow> unat (so_nbytes ob) = length (wq_data q) \<and> so_object_id ob < lg_next_object_id l \<and>
     so_object_id ob \<notin> dom (lg_objects l)"

fun inflight_ok :: "event_log \<Rightarrow> (string \<rightharpoonup> dir_entry) \<Rightarrow> inflight \<Rightarrow> bool" where
  "inflight_ok l D (Checked q) \<longleftrightarrow> \<not> invalid_object_request q"
| "inflight_ok l D (Named q t) \<longleftrightarrow> \<not> invalid_object_request q \<and> IsBase64UrlToken t"
| "inflight_ok l D (Prepared q ob) \<longleftrightarrow> pending q ob l"
| "inflight_ok l D (Written q ob) \<longleftrightarrow> pending q ob l \<and> D (FinalName (so_object_id ob)) = Some (RegularFile (wq_data q))"

text \<open>Every object record passes the checks of the storage; a committed object has its whole file; an object in
  preparation is not committed; the writes in flight have different identifiers.\<close>

definition stored_ok :: "event_log \<Rightarrow> (string \<rightharpoonup> dir_entry) \<Rightarrow> bool" where
  "stored_ok l D \<longleftrightarrow>
     lg_next_object_id l \<noteq> 0 \<and>
     (\<forall>i ob. lg_objects l i = Some ob \<longrightarrow> valid_object i ob \<and> i < lg_next_object_id l \<and>
        (\<exists>d. D (FinalName i) = Some (RegularFile d) \<and> length d = unat (so_nbytes ob))) \<and>
     (\<forall>i ob. lg_preparing l i = Some ob \<longrightarrow> valid_object i ob \<and> i < lg_next_object_id l \<and> i \<notin> dom (lg_objects l))"

definition objects_ok :: "event_log \<Rightarrow> (string \<rightharpoonup> dir_entry) \<Rightarrow> inflight list \<Rightarrow> bool" where
  "objects_ok l D w \<longleftrightarrow> stored_ok l D \<and> (\<forall>x \<in> set w. inflight_ok l D x) \<and> distinct (concat (map inflight_ids w))"

text \<open>Two views of the objects in which an invariant carries over: nothing new is stored, and every file
  except those of one unfinished object is as before.\<close>

definition files_kept :: "(string \<rightharpoonup> dir_entry) \<Rightarrow> u64 set \<Rightarrow> (string \<rightharpoonup> dir_entry) \<Rightarrow> bool" where
  "files_kept D I D' \<longleftrightarrow> (\<forall>i. i \<notin> I \<longrightarrow> D' (FinalName i) = D (FinalName i))"

lemma stored_ok_fixed:
  assumes "stored_ok l D" and "objects_fixed l l'" and "files_kept D I D'" and "I \<inter> dom (lg_objects l) = {}"
  shows "stored_ok l' D'"
proof -
  have "D' (FinalName i) = D (FinalName i)" if "lg_objects l i = Some ob" for i ob
    using assms(3,4) that by (auto simp: files_kept_def)
  moreover have "lg_preparing l i = Some ob" if "lg_preparing l' i = Some ob" for i ob
    using assms(2) that by (auto simp: objects_fixed_def map_le_def dom_def)
  ultimately show ?thesis using assms(1,2) unfolding stored_ok_def objects_fixed_def by simp
qed

lemma inflight_ok_fixed:
  assumes "inflight_ok l D x" and "objects_fixed l l'" and "files_kept D I D'" and "I \<inter> set (inflight_ids x) = {}"
  shows "inflight_ok l' D' x"
  using assms by (cases x) (auto simp: objects_fixed_def files_kept_def pending_def)

lemma inflight_ids_remove:
  assumes "x \<in> set w" and "distinct (concat (map inflight_ids w))"
  shows "distinct (concat (map inflight_ids (remove1 x w)))"
    and "y \<in> set (remove1 x w) \<Longrightarrow> set (inflight_ids x) \<inter> set (inflight_ids y) = {}"
    and "set (concat (map inflight_ids (remove1 x w))) \<inter> set (inflight_ids x) = {}"
proof -
  obtain a b where w: "w = a @ x # b" and x: "x \<notin> set a" using assms(1) by (metis split_list_first)
  have rest: "remove1 x w = a @ b" unfolding w using x by (simp add: remove1_append)
  show "distinct (concat (map inflight_ids (remove1 x w)))"
    "y \<in> set (remove1 x w) \<Longrightarrow> set (inflight_ids x) \<inter> set (inflight_ids y) = {}"
    "set (concat (map inflight_ids (remove1 x w))) \<inter> set (inflight_ids x) = {}"
    unfolding rest using assms(2) unfolding w by auto
qed

lemma objects_ok_quiet:
  assumes "objects_ok l D w" and "objects_fixed l l'"
  shows "objects_ok l' D w"
proof -
  have "files_kept D {} D" by (simp add: files_kept_def)
  with assms stored_ok_fixed [of l D l' "{}" D] inflight_ok_fixed [of l D _ l' "{}" D] show ?thesis
    by (simp add: objects_ok_def)
qed

text \<open>A write in flight ends without committing its object.\<close>

lemma objects_ok_drop:
  assumes ok: "objects_ok l D w" and x: "x \<in> set w" and "objects_fixed l l'" and "files_kept D (set (inflight_ids x)) D'"
  shows "objects_ok l' D' (remove1 x w)"
proof -
  have dist: "distinct (concat (map inflight_ids w))" and x_ok: "inflight_ok l D x"
    using ok x by (auto simp: objects_ok_def)
  have "set (inflight_ids x) \<inter> dom (lg_objects l) = {}"
    using x_ok by (cases x) (auto simp: pending_def)
  with stored_ok_fixed [OF _ assms(3,4)] ok have "stored_ok l' D'" by (simp add: objects_ok_def)
  moreover have "inflight_ok l' D' y" if y: "y \<in> set (remove1 x w)" for y
  proof (rule inflight_ok_fixed [OF _ assms(3,4)])
    show "inflight_ok l D y" using ok y notin_set_remove1 [of y w x] by (auto simp: objects_ok_def)
    show "set (inflight_ids x) \<inter> set (inflight_ids y) = {}" by (rule inflight_ids_remove(2) [OF x dist y])
  qed
  ultimately show ?thesis using inflight_ids_remove(1) [OF x dist] by (simp add: objects_ok_def)
qed

text \<open>A write in flight moves on to its next phase.\<close>

lemma objects_ok_add:
  assumes "objects_ok l D w" and "inflight_ok l D y" and "set (inflight_ids y) \<inter> set (concat (map inflight_ids w)) = {}"
  shows "objects_ok l D (y # w)"
proof -
  have "distinct (inflight_ids y)" by (cases y) simp_all
  with assms show ?thesis by (auto simp: objects_ok_def)
qed

section \<open>The abstract object store\<close>

type_synonym object_state = "event_log \<times> (string \<rightharpoonup> dir_entry) \<times> inflight list"

inductive object_step :: "object_state \<Rightarrow> object_state \<Rightarrow> bool" where
  obj_quiet: "objects_fixed l l' \<Longrightarrow> object_step (l, D, w) (l', D, w)"
| obj_enter: "\<not> invalid_object_request q \<Longrightarrow> object_step (l, D, w) (l, D, Checked q # w)"
| obj_name: "Checked q \<in> set w \<Longrightarrow> IsBase64UrlToken t \<Longrightarrow> object_step (l, D, w) (l, D, Named q t # remove1 (Checked q) w)"
| obj_drop: "x \<in> set w \<Longrightarrow> objects_fixed l l' \<Longrightarrow> files_kept D (set (inflight_ids x)) D' \<Longrightarrow>
    object_step (l, D, w) (l', D', remove1 x w)"
| obj_prepare: "Named q t \<in> set w \<Longrightarrow> prepare_effect q t ob l l' \<Longrightarrow>
    object_step (l, D, w) (l', D, Prepared q ob # remove1 (Named q t) w)"
| obj_lost: "Named q t \<in> set w \<Longrightarrow> prepare_effect q t ob l l' \<Longrightarrow> object_step (l, D, w) (l', D, remove1 (Named q t) w)"
| obj_file: "Prepared q ob \<in> set w \<Longrightarrow> D (FinalName (so_object_id ob)) = None \<Longrightarrow>
    object_step (l, D, w)
      (l, D(FinalName (so_object_id ob) \<mapsto> RegularFile (wq_data q)), Written q ob # remove1 (Prepared q ob) w)"
| obj_commit: "Written q ob \<in> set w \<Longrightarrow> commit_effect q ob l l' \<Longrightarrow>
    object_step (l, D, w) (l', D, remove1 (Written q ob) w)"
| obj_stop: "objects_fixed l l' \<Longrightarrow>
    files_kept D (dom (lg_preparing l) \<union> set (concat (map inflight_ids w))) D' \<Longrightarrow> object_step (l, D, w) (l', D', [])"
| obj_recover: "object_step (l, D, w) (l\<lparr>lg_preparing := Map.empty\<rparr>,
    \<lambda>n. if \<exists>i \<in> dom (lg_preparing l). n \<in> {TemporaryName i, FinalName i} then None else D n, [])"

lemma pending_prepared:
  assumes "prepare_effect q t ob l l'" and "\<not> invalid_object_request q" and "roomy l" and "stored_ok l D"
  shows "pending q ob l'" and "so_object_id ob = lg_next_object_id l"
    and "lg_next_object_id l < lg_next_object_id l'" and "lg_objects l' = lg_objects l"
proof -
  have ob: "ob = object_of q t (lg_next_object_id l)" and l': "l' = l\<lparr>lg_preparing := (lg_preparing l)(so_object_id ob \<mapsto> ob),
      lg_next_object_id := lg_next_object_id l + 1\<rparr>"
    using assms(1) unfolding prepare_effect_def by blast+
  show less: "lg_next_object_id l < lg_next_object_id l'"
    unfolding l' using assms(3) word_less_Suc [of "lg_next_object_id l"] by (simp add: roomy_def)
  have "length (wq_data q) < 2 ^ 64" using assms(2) by (simp add: invalid_object_request_def kMaxObjectBytes_def)
  moreover have "lg_objects l (lg_next_object_id l) = None"
    using assms(4) unfolding stored_ok_def by (metis less_irrefl not_None_eq)
  ultimately show "pending q ob l'" "so_object_id ob = lg_next_object_id l" "lg_objects l' = lg_objects l"
    using less unfolding ob l' by (auto simp: pending_def object_of_def unat_of_nat)
qed

text \<open>The record of a new object passes the checks it will meet when it is read.\<close>

lemma prepared_valid:
  assumes "prepare_effect q t ob l l'" and "\<not> invalid_object_request q" and "IsBase64UrlToken t" and "stored_ok l D"
  shows "valid_object (so_object_id ob) ob"
proof -
  have len: "0 < length (wq_data q)" "length (wq_data q) \<le> kMaxObjectBytes"
    using assms(2) by (auto simp: invalid_object_request_def)
  then have "unat (of_nat (length (wq_data q)) :: u64) = length (wq_data q)"
    by (simp add: unat_of_nat kMaxObjectBytes_def)
  moreover from this len(1) have "(of_nat (length (wq_data q)) :: u64) \<noteq> 0" by (metis unat_0 less_irrefl)
  ultimately show ?thesis
    using assms len by (auto simp: prepare_effect_def object_of_def valid_object_def invalid_object_request_def
        authentic_def stored_ok_def)
qed

lemma objects_ok_prepare:
  assumes ok: "objects_ok l D w" and w: "Named q t \<in> set w" and eff: "prepare_effect q t ob l l'" and "roomy l"
  shows "objects_ok l' D (Prepared q ob # remove1 (Named q t) w)" and "objects_ok l' D (remove1 (Named q t) w)"
proof -
  have st: "stored_ok l D" and req: "\<not> invalid_object_request q" "IsBase64UrlToken t" using ok w by (auto simp: objects_ok_def)
  note p = pending_prepared [OF eff req(1) assms(4) st] and valid = prepared_valid [OF eff req st]
  have l': "lg_preparing l' = (lg_preparing l)(so_object_id ob \<mapsto> ob)" using eff by (simp add: prepare_effect_def)
  have later: "i < lg_next_object_id l \<Longrightarrow> i < lg_next_object_id l'" for i using p(3) by simp
  have "lg_next_object_id l' \<noteq> 0" using p(3) by auto
  then have stored: "stored_ok l' D"
    using st p l' later valid unfolding stored_ok_def by (auto simp: pending_def split: if_splits)
  have inflight: "inflight_ok l' D y" if "inflight_ok l D y" for y
    using that p(4) later by (cases y) (auto simp: pending_def)
  have older: "i < lg_next_object_id l" if "i \<in> set (inflight_ids y)" "inflight_ok l D y" for i y
    using that by (cases y) (auto simp: pending_def)
  have rest: "set (remove1 (Named q t) w) \<subseteq> set w" by (rule set_remove1_subset)
  then have new: "so_object_id ob \<notin> set (concat (map inflight_ids (remove1 (Named q t) w)))"
    using ok older p(2) unfolding objects_ok_def by fastforce
  show dropped: "objects_ok l' D (remove1 (Named q t) w)"
    using ok stored inflight rest inflight_ids_remove(1) [OF w] unfolding objects_ok_def by blast
  show "objects_ok l' D (Prepared q ob # remove1 (Named q t) w)"
    by (rule objects_ok_add [OF dropped]) (use p(1) new in auto)
qed

lemma objects_ok_commit:
  assumes ok: "objects_ok l D w" and w: "Written q ob \<in> set w" and eff: "commit_effect q ob l l'"
  shows "objects_ok l' D (remove1 (Written q ob) w)"
proof -
  let ?i = "so_object_id ob"
  have dist: "distinct (concat (map inflight_ids w))" and x_ok: "inflight_ok l D (Written q ob)" and st: "stored_ok l D"
    using ok w by (auto simp: objects_ok_def)
  have l': "l' = l\<lparr>lg_preparing := (lg_preparing l)(?i := None), lg_objects := (lg_objects l)(?i \<mapsto> ob)\<rparr>"
    using eff by (simp add: commit_effect_def)
  have "stored_ok l' D" using st x_ok eff unfolding stored_ok_def l' by (auto simp: pending_def commit_effect_def)
  moreover have "inflight_ok l' D y" if y: "y \<in> set (remove1 (Written q ob) w)" for y
  proof -
    have "inflight_ok l D y" using ok y notin_set_remove1 [of y w "Written q ob"] by (auto simp: objects_ok_def)
    with inflight_ids_remove(2) [OF w dist y] show ?thesis unfolding l' by (cases y) (auto simp: pending_def)
  qed
  ultimately show ?thesis using inflight_ids_remove(1) [OF w dist] by (simp add: objects_ok_def)
qed

text \<open>What is unfinished is not committed, so that stopping, which leaves no write in flight, loses nothing.\<close>

lemma unfinished_uncommitted:
  assumes "objects_ok l D w"
  shows "(dom (lg_preparing l) \<union> set (concat (map inflight_ids w))) \<inter> dom (lg_objects l) = {}"
proof -
  have "set (inflight_ids x) \<inter> dom (lg_objects l) = {}" if "x \<in> set w" for x
  proof -
    have "inflight_ok l D x" using assms that by (simp add: objects_ok_def)
    then show ?thesis by (cases x) (auto simp: pending_def)
  qed
  moreover have "i \<notin> dom (lg_objects l)" if "i \<in> dom (lg_preparing l)" for i
    using assms that unfolding objects_ok_def stored_ok_def by blast
  ultimately show ?thesis by fastforce
qed

lemma objects_ok_stop:
  assumes "objects_ok l D w" and "objects_fixed l l'"
    and "files_kept D (dom (lg_preparing l) \<union> set (concat (map inflight_ids w))) D'"
  shows "objects_ok l' D' []"
  using stored_ok_fixed [OF _ assms(2,3) unfinished_uncommitted [OF assms(1)]] assms(1) by (simp add: objects_ok_def)

text \<open>Committed objects and their files are never changed.\<close>

definition objects_kept_with_files ::
  "event_log \<Rightarrow> (string \<rightharpoonup> dir_entry) \<Rightarrow> event_log \<Rightarrow> (string \<rightharpoonup> dir_entry) \<Rightarrow> bool" where
  "objects_kept_with_files l D l' D' \<longleftrightarrow>
     lg_objects l \<subseteq>\<^sub>m lg_objects l' \<and> (\<forall>i \<in> dom (lg_objects l). D' (FinalName i) = D (FinalName i))"

lemma object_step_ok:
  assumes "object_step (l, D, w) (l', D', w')" and ok: "objects_ok l D w" and "roomy l"
  shows "objects_ok l' D' w'"
  using assms(1)
proof cases
  case obj_quiet
  with objects_ok_quiet [OF ok] show ?thesis by simp
next
  case (obj_enter q)
  with objects_ok_add [OF ok, of "Checked q"] show ?thesis by simp
next
  case (obj_name q t)
  have "\<not> invalid_object_request q" using ok obj_name by (auto simp: objects_ok_def)
  with objects_ok_add [of l D "remove1 (Checked q) w" "Named q t"] objects_ok_drop [OF ok obj_name(4), of l D] obj_name
  show ?thesis by (simp add: files_kept_def)
next
  case (obj_drop x)
  with objects_ok_drop [OF ok] show ?thesis by simp
next
  case (obj_prepare q t ob)
  with objects_ok_prepare(1) [OF ok _ _ assms(3)] show ?thesis by simp
next
  case (obj_lost q t ob)
  with objects_ok_prepare(2) [OF ok _ _ assms(3)] show ?thesis by simp
next
  case (obj_file q ob)
  let ?i = "so_object_id ob"
  note w = obj_file(4)
  have dist: "distinct (concat (map inflight_ids w))" and pend: "pending q ob l" using ok w by (auto simp: objects_ok_def)
  have "files_kept D (set (inflight_ids (Prepared q ob))) D'" using obj_file by (simp add: files_kept_def)
  from objects_ok_drop [OF ok w objects_fixed_refl this] have "objects_ok l D' (remove1 (Prepared q ob) w)" .
  then have "objects_ok l D' (Written q ob # remove1 (Prepared q ob) w)"
    using pend inflight_ids_remove(3) [OF w dist] obj_file(2) by (intro objects_ok_add) auto
  with obj_file show ?thesis by simp
next
  case (obj_commit q ob)
  with objects_ok_commit [OF ok] show ?thesis by simp
next
  case obj_stop
  with objects_ok_stop [OF ok] show ?thesis by simp
next
  case obj_recover
  have "files_kept D (dom (lg_preparing l) \<union> set (concat (map inflight_ids w))) D'" using obj_recover by (auto simp: files_kept_def)
  with objects_ok_stop [OF ok, of l' D'] obj_recover show ?thesis by (simp add: objects_fixed_def)
qed

lemma object_step_kept:
  assumes "object_step (l, D, w) (l', D', w')" and ok: "objects_ok l D w"
  shows "objects_kept_with_files l D l' D'"
proof -
  note free = unfinished_uncommitted [OF ok]
  have busy: "set (inflight_ids x) \<inter> dom (lg_objects l) = {}" if "x \<in> set w" for x
    using free that by auto
  have kept: "objects_kept_with_files l D l' D'"
    if "objects_fixed l l'" "files_kept D I D'" "I \<inter> dom (lg_objects l) = {}" for I
    using that by (auto simp: objects_kept_with_files_def objects_fixed_def files_kept_def)
  from assms(1) show ?thesis
  proof cases
    case (obj_drop x)
    with kept busy [of x] show ?thesis by blast
  next
    case (obj_file q ob)
    with busy [of "Prepared q ob"] show ?thesis by (auto simp: objects_kept_with_files_def)
  next
    case (obj_commit q ob)
    with busy [of "Written q ob"] show ?thesis
      by (auto simp: objects_kept_with_files_def commit_effect_def map_le_def)
  next
    case obj_stop
    with kept [OF _ _ free] show ?thesis by blast
  next
    case obj_recover
    with free show ?thesis by (auto simp: objects_kept_with_files_def)
  qed (auto simp: objects_kept_with_files_def objects_fixed_def prepare_effect_def)
qed

lemma objects_kept_with_files_trans:
  "objects_kept_with_files l D l' D' \<Longrightarrow> objects_kept_with_files l' D' l'' D'' \<Longrightarrow> objects_kept_with_files l D l'' D''"
  unfolding objects_kept_with_files_def by (metis map_le_implies_dom_le map_le_trans subsetD)

section \<open>The server implements it\<close>

definition abs_objects :: "('db, 'snap, 'os) env \<Rightarrow> ('db, 'snap, 'os) system \<Rightarrow> object_state" where
  "abs_objects E x = (log_at E (fst x), os_dir (posix_api E) (d_os (fst x)), snd x)"

lemma abandoned_drop:
  assumes "abandoned E i c c'" and "x \<in> set w" and "inflight_ids x = [i]"
  shows "object_step (abs_objects E (c, w)) (abs_objects E (c', remove1 x w))"
proof -
  have "objects_fixed (log_at E c) (log_at E c')"
    using assms(1) by (auto simp: abandoned_def objects_fixed_def map_le_def split: if_splits)
  moreover have "files_kept (os_dir (posix_api E) (d_os c)) (set (inflight_ids x)) (os_dir (posix_api E) (d_os c'))"
    using assms(1,3) by (auto simp: abandoned_def agrees_except_def files_kept_def)
  ultimately show ?thesis using assms(2) by (simp add: abs_objects_def obj_drop)
qed

lemma quiet_object_step:
  assumes "objects_fixed (log_at E c) (log_at E c')" and "os_dir (posix_api E) (d_os c') = os_dir (posix_api E) (d_os c)"
  shows "object_step (abs_objects E (c, w)) (abs_objects E (c', w))"
  using assms by (simp add: abs_objects_def obj_quiet)

lemma drop_object_step:
  assumes "x \<in> set w" and "log_at E c' = log_at E c" and "os_dir (posix_api E) (d_os c') = os_dir (posix_api E) (d_os c)"
  shows "object_step (abs_objects E (c, w)) (abs_objects E (c', remove1 x w))"
  using obj_drop [OF assms(1), of "log_at E c" "log_at E c"] assms(2,3) by (simp add: abs_objects_def files_kept_def)

lemma stop_object_step:
  assumes "objects_fixed (log_at E c) (log_at E d)"
    and "agrees_except (posix_api E) (os_dir (posix_api E) (d_os c)) (unfinished_files (log_at E c) w) (d_os d)"
  shows "object_step (abs_objects E (c, w)) (log_at E d, os_dir (posix_api E) (d_os d), [])"
proof -
  have "FinalName i \<notin> unfinished_files (log_at E c) w"
    if "i \<notin> dom (lg_preparing (log_at E c)) \<union> set (concat (map inflight_ids w))" for i
    using that by (auto simp: unfinished_files_def preparing_files_def file_names_def)
  with assms(2) have "files_kept (os_dir (posix_api E) (d_os c))
      (dom (lg_preparing (log_at E c)) \<union> set (concat (map inflight_ids w))) (os_dir (posix_api E) (d_os d))"
    by (simp add: files_kept_def agrees_except_def)
  with assms(1) show ?thesis by (simp add: abs_objects_def obj_stop)
qed

lemma server_step_objects:
  assumes laws: "env_laws E" and "server_step E x y"
  shows "object_step (abs_objects E x) (abs_objects E y)"
  using assms(2)
proof (cases rule: server_step.cases)
  case (step_operation c c' w)
  with operation_step_quiet [OF laws step_operation(3)] show ?thesis
    by (simp add: quiet_next_def quiet_object_step)
next
  case (step_late c c' w)
  with operation_step_quiet [OF laws step_late(4)] show ?thesis
    by (simp add: quiet_next_def quiet_object_step)
next
  case (step_report r c r' c' w)
  with HandleRpcStatus_state [OF step_report(3)] show ?thesis by (simp add: quiet_object_step)
next
  case (step_refresh g s c pc c' w)
  with refresh_store_state [OF step_refresh(3)] show ?thesis by (simp add: quiet_object_step)
next
  case (step_check q c u c' w)
  with WriteObject_check_Inr [OF step_check(3)] show ?thesis by (simp add: abs_objects_def obj_enter)
next
  case (step_name q w c r c')
  note gen = on_os_pop_GenerateObjectToken [OF laws step_name(4)]
  have "log_at E c' = log_at E c" by (subst gen(1)) simp
  with gen(2) step_name drop_object_step [OF step_name(3), of E c' c] show ?thesis
    by (cases r) (simp_all add: abs_objects_def obj_name gen(3))
next
  case (step_prepare q t w c r c')
  note eff = WriteObject_prepare_effect [OF laws step_prepare(4)]
  show ?thesis
  proof (cases r)
    case (Inr ob)
    with eff(1,3) step_prepare show ?thesis by (simp add: abs_objects_def obj_prepare)
  next
    case (Inl e)
    with eff(1,2) step_prepare drop_object_step [OF step_prepare(3), of E c' c] show ?thesis
      by (auto simp: abs_objects_def obj_lost)
  qed
next
  case (step_file q ob w c r c')
  show ?thesis
  proof (cases r)
    case (Inr u)
    with WriteObject_file_result [OF laws] step_file show ?thesis by (simp add: abs_objects_def obj_file)
  next
    case (Inl e)
    with step_file have "abandoned E (so_object_id ob) c c'" by (intro WriteObject_file_abandoned [OF laws]) simp
    with abandoned_drop [of E "so_object_id ob" c c' "Prepared q ob" w] step_file Inl show ?thesis by simp
  qed
next
  case (step_finish q ob w c r c')
  with WriteObject_finish_effect [OF laws step_finish(4)] abandoned_drop [of E "so_object_id ob" c c' "Written q ob" w]
  show ?thesis by (auto simp: abs_objects_def obj_commit)
next
  case (step_restart c u d w)
  note rec = Recover_result [OF laws step_restart(3)]
  have "os_dir (posix_api E) (d_os d) = (\<lambda>n. if \<exists>i \<in> dom (lg_preparing (log_at E c)). n \<in> {TemporaryName i, FinalName i}
      then None else os_dir (posix_api E) (d_os c) n)"
    using rec(3) by (simp add: storage_of_def fun_eq_iff)
  moreover have "log_at E d = (log_at E c)\<lparr>lg_preparing := Map.empty\<rparr>" using rec(1) by (simp add: storage_of_def)
  ultimately show ?thesis
    using step_restart(1,2) obj_recover [of "log_at E c" "os_dir (posix_api E) (d_os c)" w] by (simp add: abs_objects_def)
next
  case (step_restart_failed c e d w)
  note rec = Recover_failed [OF laws step_restart_failed(3)]
  have "objects_fixed (log_at E c) (log_at E d)" using rec(1) by (auto simp: storage_of_def objects_fixed_def)
  with stop_object_step [of E c d w] rec(2) step_restart_failed show ?thesis
    by (auto simp: storage_of_def agrees_except_def unfinished_files_def abs_objects_def)
next
  case (step_crash c w os)
  with stop_object_step [of E c "c\<lparr>d_os := os\<rparr>" w] show ?thesis by (simp add: abs_objects_def)
qed

section \<open>Reachable states\<close>

text \<open>A server starts on a storage that holds what \<^verbatim>\<open>InitializeNew\<close> wrote.\<close>

inductive reachable :: "('db, 'snap, 'os) env \<Rightarrow> ('db, 'snap, 'os) system \<Rightarrow> bool" for E where
  reach_start: "message_SerializeToString (proto_lib E) (InitializationMessage ms) = Some b \<Longrightarrow>
    contents E d = initial_contents b \<Longrightarrow> reachable E (OpenEventCore E d, [])"
| reach_step: "reachable E x \<Longrightarrow> roomy (log_at E (fst x)) \<Longrightarrow> server_step E x y \<Longrightarrow> reachable E y"

lemma reach_initialized:
  assumes "env_laws E" and "contents E d0 = Map.empty"
    and "message_SerializeToString (proto_lib E) (InitializationMessage ms) = Some b"
    and "InitializeNew_write E ms d0 = (Inr u, d)"
  shows "reachable E (OpenEventCore E d, [])"
  by (rule reach_start [OF assms(3)]) (rule InitializeNew_contents [OF assms])

text \<open>A run of the server, from any state.\<close>

inductive server_run :: "('db, 'snap, 'os) env \<Rightarrow> ('db, 'snap, 'os) system \<Rightarrow> ('db, 'snap, 'os) system \<Rightarrow> bool"
  for E where
  run_stay: "server_run E x x"
| run_step: "server_run E x y \<Longrightarrow> roomy (log_at E (fst y)) \<Longrightarrow> server_step E y z \<Longrightarrow> server_run E x z"

definition server_ok :: "('db, 'snap, 'os) env \<Rightarrow> ('db, 'snap, 'os) system \<Rightarrow> bool" where
  "server_ok E x \<longleftrightarrow> log_ok (log_at E (fst x)) \<and>
     objects_ok (log_at E (fst x)) (os_dir (posix_api E) (d_os (fst x))) (snd x)"

lemma server_ok_step:
  assumes "env_laws E" and "server_ok E x" and "roomy (log_at E (fst x))" and "server_step E x y"
  shows "server_ok E y"
  using assms log_next_ok [OF server_step_log [OF assms(1,4)]]
    object_step_ok [OF server_step_objects [OF assms(1,4), unfolded abs_objects_def]]
  by (simp add: server_ok_def)

lemma initial_objects:
  "lg_objects (log_of P (initial_contents b)) = Map.empty" "lg_preparing (log_of P (initial_contents b)) = Map.empty"
  "lg_next_object_id (log_of P (initial_contents b)) = 1"
  by (auto simp: log_of_def object_at_def counter_at_def initial_contents_def be64.dec_enc fun_eq_iff)

lemma reachable_ok:
  assumes laws: "env_laws E" and "reachable E x"
  shows "server_ok E x"
  using assms(2)
proof induction
  case (reach_start ms b d)
  have "message_ParseFromString (proto_lib E) b = Some (InitializationMessage ms)"
    by (rule proto_lawsD(1) [OF env_lawsD(2) [OF laws] reach_start(1)])
  from initial_log_ok [OF this] reach_start(2) show ?case
    by (simp add: server_ok_def objects_ok_def stored_ok_def initial_objects)
qed (rule server_ok_step [OF laws])

lemma server_run_reachable: "server_run E x y \<Longrightarrow> reachable E x \<Longrightarrow> reachable E y"
  by (induction rule: server_run.induct) (auto intro: reach_step)

text \<open>What a run keeps.\<close>

definition persists :: "('db, 'snap, 'os) env \<Rightarrow> ('db, 'snap, 'os) system \<Rightarrow> ('db, 'snap, 'os) system \<Rightarrow> bool" where
  "persists E x y \<longleftrightarrow> extends (log_at E (fst x)) (log_at E (fst y)) \<and>
     objects_kept_with_files (log_at E (fst x)) (os_dir (posix_api E) (d_os (fst x)))
       (log_at E (fst y)) (os_dir (posix_api E) (d_os (fst y)))"

lemma server_run_persists:
  assumes laws: "env_laws E" and "server_run E x y" and "reachable E x"
  shows "persists E x y"
  using assms(2,3)
proof induction
  case run_stay
  show ?case by (simp add: persists_def objects_kept_with_files_def)
next
  case (run_step x y z)
  then have "server_ok E y" by (meson laws reachable_ok server_run_reachable)
  then have "persists E y z"
    using log_next_extends [OF server_step_log [OF laws run_step(3)]]
      object_step_kept [OF server_step_objects [OF laws run_step(3), unfolded abs_objects_def]]
    by (simp add: persists_def server_ok_def)
  with run_step.IH [OF run_step.prems] show ?case unfolding persists_def by (meson extends_trans objects_kept_with_files_trans)
qed

end
