(* ===== verification/Reference_Runs.thy ===== *)
theory Reference_Runs
  imports Core_Objects Core_Tokens
begin

text \<open>
  Runs of the object operations in the reference environment, for the witnesses. It models no part of
  the sources.
\<close>

definition ref_object_token :: string where
  "ref_object_token = base64url (replicate 32 (CHR ''r''))"

definition ref_write_request :: "string \<Rightarrow> write_object_request" where
  "ref_write_request token = \<lparr>wq_principal = 7, wq_token = token, wq_name = ''n'', wq_type = ''t'',
     wq_description = [], wq_data = ''abc''\<rparr>"

definition ref_stored :: "string \<Rightarrow> stored_object" where
  "ref_stored token = object_of (ref_write_request token) ref_object_token 1"

lemma ref_write_request_valid [simp]: "\<not> invalid_object_request (ref_write_request token)"
  by (simp add: invalid_object_request_def ref_write_request_def kMaxObjectNameBytes_def kMaxObjectTypeBytes_def
      kMaxObjectDescriptionBytes_def kMaxObjectBytes_def)

lemma ref_check: "\<not> fatal_error_triggered c \<Longrightarrow> WriteObject_check (ref_write_request token) c = (Inr (), c)"
  by (simp add: WriteObject_check_def) (simp add: ref_write_request_def)

lemma ref_object_token_gen: "on_os_pop (GenerateObjectToken ref_posix) c = Some (Inr ref_object_token, c)"
  using ref_fill_random [of "[]" 32 "d_os c"]
  by (simp add: on_os_pop_def GenerateObjectToken_def ref_object_token_def kObjectTokenRandomBytes_def)

lemma ref_write_loop:
  assumes "ro_fds os fd = Some n" and "ro_dir os n = Some (RegularFile [])"
  shows "write_loop ref_posix fd ''abc'' 0 os = Some (Inr (), os\<lparr>ro_dir := (ro_dir os)(n \<mapsto> RegularFile ''abc'')\<rparr>)"
  using assms
  by (subst write_loop.simps, simp add: ref_posix_def ref_file_def Let_def kSsizeMax_def min_def)
    (subst write_loop.simps, simp)

lemma ref_Write:
  assumes "ro_dir os (TemporaryName i) = None" and "ro_dir os (FinalName i) = None"
  shows "\<exists>os'. Write ref_posix None i ''abc'' os = Some (Inr (), os')"
proof -
  let ?fd = "ro_next os"
    and ?os1 = "os\<lparr>ro_fds := (ro_fds os)(ro_next os \<mapsto> TemporaryName i), ro_next := Suc (ro_next os),
      ro_dir := (ro_dir os)(TemporaryName i \<mapsto> RegularFile [])\<rparr>"
  have create: "create_temporary ref_posix (TemporaryName i) os = (Inr ?fd, ?os1)"
    using assms(1) by (simp add: create_temporary_def ref_posix_def ref_open_def)
  have loop: "write_loop ref_posix ?fd ''abc'' 0 ?os1 =
      Some (Inr (), ?os1\<lparr>ro_dir := (ro_dir ?os1)(TemporaryName i \<mapsto> RegularFile ''abc'')\<rparr>)"
    by (rule ref_write_loop) simp_all
  show ?thesis unfolding Write_def
    using create loop assms
    by (simp add: bindO_def totalO_def inject_closing_def InjectStorageFault_def fsync_closing_def CloseFile_def
        rename_final_def fsync_directory_def ref_posix_def)
qed

lemma ref_file_phase:
  assumes "ro_dir (d_os c) (TemporaryName 1) = None" and "ro_dir (d_os c) (FinalName 1) = None"
  shows "\<exists>os. WriteObject_file ref_env (ref_write_request token) (ref_stored token) c = Some (Inr (), c\<lparr>d_os := os\<rparr>) \<and>
    ro_dir os = (ro_dir (d_os c))(FinalName 1 \<mapsto> RegularFile ''abc'')"
proof -
  obtain os where "Write ref_posix None 1 ''abc'' (d_os c) = Some (Inr (), os)" using ref_Write [OF assms] by blast
  then have run: "WriteObject_file ref_env (ref_write_request token) (ref_stored token) c = Some (Inr (), c\<lparr>d_os := os\<rparr>)"
    by (simp add: WriteObject_file_def WriteObjectFile_def on_os_pop_def ref_stored_def object_of_def ref_write_request_def)
  have "os_dir ref_posix = ro_dir" by (simp add: ref_posix_def)
  with WriteObject_file_result(3) [OF ref_env_laws run] run show ?thesis
    by (intro exI [of _ os]) (simp add: ref_stored_def object_of_def ref_write_request_def)
qed

definition record_of_object :: "stored_object \<Rightarrow> object_record" where
  "record_of_object ob = \<lparr>rec_object_id = so_object_id ob, rec_object_token = so_object_token ob,
     rec_creator_principal = so_creator_principal ob, rec_name = so_name ob, rec_type = so_type ob,
     rec_description = so_description ob, rec_nbytes = so_nbytes ob\<rparr>"

definition ref_bytes :: "string \<Rightarrow> bytes" where
  "ref_bytes token = put_record (record_of_object (ref_stored token))"

lemma ref_stored_simps [simp]:
  "so_object_id (ref_stored token) = 1" "so_object_token (ref_stored token) = ref_object_token"
  "so_nbytes (ref_stored token) = 3"
  by (simp_all add: ref_stored_def object_of_def ref_write_request_def)

lemma ref_object_token_shape: "IsBase64UrlToken ref_object_token"
  using on_os_pop_GenerateObjectToken(3) [OF ref_env_laws] ref_object_token_gen by fastforce

lemma ref_SerializeObject: "SerializeObject ref_proto (ref_stored token) = Inr (ref_bytes token)"
  and ref_stored_parse: "ParseObject ref_proto (ref_bytes token) 1 = Inr (ref_stored token)"
proof -
  have fits: "record_fits (record_of_object (ref_stored token))"
    using ref_object_token_shape
    by (simp add: record_fits_def fits_def record_of_object_def ref_stored_def object_of_def ref_write_request_def
        IsBase64UrlToken_def kObjectTokenEncodedBytes_def)
  then show "SerializeObject ref_proto (ref_stored token) = Inr (ref_bytes token)"
    by (simp add: SerializeObject_def ref_bytes_def record_of_object_def)
  show "ParseObject ref_proto (ref_bytes token) 1 = Inr (ref_stored token)"
    using ref_object_token_shape whole_put(3) [OF fits]
    by (simp add: ParseObject_Inr ref_bytes_def)
      (simp add: record_of_object_def object_of_record_def ref_stored_def valid_object_def object_of_def ref_write_request_def
        kMaxObjectNameBytes_def kMaxObjectTypeBytes_def kMaxObjectDescriptionBytes_def kMaxObjectBytes_def)
qed

definition ref_prepared :: "string \<Rightarrow> ref_db \<Rightarrow> ref_db" where
  "ref_prepared token db = ((Meta, kNextObjectIdKey), EncodeUint64 2) #
     ((Objects, NumericKey kPreparingObjectPrefix 1), ref_bytes token) # db"

lemma ref_prepare_phase:
  assumes "Authenticate ref_env (d_db c) 7 token = Inr ()" and "GetNextObjectId ref_env (d_db c) = Inr 1"
  shows "WriteObject_prepare ref_env (ref_write_request token) ref_object_token c =
    (Inr (ref_stored token), c\<lparr>d_db := ref_prepared token (d_db c), commit_generation := commit_generation c + 1\<rparr>)"
proof -
  have "wq_principal (ref_write_request token) = 7" "wq_token (ref_write_request token) = token"
    by (simp_all add: ref_write_request_def)
  with assms show ?thesis
    by (simp add: WriteObject_prepare_def ref_stored_def [symmetric] PutPreparingObject_def ref_SerializeObject
        SetNextObjectId_def ref_prepared_def)
qed

definition ref_committed :: "string \<Rightarrow> ref_db \<Rightarrow> ref_db" where
  "ref_committed token db = ((Objects, NumericKey kCommittedObjectPrefix 1), ref_bytes token) #
     filter (\<lambda>e. fst e \<noteq> (Objects, NumericKey kPreparingObjectPrefix 1)) db"

lemma ref_finish_phase:
  assumes "Authenticate ref_env (d_db c) 7 token = Inr ()" and "d_db c = ref_prepared token db"
  shows "WriteObject_finish ref_env (ref_write_request token) (ref_stored token) c =
    (Inr \<lparr>wo_object_id = 1, wo_object_token = ref_object_token\<rparr>,
     c\<lparr>d_db := ref_committed token (d_db c), commit_generation := commit_generation c + 1\<rparr>)"
proof -
  have "wq_principal (ref_write_request token) = 7" "wq_token (ref_write_request token) = token"
    by (simp_all add: ref_write_request_def)
  moreover have "GetPreparingObject ref_env (d_db c) 1 = Inr (Some (ref_stored token))"
    by (simp add: assms(2) GetPreparingObject_def GetObject_def ref_lookup_def ref_prepared_def ref_stored_parse)
  ultimately show ?thesis using assms(1)
    by (simp add: WriteObject_finish_def commit_object_def Let_def SameObject_eq PutCommittedObject_def ref_SerializeObject
        ref_committed_def)
qed

lemma ref_auth_prepared [simp]:
  "Authenticate ref_env (ref_prepared token db) p t = Authenticate ref_env db p t"
  by (simp add: Authenticate_def HasToken_def ref_lookup_def ref_prepared_def)

text \<open>A whole write.\<close>

lemma ref_WriteObject:
  assumes "\<not> fatal_error_triggered c" and "Authenticate ref_env (d_db c) 7 token = Inr ()"
    and "GetNextObjectId ref_env (d_db c) = Inr 1"
    and "ro_dir (d_os c) (TemporaryName 1) = None" and "ro_dir (d_os c) (FinalName 1) = None"
  shows "\<exists>os. WriteObject ref_env (ref_write_request token) c = Some (Inr \<lparr>wo_object_id = 1, wo_object_token = ref_object_token\<rparr>,
      c\<lparr>d_db := ref_committed token (ref_prepared token (d_db c)), commit_generation := commit_generation c + 1 + 1,
        d_os := os\<rparr>) \<and> ro_dir os = (ro_dir (d_os c))(FinalName 1 \<mapsto> RegularFile ''abc'')"
proof -
  let ?c2 = "c\<lparr>d_db := ref_prepared token (d_db c), commit_generation := commit_generation c + 1\<rparr>"
  obtain os where written: "WriteObject_file ref_env (ref_write_request token) (ref_stored token) ?c2 = Some (Inr (), ?c2\<lparr>d_os := os\<rparr>)"
    and os: "ro_dir os = (ro_dir (d_os ?c2))(FinalName 1 \<mapsto> RegularFile ''abc'')"
    using ref_file_phase [of ?c2 token] assms(4,5) by auto
  have "WriteObject_finish ref_env (ref_write_request token) (ref_stored token) (?c2\<lparr>d_os := os\<rparr>) =
    (Inr \<lparr>wo_object_id = 1, wo_object_token = ref_object_token\<rparr>,
     ?c2\<lparr>d_db := ref_committed token (ref_prepared token (d_db c)), commit_generation := commit_generation c + 1 + 1,
       d_os := os\<rparr>)"
    using ref_finish_phase [of "?c2\<lparr>d_os := os\<rparr>" token "d_db c"] assms(2) by simp
  then show ?thesis
    unfolding WriteObject_def
    using ref_check [OF assms(1)] ref_prepare_phase [OF assms(2,3)] written os
    by (intro exI [of _ os]) (simp add: bindO_def totalO_def ref_object_token_gen)
qed

text \<open>Reading the object back.\<close>

lemma ref_ReadRange:
  assumes "ro_dir os (FinalName 1) = Some (RegularFile ''abc'')"
  shows "\<exists>os'. ReadRange ref_posix 1 3 1 2 os = Some (Inr ''bc'', os')"
proof -
  let ?os1 = "os\<lparr>ro_fds := (ro_fds os)(ro_next os \<mapsto> FinalName 1), ro_next := Suc (ro_next os)\<rparr>"
  have opened: "open_committed ref_posix (FinalName 1) os = Some (Inr (ro_next os), ?os1)"
    using assms by (simp add: open_committed_def open_read_loop.simps ref_posix_def ref_open_def Let_def)
  have stat: "stat_committed ref_posix (FinalName 1) (ro_next os) 3 ?os1 = (Inr (), ?os1)"
    using assms by (simp add: stat_committed_def ref_posix_def ref_file_def)
  have "pread_loop ref_posix n fd 2 1 ''bc'' s = Some (Inr ''bc'', s)" for n fd s
    by (subst pread_loop.simps) simp
  then have "pread_loop ref_posix (FinalName 1) (ro_next os) 2 1 [] ?os1 = Some (Inr ''bc'', ?os1)"
    using assms by (subst pread_loop.simps) (simp add: ref_posix_def ref_file_def Let_def numeral_2_eq_2)
  with opened stat show ?thesis
    by (simp add: ReadRange_def Let_def bindO_def totalO_def kMaxObjectBytes_def CloseFile_def ref_posix_def)
qed

lemma ref_ReadObject:
  assumes "\<not> fatal_error_triggered c" and "map_of (d_db c) (Objects, NumericKey kCommittedObjectPrefix 1) = Some (ref_bytes token)"
    and "ro_dir (d_os c) (FinalName 1) = Some (RegularFile ''abc'')"
  shows "\<exists>os. ReadObject ref_env 1 ref_object_token 1 2 c = Some (Inr ''bc'', c\<lparr>d_os := os\<rparr>)"
proof -
  obtain os where read: "ReadRange ref_posix 1 3 1 2 (d_os c) = Some (Inr ''bc'', os)"
    using ref_ReadRange [OF assms(3)] by blast
  have "GetCommittedObject ref_env (d_db c) 1 = Inr (Some (ref_stored token))"
    using assms(2) by (simp add: GetCommittedObject_def GetObject_def ref_lookup_def ref_stored_parse)
  moreover have "ref_object_token \<noteq> []" using ref_object_token_shape by (auto simp: IsBase64UrlToken_def kObjectTokenEncodedBytes_def)
  ultimately show ?thesis
    using assms(1) read ConstantTimeEquals_eq [OF ref_posix_laws, of ref_object_token ref_object_token]
    by (intro exI [of _ os]) (simp add: ReadObject_def bindO_def totalO_def CreateLinearizedSnapshot_def LoadAuthorizedObject_def liftClassified_def
        classifyO_def ReadObjectFile_def on_os_pop_def)
qed

end
