(* ===== verification/Object_Properties.thy ===== *)
theory Object_Properties
  imports Reference_Runs
begin

text \<open>
  The properties of the object operations run on their own: what a successful write leaves behind, what
  a failed one cannot leave behind, who may read, and that the operations return.
\<close>

section \<open>Metadata of several objects\<close>

definition describes :: "event_log \<Rightarrow> object_key \<Rightarrow> object_metadata \<Rightarrow> bool" where
  "describes l key m \<longleftrightarrow> (\<exists>ob. capability l (ok_object_id key) (ok_object_token key) ob \<and> m = metadata_of ob)"

lemma runs_metadata_loop:
  assumes laws: "env_laws E"
  shows "runs (BatchGetObjectMetadata_loop E s ks staged) c
    (\<lambda>ms c'. c' = c \<and> (\<exists>new. ms = staged @ new \<and> list_all2 (describes (log_in E s)) ks new)) (\<lambda>_. same_state c)"
proof (induction ks arbitrary: staged)
  case Nil
  then show ?case by (auto simp: runs_def retM_def)
next
  case (Cons k ks)
  show ?case unfolding BatchGetObjectMetadata_loop.simps
  proof (intro wp laws, goal_cases)
    case (1 ob)
    then have "describes (log_in E s) k (metadata_of ob)" by (auto simp: describes_def)
    then show ?case by (intro runs_mono [OF Cons]) auto
  qed
qed

section \<open>Properties\<close>

text \<open>
  C15: A successful write of an object needs valid credentials and a valid request; it takes the next
  object number, returns a token of 43 base64url characters, records the object as committed under that
  number with the size of the data, leaves nothing in preparation for it, and creates exactly one file,
  under a name that was free, that holds the data; nothing else of the log or the directory changes.
\<close>

theorem write_object_stores:
  assumes "env_laws E" and "WriteObject E q c = Some (Inr r, c')"
  shows "\<exists>ob. ob = object_of q (wo_object_token r) (lg_next_object_id (log_at E c)) \<and>
      wo_object_id r = so_object_id ob \<and> IsBase64UrlToken (wo_object_token r) \<and>
      \<not> invalid_object_request q \<and> authentic (log_at E c) (wq_principal q) (wq_token q) \<and>
      log_at E c' = store_object ob (log_at E c) \<and>
      os_dir (posix_api E) (d_os c) (FinalName (so_object_id ob)) = None \<and>
      os_dir (posix_api E) (d_os c') =
        (os_dir (posix_api E) (d_os c))(FinalName (so_object_id ob) \<mapsto> RegularFile (wq_data q))"
  by (rule WriteObject_result [OF assms])

lemma ref_first_write:
  "\<exists>c'. WriteObject ref_env (ref_write_request ''t'') (ref_core ref_state) =
     Some (Inr \<lparr>wo_object_id = 1, wo_object_token = ref_object_token\<rparr>, c') \<and> \<not> fatal_error_triggered c' \<and>
     d_db c' = ref_committed ''t'' (ref_prepared ''t'' ref_state) \<and> ro_dir (d_os c') (FinalName 1) = Some (RegularFile ''abc'')"
  using ref_WriteObject [of "ref_core ref_state" "''t''"] by (auto simp: ref_core_def)

theorem write_object_stores_witness:
  "\<exists>r c'. WriteObject ref_env (ref_write_request ''t'') (ref_core ref_state) = Some (Inr r, c') \<and> wo_object_id r = 1 \<and>
     ro_dir (d_os c') (FinalName 1) = Some (RegularFile ''abc'')"
proof -
  obtain c' where run: "WriteObject ref_env (ref_write_request ''t'') (ref_core ref_state) =
      Some (Inr \<lparr>wo_object_id = 1, wo_object_token = ref_object_token\<rparr>, c')" using ref_first_write by blast
  have "os_dir ref_posix = ro_dir" by (simp add: ref_posix_def)
  with write_object_stores [OF ref_env_laws run] run show ?thesis
    by (auto simp: ref_write_request_def)
qed

text \<open>
  C16: A write of an object that fails leaves the set of committed objects as it was, unless the commit of
  the metadata itself failed, and then the server has latched the fatal state.
\<close>

theorem failed_write_exposes_nothing:
  assumes "env_laws E" and "WriteObject E q c = Some (Inl e, c')"
  shows "lg_objects (log_at E c') = lg_objects (log_at E c) \<or> fatal_error_triggered c'"
  using WriteObject_failure [OF assms] by (simp add: objects_kept_def)

theorem failed_write_exposes_nothing_witness:
  "\<exists>e c'. WriteObject ref_env (ref_write_request ''wrong'') (ref_core ref_state) = Some (Inl e, c') \<and>
     lg_objects (log_at ref_env c') = lg_objects (log_at ref_env (ref_core ref_state))"
proof -
  let ?c = "ref_core ref_state" and ?q = "ref_write_request ''wrong''"
  have "Authenticate ref_env ref_state 7 ''wrong'' \<noteq> Inr ()"
    by (simp add: Authenticate_def HasToken_def ref_lookup_def ref_state_def)
  then obtain e where auth: "Authenticate ref_env ref_state 7 ''wrong'' = Inl e" by (cases "Authenticate ref_env ref_state 7 ''wrong''") auto
  moreover have "wq_principal ?q = 7" "wq_token ?q = ''wrong''" by (simp_all add: ref_write_request_def)
  ultimately have run: "WriteObject ref_env ?q ?c = Some (Inl e, ?c)"
    using ref_check [of ?c "''wrong''"]
    by (simp add: WriteObject_def bindO_def totalO_def ref_object_token_gen WriteObject_prepare_def)
  from failed_write_exposes_nothing [OF ref_env_laws run] run show ?thesis by simp
qed

text \<open>
  C17: Data and metadata of an object are given only to a caller that presents the token it was issued
  with: a read returns the requested range of the object's file, a metadata request one entry per key,
  in order, and neither changes the log or the files.
\<close>

theorem object_access_by_token:
  assumes "env_laws E"
  shows "(ReadObject E i token offset n c = Some (Inr bs, c') \<longrightarrow>
      (\<exists>ob d. capability (log_at E c) i token ob \<and> os_dir (posix_api E) (d_os c) (FinalName i) = Some (RegularFile d) \<and>
        length d = unat (so_nbytes ob) \<and> bs = take (unat n) (drop (unat offset) d) \<and>
        contents E c' = contents E c \<and> os_dir (posix_api E) (d_os c') = os_dir (posix_api E) (d_os c))) \<and>
    (BatchGetObjectMetadata E ks c = (Inr ms, c'') \<longrightarrow>
      c'' = c \<and> ks \<noteq> [] \<and> list_all2 (describes (log_at E c)) ks ms)"
proof (intro conjI impI)
  assume "ReadObject E i token offset n c = Some (Inr bs, c')"
  from ReadObject_result [OF assms this] show "\<exists>ob d. capability (log_at E c) i token ob \<and>
      os_dir (posix_api E) (d_os c) (FinalName i) = Some (RegularFile d) \<and> length d = unat (so_nbytes ob) \<and>
      bs = take (unat n) (drop (unat offset) d) \<and> contents E c' = contents E c \<and>
      os_dir (posix_api E) (d_os c') = os_dir (posix_api E) (d_os c)" by blast
next
  assume run: "BatchGetObjectMetadata E ks c = (Inr ms, c'')"
  have "runs (BatchGetObjectMetadata E ks) c
      (\<lambda>ms c''. c'' = c \<and> ks \<noteq> [] \<and> list_all2 (describes (log_at E c)) ks ms) (\<lambda>_ _. True)"
    unfolding BatchGetObjectMetadata_def
    by (intro wp runs_mono [OF runs_metadata_loop [OF assms]]) (auto simp: CreateSnapshot_view [OF assms])
  from runsD(1) [OF this run] show "c'' = c" "ks \<noteq> []" "list_all2 (describes (log_at E c)) ks ms" by simp_all
qed

theorem object_access_by_token_witness:
  "\<exists>c c'. ReadObject ref_env 1 ref_object_token 1 2 c = Some (Inr ''bc'', c') \<and> contents ref_env c' = contents ref_env c"
proof -
  obtain c :: "(ref_db, ref_db, ref_os) core" where "\<not> fatal_error_triggered c" "d_db c = ref_committed ''t'' (ref_prepared ''t'' ref_state)"
    "ro_dir (d_os c) (FinalName 1) = Some (RegularFile ''abc'')" using ref_first_write by blast
  then obtain c' where run: "ReadObject ref_env 1 ref_object_token 1 2 c = Some (Inr ''bc'', c')"
    using ref_ReadObject [of c "''t''"] by (auto simp: ref_committed_def)
  from object_access_by_token [OF ref_env_laws, of 1 ref_object_token 1 2 c "''bc''" c'] run show ?thesis by blast
qed

text \<open>
  C18: The operations that loop over system calls return: writing and reading an object and issuing a
  credential come to an end, whatever the calls report, as long as only finitely many interrupts are
  pending.
\<close>

theorem operations_return:
  assumes "env_laws E"
  shows "(\<exists>r c'. WriteObject E q c = Some (r, c')) \<and> (\<exists>r c'. ReadObject E i token offset n c = Some (r, c')) \<and>
    (\<exists>r c'. AddToken E prin c = Some (r, c'))"
  using WriteObject_returns [OF assms, of q c] ReadObject_returns [OF assms, of i token offset n c]
    AddToken_returns [OF assms, of prin c]
  by (metis not_None_eq surj_pair)

theorem operations_return_witness: "\<exists>r c'. WriteObject ref_env (ref_write_request ''t'') (ref_core []) = Some (r, c')"
  using operations_return [OF ref_env_laws] by blast

end
