(* ===== verification/Server_Properties.thy ===== *)
theory Server_Properties
  imports Server_Invariant Object_Properties
begin

text \<open>
  The properties of the running server, over every interleaving of operations, phases of object writes,
  crashes and restarts.
\<close>

section \<open>A reachable state of the reference environment\<close>

definition ref_initial_db :: ref_db where
  "ref_initial_db = fold ref_write (InitializationBatch ref_proto 5) []"

definition ref_token :: string where
  "ref_token = format_token (replicate 16 (CHR ''r''))"

definition ref_start_core :: "(ref_db, ref_db, ref_os) core" where
  "ref_start_core = OpenEventCore ref_env \<lparr>d_db = ref_initial_db, d_os = d_os (ref_core [])\<rparr>"

lemma ref_initial_serialized:
  "message_SerializeToString (proto_lib ref_env) (InitializationMessage 5) = Some (put_message (InitializationMessage 5))"
  by (simp add: message_fits_def fits_def InitializationMessage_def empty_message_def)

lemma ref_reach_start: "reachable ref_env (ref_start_core, [])"
proof -
  have "InitializeNew_write ref_env 5 \<lparr>d_db = [], d_os = d_os (ref_core [])\<rparr> =
      (Inr (), \<lparr>d_db = ref_initial_db, d_os = d_os (ref_core [])\<rparr>)"
    by (simp add: InitializeNew_write_def InjectStorageFault_def ref_initial_db_def)
  from reach_initialized [OF ref_env_laws _ ref_initial_serialized this] show ?thesis by (simp add: ref_start_core_def)
qed

lemma ref_initial_reads:
  "map_of ref_initial_db (Meta, kNextUuidKey) = Some (EncodeUint64 1)"
  "map_of ref_initial_db (Meta, kNextChannelIdKey) = Some (EncodeUint64 1)"
  "map_of ref_initial_db (Meta, kNextObjectIdKey) = Some (EncodeUint64 1)"
  unfolding ref_initial_db_def ref_write_contents InitializationBatch_def using ref_initial_serialized by simp_all

lemma ref_roomy:
  assumes "map_of db (Meta, kNextUuidKey) = Some (EncodeUint64 1)"
    and "map_of db (Meta, kNextChannelIdKey) = Some (EncodeUint64 1)"
    and "map_of db (Meta, kNextObjectIdKey) = Some (EncodeUint64 n)" and "n = 1 \<or> n = 2"
  shows "roomy (log_of P (map_of db))"
  using assms by (auto simp: roomy_def log_of_def counter_at_def be64.dec_enc kMaxUuidBatch_def)

definition ref_with_token :: ref_db where
  "ref_with_token = ((Meta, TokenKey 7 ref_token), []) # ref_initial_db"

lemma ref_with_token_reads:
  "Authenticate ref_env ref_with_token 7 ref_token = Inr ()" "GetNextObjectId ref_env ref_with_token = Inr 1"
  "map_of ref_with_token (Meta, kNextUuidKey) = Some (EncodeUint64 1)"
  "map_of ref_with_token (Meta, kNextChannelIdKey) = Some (EncodeUint64 1)"
  "map_of ref_with_token (Meta, kNextObjectIdKey) = Some (EncodeUint64 1)"
proof -
  have "ref_token \<noteq> []" using length_format_token [of "replicate 16 (CHR ''r'')"] by (auto simp: ref_token_def)
  then show "Authenticate ref_env ref_with_token 7 ref_token = Inr ()" "GetNextObjectId ref_env ref_with_token = Inr 1"
    "map_of ref_with_token (Meta, kNextUuidKey) = Some (EncodeUint64 1)"
    "map_of ref_with_token (Meta, kNextChannelIdKey) = Some (EncodeUint64 1)"
    "map_of ref_with_token (Meta, kNextObjectIdKey) = Some (EncodeUint64 1)"
    by (simp_all add: Authenticate_def HasToken_def GetNextObjectId_def GetRequiredUint64_def ref_lookup_def
        ref_with_token_def ref_initial_reads)
qed

lemma ref_reach_token:
  "\<exists>c. reachable ref_env (c, []) \<and> \<not> fatal_error_triggered c \<and> d_db c = ref_with_token \<and> ro_dir (d_os c) = Map.empty"
proof -
  let ?c = ref_start_core
  have c: "\<not> fatal_error_triggered ?c" "d_db ?c = ref_initial_db" "ro_dir (d_os ?c) = Map.empty"
    by (simp_all add: ref_start_core_def OpenEventCore_def ref_core_def)
  have gen: "on_os_pop (GenerateToken ref_posix) ?c = Some (Inr ref_token, ?c)"
    using ref_fill_random [of "[]" 16 "d_os ?c"] by (simp add: on_os_pop_def GenerateToken_def ref_token_def)
  have add: "AddToken ref_env 7 ?c = Some (Inr ref_token, ?c\<lparr>d_db := ref_with_token, commit_generation := commit_generation ?c + 1\<rparr>)"
    using gen c by (simp add: AddToken_def PutToken_def ref_with_token_def)
  have "roomy (log_at ref_env ?c)" using ref_roomy [OF ref_initial_reads] by (simp add: c(2))
  then have "reachable ref_env (?c\<lparr>d_db := ref_with_token, commit_generation := commit_generation ?c + 1\<rparr>, [])"
    by (intro reach_step [OF ref_reach_start _ step_operation [OF op_add_token [OF add]]]) simp
  then show ?thesis using c by (intro exI conjI) (assumption | simp)+
qed

abbreviation ref_request :: write_object_request where
  "ref_request \<equiv> ref_write_request ref_token"

lemma ref_prepared_reads:
  "map_of (ref_prepared t ref_with_token) (Meta, kNextUuidKey) = Some (EncodeUint64 1)"
  "map_of (ref_prepared t ref_with_token) (Meta, kNextChannelIdKey) = Some (EncodeUint64 1)"
  "map_of (ref_prepared t ref_with_token) (Meta, kNextObjectIdKey) = Some (EncodeUint64 2)"
  using ref_with_token_reads(3-5) by (simp_all add: ref_prepared_def)

lemma ref_reach_written:
  "\<exists>c. reachable ref_env (c, [Written ref_request (ref_stored ref_token)]) \<and> \<not> fatal_error_triggered c \<and>
     d_db c = ref_prepared ref_token ref_with_token \<and> ro_dir (d_os c) (FinalName 1) = Some (RegularFile ''abc'')"
proof -
  obtain c where c: "reachable ref_env (c, [])" "\<not> fatal_error_triggered c" "d_db c = ref_with_token"
    "ro_dir (d_os c) = Map.empty" using ref_reach_token by blast
  let ?c2 = "c\<lparr>d_db := ref_prepared ref_token (d_db c), commit_generation := commit_generation c + 1\<rparr>"
  obtain os where written: "WriteObject_file ref_env ref_request (ref_stored ref_token) ?c2 = Some (Inr (), ?c2\<lparr>d_os := os\<rparr>)"
    and os: "ro_dir os = (ro_dir (d_os ?c2))(FinalName 1 \<mapsto> RegularFile ''abc'')"
    using ref_file_phase [of ?c2 ref_token] c(4) by auto
  have prep: "WriteObject_prepare ref_env ref_request ref_object_token c = (Inr (ref_stored ref_token), ?c2)"
    using ref_prepare_phase [of c ref_token] ref_with_token_reads(1,2) c(3) by simp
  have room: "roomy (log_at ref_env c)" "roomy (log_at ref_env ?c2)"
    using ref_roomy [OF ref_with_token_reads(3-5)] ref_roomy [OF ref_prepared_reads] c(3) by simp_all
  have gen: "on_os_pop (GenerateObjectToken (posix_api ref_env)) c = Some (Inr ref_object_token, c)"
    by (simp add: ref_object_token_gen)
  have "reachable ref_env (c, [Checked ref_request])"
    by (rule reach_step [OF c(1) _ step_check [OF ref_check [OF c(2)]]]) (use room(1) in simp)
  then have "reachable ref_env (c, [Named ref_request ref_object_token])"
    using reach_step [OF _ _ step_name [OF _ gen, of ref_request "[Checked ref_request]"]] room by simp
  then have "reachable ref_env (?c2, [Prepared ref_request (ref_stored ref_token)])"
    using reach_step [OF _ _ step_prepare [OF _ prep, of "[Named ref_request ref_object_token]"]] room by simp
  then have "reachable ref_env (?c2\<lparr>d_os := os\<rparr>, [Written ref_request (ref_stored ref_token)])"
    using reach_step [OF _ _ step_file [OF _ written, of "[Prepared ref_request (ref_stored ref_token)]"]] room by simp
  then show ?thesis using c(2,3) os by (intro exI conjI) (assumption | simp)+
qed

section \<open>Properties\<close>

text \<open>
  C3: In every reachable state the log is well formed: the sequence numbers of the messages are exactly
  those up to the last one, uuids in use and messages point at each other, no uuid that was not allocated
  is in use, and every channel is valid and known to its messages.
\<close>

theorem reachable_log_invariant:
  assumes "env_laws E" and "reachable E (c, w)"
  shows "log_ok (log_at E c)"
  using reachable_ok [OF assms] by (simp add: server_ok_def)

theorem reachable_log_invariant_witness: "log_ok (log_at ref_env ref_start_core)"
  by (rule reachable_log_invariant [OF ref_env_laws ref_reach_start])

text \<open>
  C5: Every step of the server is a step of the abstract log, which knows nothing of keys, batches and
  encodings, and a step of the abstract object store, which knows only of the committed and unfinished
  objects and their files.
\<close>

theorem server_refines_log:
  assumes "env_laws E" and "server_step E (c, w) (c', w')"
  shows "log_next E (log_at E c) (log_at E c') \<and>
    object_step (log_at E c, os_dir (posix_api E) (d_os c), w) (log_at E c', os_dir (posix_api E) (d_os c'), w')"
  using server_step_log [OF assms] server_step_objects [OF assms] by (simp add: abs_objects_def)

theorem server_refines_log_witness:
  "\<exists>c c'. server_step ref_env (c, []) (c', []) \<and> log_next ref_env (log_at ref_env c) (log_at ref_env c') \<and>
     lg_next_uuid (log_at ref_env c') = lg_next_uuid (log_at ref_env c) + 2"
proof -
  let ?c = "ref_core ref_state" and ?c' = "snd (AllocateUuids ref_env 2 (ref_core ref_state))"
  have run: "AllocateUuids ref_env 2 ?c = (Inr [4, 5], ?c')"
    by (simp add: AllocateUuids_def kMaxUuidBatch_def SetNextUuid_def upt_rec)
  have "lg_next_uuid (log_at ref_env ?c') = lg_next_uuid (log_at ref_env ?c) + 2"
    using allocate.committed(1) [OF ref_env_laws run] by (simp add: allocate_effect_def)
  with server_refines_log [OF ref_env_laws step_operation [OF op_allocate [OF run]]] step_operation [OF op_allocate [OF run]] show ?thesis by blast
qed

text \<open>
  C4: In every reachable state each committed object has a record that passes the checks of the storage and a file of
  exactly the size recorded, and no object is both committed and in preparation.
\<close>

theorem committed_files_complete:
  assumes "env_laws E" and "reachable E (c, w)" and "lg_objects (log_at E c) i = Some ob"
  shows "valid_object i ob \<and> i < lg_next_object_id (log_at E c) \<and> lg_preparing (log_at E c) i = None \<and>
    (\<exists>d. os_dir (posix_api E) (d_os c) (FinalName i) = Some (RegularFile d) \<and> length d = unat (so_nbytes ob))"
proof -
  have "stored_ok (log_at E c) (os_dir (posix_api E) (d_os c))"
    using reachable_ok [OF assms(1,2)] by (simp add: server_ok_def objects_ok_def)
  then have obj: "\<forall>i ob. lg_objects (log_at E c) i = Some ob \<longrightarrow> valid_object i ob \<and> i < lg_next_object_id (log_at E c) \<and>
      (\<exists>d. os_dir (posix_api E) (d_os c) (FinalName i) = Some (RegularFile d) \<and> length d = unat (so_nbytes ob))"
    and prep: "\<forall>i ob. lg_preparing (log_at E c) i = Some ob \<longrightarrow> i \<notin> dom (lg_objects (log_at E c))"
    unfolding stored_ok_def by blast+
  from prep assms(3) have "lg_preparing (log_at E c) i = None" by fastforce
  with obj assms(3) show ?thesis by blast
qed

lemma ref_reach_committed:
  "\<exists>c. reachable ref_env (c, []) \<and> \<not> fatal_error_triggered c \<and> lg_objects (log_at ref_env c) 1 = Some (ref_stored ref_token)"
proof -
  obtain c where c: "reachable ref_env (c, [Written ref_request (ref_stored ref_token)])" "\<not> fatal_error_triggered c"
    "d_db c = ref_prepared ref_token ref_with_token" using ref_reach_written by blast
  let ?c' = "c\<lparr>d_db := ref_committed ref_token (d_db c), commit_generation := commit_generation c + 1\<rparr>"
  have fin: "WriteObject_finish ref_env ref_request (ref_stored ref_token) c =
      (Inr \<lparr>wo_object_id = 1, wo_object_token = ref_object_token\<rparr>, ?c')"
    using ref_finish_phase [OF _ c(3)] ref_with_token_reads(1) c(3) by simp
  have "roomy (log_at ref_env c)" using ref_roomy [OF ref_prepared_reads] c(3) by simp
  then have "reachable ref_env (?c', [])"
    using reach_step [OF c(1) _ step_finish [OF _ fin, of "[Written ref_request (ref_stored ref_token)]"]] by simp
  moreover have "commit_effect ref_request (ref_stored ref_token) (log_at ref_env c) (log_at ref_env ?c')"
    by (rule WriteObject_finish_result(1) [OF ref_env_laws fin])
  then have "lg_objects (log_at ref_env ?c') 1 = Some (ref_stored ref_token)" by (simp add: commit_effect_def)
  ultimately show ?thesis using c(2) by (intro exI conjI) (assumption | simp)+
qed

theorem committed_files_complete_witness:
  "\<exists>c d. reachable ref_env (c, []) \<and> ro_dir (d_os c) (FinalName 1) = Some (RegularFile d) \<and> length d = 3"
proof -
  obtain c where c: "reachable ref_env (c, [])" "lg_objects (log_at ref_env c) 1 = Some (ref_stored ref_token)"
    using ref_reach_committed by blast
  have "os_dir ref_posix = ro_dir" by (simp add: ref_posix_def)
  with committed_files_complete [OF ref_env_laws c] c(1) show ?thesis by auto
qed

text \<open>
  C2: History is append-only: along any run of the server, crashes and restarts included, no message, used uuid or
  committed object is ever lost or changed, the last sequence number does not go back, and the files of
  committed objects stay as they were.
\<close>

theorem history_append_only:
  assumes "env_laws E" and "reachable E (c, w)" and "server_run E (c, w) (c', w')"
  shows "lg_messages (log_at E c) \<subseteq>\<^sub>m lg_messages (log_at E c') \<and> lg_used (log_at E c) \<subseteq>\<^sub>m lg_used (log_at E c') \<and>
    lg_max_seq (log_at E c) \<le> lg_max_seq (log_at E c') \<and> lg_objects (log_at E c) \<subseteq>\<^sub>m lg_objects (log_at E c') \<and>
    (\<forall>i \<in> dom (lg_objects (log_at E c)).
       os_dir (posix_api E) (d_os c') (FinalName i) = os_dir (posix_api E) (d_os c) (FinalName i))"
  using server_run_persists [OF assms(1,3,2)] by (simp add: persists_def extends_def objects_kept_with_files_def)

theorem history_append_only_witness:
  "\<exists>c c'. reachable ref_env (c, []) \<and> server_run ref_env (c, []) (c', []) \<and>
     lg_objects (log_at ref_env c') 1 = Some (ref_stored ref_token)"
proof -
  obtain c where c: "reachable ref_env (c, [])" "lg_objects (log_at ref_env c) 1 = Some (ref_stored ref_token)"
    using ref_reach_committed by blast
  have run: "server_run ref_env (c, []) (c, [])" by (rule run_stay)
  have "lg_objects (log_at ref_env c) \<subseteq>\<^sub>m lg_objects (log_at ref_env c)"
    using history_append_only [OF ref_env_laws c(1) run] by blast
  with c run show ?thesis by blast
qed

text \<open>
  C1: Once a write has reported success, its data can be read for good: whatever other operations, writes
  in flight, crashes and restarts follow, a read of the object that succeeds was made with the token the writer got
  and returns exactly the requested range of the data that was written.
\<close>

theorem written_object_stays_readable:
  assumes laws: "env_laws E" and reach: "reachable E (c, w)" and room: "roomy (log_at E c)"
    and w: "Written q ob \<in> set w" and fin: "WriteObject_finish E q ob c = (Inr r, c1)"
    and run: "server_run E (c1, remove1 (Written q ob) w) (c2, w2)"
    and rd: "ReadObject E (wo_object_id r) token offset n c2 = Some (Inr bs, c3)"
  shows "token = wo_object_token r \<and> bs = take (unat n) (drop (unat offset) (wq_data q))"
proof -
  note f = WriteObject_finish_result [OF laws fin]
  let ?i = "so_object_id ob"
  have ok: "objects_ok (log_at E c) (os_dir (posix_api E) (d_os c)) w"
    using reachable_ok [OF laws reach] by (simp add: server_ok_def)
  then have written: "os_dir (posix_api E) (d_os c) (FinalName ?i) = Some (RegularFile (wq_data q))"
    using w by (auto simp: objects_ok_def)
  have obj: "lg_objects (log_at E c1) ?i = Some ob" using f(1) by (simp add: commit_effect_def)
  have "reachable E (c1, remove1 (Written q ob) w)"
    by (rule reach_step [OF reach _ step_finish [OF w fin]]) (simp add: room)
  from server_run_persists [OF laws run this] have "lg_objects (log_at E c2) ?i = Some ob"
    and "os_dir (posix_api E) (d_os c2) (FinalName ?i) = Some (RegularFile (wq_data q))"
    using domI [of "lg_objects (log_at E c1)", OF obj] obj written f(2)
    unfolding persists_def objects_kept_with_files_def map_le_def fst_conv by metis+
  moreover obtain ob' d where "capability (log_at E c2) (wo_object_id r) token ob'"
    "os_dir (posix_api E) (d_os c2) (FinalName (wo_object_id r)) = Some (RegularFile d)"
    "bs = take (unat n) (drop (unat offset) d)"
    using ReadObject_result [OF laws rd] by blast
  ultimately show ?thesis using f(3) by (auto simp: capability_def)
qed

theorem written_object_stays_readable_witness:
  "\<exists>c c1 c3. reachable ref_env (c, [Written ref_request (ref_stored ref_token)]) \<and>
     WriteObject_finish ref_env ref_request (ref_stored ref_token) c =
       (Inr \<lparr>wo_object_id = 1, wo_object_token = ref_object_token\<rparr>, c1) \<and>
     ReadObject ref_env 1 ref_object_token 1 2 c1 = Some (Inr (take 2 (drop 1 (wq_data ref_request))), c3)"
proof -
  obtain c where c: "reachable ref_env (c, [Written ref_request (ref_stored ref_token)])" "\<not> fatal_error_triggered c"
    "d_db c = ref_prepared ref_token ref_with_token" "ro_dir (d_os c) (FinalName 1) = Some (RegularFile ''abc'')"
    using ref_reach_written by blast
  let ?c1 = "c\<lparr>d_db := ref_committed ref_token (d_db c), commit_generation := commit_generation c + 1\<rparr>"
  have fin: "WriteObject_finish ref_env ref_request (ref_stored ref_token) c =
      (Inr \<lparr>wo_object_id = 1, wo_object_token = ref_object_token\<rparr>, ?c1)"
    using ref_finish_phase [OF _ c(3)] ref_with_token_reads(1) c(3) by simp
  have room: "roomy (log_at ref_env c)" using ref_roomy [OF ref_prepared_reads] c(3) by simp
  obtain os where rd: "ReadObject ref_env 1 ref_object_token 1 2 ?c1 = Some (Inr ''bc'', ?c1\<lparr>d_os := os\<rparr>)"
    using ref_ReadObject [of ?c1 ref_token] c(2,4) by (auto simp: ref_committed_def)
  have "''bc'' = take (unat (2 :: u64)) (drop (unat (1 :: u64)) (wq_data ref_request))"
    using written_object_stays_readable [OF ref_env_laws c(1) room _ fin run_stay, of ref_object_token 1 2 "''bc''"] rd
    by simp
  then show ?thesis using c(1) fin rd by (intro exI conjI) (assumption | simp)+
qed

end
