(* ===== verification/Grpc_Services.thy ===== *)
theory Grpc_Services
  imports Server_Properties
begin

text \<open>
  \<^verbatim>\<open>src/service/grpc_services.cpp\<close>: the handlers of the remote procedure calls and the
  registry of subscription streams. A unary handler runs the operation of the core and reports its status;
  the stream of \<^verbatim>\<open>Subscribe\<close> is cut at the points where it calls the core, so that commits and
  the refresh of the snapshot can come in between.
\<close>

section \<open>Unary calls\<close>

type_synonym grpc_status = "status_code \<times> string"

definition ToGrpcStatus :: "('db, 'snap, 'os) env \<Rightarrow> 'a result \<Rightarrow> ('db, 'snap, 'os) core \<Rightarrow>
    (grpc_status + 'a) \<times> ('db, 'snap, 'os) core" where
  "ToGrpcStatus E r c =
     (case HandleRpcStatus E r c of
        (Inl s, c') \<Rightarrow> (Inl (ToGrpc s), c')
      | (Inr a, c') \<Rightarrow> (Inr a, c'))"

definition unary_rpc :: "('db, 'snap, 'os) env \<Rightarrow> ('db, 'snap, 'os, 'a) core_op \<Rightarrow> ('db, 'snap, 'os) core \<Rightarrow>
    (grpc_status + 'a) \<times> ('db, 'snap, 'os) core" where
  "unary_rpc E operation c = (case operation c of (r, c') \<Rightarrow> ToGrpcStatus E r c')"

definition unary_rpc_pop :: "('db, 'snap, 'os) env \<Rightarrow> (('db, 'snap, 'os) core, status, 'a) pop \<Rightarrow>
    ('db, 'snap, 'os) core \<Rightarrow> ((grpc_status + 'a) \<times> ('db, 'snap, 'os) core) option" where
  "unary_rpc_pop E operation c =
     (case operation c of None \<Rightarrow> None | Some (r, c') \<Rightarrow> Some (ToGrpcStatus E r c'))"

definition EventServiceImpl_GetStatus where
  "EventServiceImpl_GetStatus E prin token = unary_rpc E (GetStatus E prin token)"
definition EventServiceImpl_AllocateUuids where
  "EventServiceImpl_AllocateUuids E count = unary_rpc E (AllocateUuids E count)"
definition EventServiceImpl_GetSeqByUuid where
  "EventServiceImpl_GetSeqByUuid E uuid = unary_rpc E (GetSeqByUuid E uuid)"
definition EventServiceImpl_Publish where
  "EventServiceImpl_Publish E request now rpc1 rpc2 = unary_rpc E (Publish E request now rpc1 rpc2)"
definition EventServiceImpl_PublishAutoSeq where
  "EventServiceImpl_PublishAutoSeq E request now rpc1 rpc2 =
     unary_rpc E (PublishAutoSeq E request now rpc1 rpc2)"
definition EventServiceImpl_Fetch where
  "EventServiceImpl_Fetch E request = unary_rpc E (Fetch E request)"
definition ObjectStorageServiceImpl_WriteObject where
  "ObjectStorageServiceImpl_WriteObject E request = unary_rpc_pop E (WriteObject E request)"
definition ObjectStorageServiceImpl_GetObjectMetadata where
  "ObjectStorageServiceImpl_GetObjectMetadata E object_id object_token =
     unary_rpc E (GetObjectMetadata E object_id object_token)"
definition ObjectStorageServiceImpl_BatchGetObjectMetadata where
  "ObjectStorageServiceImpl_BatchGetObjectMetadata E object_keys =
     unary_rpc E (BatchGetObjectMetadata E object_keys)"
definition ObjectStorageServiceImpl_ReadObject where
  "ObjectStorageServiceImpl_ReadObject E object_id object_token offset nbytes =
     unary_rpc_pop E (ReadObject E object_id object_token offset nbytes)"
definition ChannelServiceImpl_CreateChannel where
  "ChannelServiceImpl_CreateChannel E request now = unary_rpc E (CreateChannel E request now)"
definition ChannelServiceImpl_GetChannel where
  "ChannelServiceImpl_GetChannel E prin token channel_id =
     unary_rpc E (GetChannelInfo E prin token channel_id)"
definition ChannelServiceImpl_ListChannels where
  "ChannelServiceImpl_ListChannels E prin token filter_by =
     unary_rpc E (ListChannelInfos E prin token filter_by)"
definition ChannelServiceImpl_AddMember where
  "ChannelServiceImpl_AddMember E prin token channel_id target now =
     unary_rpc E (AddMember E prin token channel_id target now)"
definition ChannelServiceImpl_RemoveMember where
  "ChannelServiceImpl_RemoveMember E prin token channel_id target now =
     unary_rpc E (RemoveMember E prin token channel_id target now)"
definition AdminServiceImpl_AddToken where
  "AdminServiceImpl_AddToken E prin = unary_rpc_pop E (AddToken E prin)"
definition AdminServiceImpl_DeleteToken where
  "AdminServiceImpl_DeleteToken E prin token = unary_rpc E (core_DeleteToken E prin token)"
definition AdminServiceImpl_ListMessages where
  "AdminServiceImpl_ListMessages E from_seq limit = unary_rpc E (ListMessages E from_seq limit)"

section \<open>The registry of streams\<close>

text \<open>Streams are identified by the address of their context; \<open>cancelled\<close> are the contexts on which
  \<^verbatim>\<open>TryCancel\<close> has been called.\<close>

record event_service =
  subscriptions :: "nat set"
  subscriptions_stopping :: bool
  cancelled :: "nat set"

definition RegisterSubscription :: "nat \<Rightarrow> event_service \<Rightarrow> bool \<times> event_service" where
  "RegisterSubscription ctxt v =
     (if subscriptions_stopping v then (False, v)
      else (True, v\<lparr>subscriptions := insert ctxt (subscriptions v)\<rparr>))"

definition UnregisterSubscription :: "nat \<Rightarrow> event_service \<Rightarrow> event_service" where
  "UnregisterSubscription ctxt v = v\<lparr>subscriptions := subscriptions v - {ctxt}\<rparr>"

definition StopSubscriptions :: "event_service \<Rightarrow> event_service" where
  "StopSubscriptions v = v\<lparr>subscriptions_stopping := True, cancelled := cancelled v \<union> subscriptions v\<rparr>"

section \<open>One stream\<close>

record subscribe_request =
  sq_principal :: u64
  sq_token :: string
  sq_from_seq :: u64
  sq_only_my_recipient :: bool
  sq_channels :: "u64 list"

text \<open>
  Where the stream is: before its registration, waiting for the first snapshot or for the snapshot of a
  batch (with the state of the core in which it asked), at the head of the loop, waiting for a newer
  snapshot, at the end.
\<close>

datatype ('db, 'snap, 'os) stream_pc =
  Unstarted
| StartWait "('db, 'snap, 'os) core"
| LoopHead
| BatchWait "('db, 'snap, 'os) core"
| Idle u64
| Ended grpc_status

record ('db, 'snap, 'os) stream =
  str_pc :: "('db, 'snap, 'os) stream_pc"
  str_next :: u64
  str_sent :: "event_message list"
  str_accepted :: bool

text \<open>\<^verbatim>\<open>Write\<close> may fail at any message; \<open>writes n\<close> tells whether the \<open>n\<close>th succeeds.\<close>

primrec write_messages :: "(nat \<Rightarrow> bool) \<Rightarrow> event_message list \<Rightarrow> event_message list \<Rightarrow> bool \<times> event_message list" where
  "write_messages writes [] sent = (True, sent)"
| "write_messages writes (m # ms) sent =
     (if writes (length sent) then write_messages writes ms (sent @ [m]) else (False, sent))"

definition end_with :: "('db, 'snap, 'os) env \<Rightarrow> status \<Rightarrow> ('db, 'snap, 'os) core \<Rightarrow> ('db, 'snap, 'os) stream \<Rightarrow>
    ('db, 'snap, 'os) core \<times> ('db, 'snap, 'os) stream" where
  "end_with E s c st =
     (case ToGrpcStatus E (Inl s :: unit result) c of
        (Inl g, c') \<Rightarrow> (c', st\<lparr>str_pc := Ended g\<rparr>)
      | (Inr _, c') \<Rightarrow> (c', st\<lparr>str_pc := Ended (OK, [])\<rparr>))"

text \<open>The start: \<open>c\<close> is the state in which the snapshot was asked for, \<open>c'\<close> the present one.\<close>

definition RunSubscription_start :: "('db, 'snap, 'os) env \<Rightarrow> subscribe_request \<Rightarrow> ('db, 'snap, 'os) core \<Rightarrow>
    ('db, 'snap, 'os) core \<Rightarrow> ('db, 'snap, 'os) stream \<Rightarrow> ('db, 'snap, 'os) core \<times> ('db, 'snap, 'os) stream" where
  "RunSubscription_start E q c c' st =
     (case GetSubscriptionMaxSeq E (sq_principal q) (sq_token q) (sq_channels q) c c' of
        Inl s \<Rightarrow> end_with E s c' st
      | Inr max_seq \<Rightarrow>
          if sq_from_seq q > max_seq \<and> sq_from_seq q - max_seq > 1
          then (c', st\<lparr>str_pc := Ended (OUT_OF_RANGE, ''from_seq exceeds max_seq + 1'')\<rparr>)
          else (c', st\<lparr>str_pc := LoopHead, str_next := sq_from_seq q, str_accepted := True\<rparr>))"

text \<open>The rest of an iteration, once the snapshot is there.\<close>

definition RunSubscription_batch :: "('db, 'snap, 'os) env \<Rightarrow> subscribe_request \<Rightarrow> (nat \<Rightarrow> bool) \<Rightarrow>
    ('db, 'snap, 'os) core \<Rightarrow> ('db, 'snap, 'os) core \<Rightarrow> ('db, 'snap, 'os) stream \<Rightarrow>
    ('db, 'snap, 'os) core \<times> ('db, 'snap, 'os) stream" where
  "RunSubscription_batch E q writes c c' st =
     (case FetchSubscriptionBatch E (sq_principal q) (sq_token q) (str_next st) 100 (sq_only_my_recipient q)
             (sq_channels q) c c' of
        Inl s \<Rightarrow> end_with E s c' st
      | Inr (batch, snapshot_version) \<Rightarrow>
     (case write_messages writes (fr_messages batch) (str_sent st) of
        (False, sent) \<Rightarrow> (c', st\<lparr>str_pc := Ended (OK, []), str_sent := sent\<rparr>)
      | (True, sent) \<Rightarrow>
          (c', st\<lparr>str_pc := (if fr_next_seq batch > fr_last_seq batch then Idle snapshot_version else LoopHead),
             str_next := fr_next_seq batch, str_sent := sent\<rparr>)))"

definition RunSubscription_wait :: "bool \<Rightarrow> u64 \<Rightarrow> ('db, 'snap, 'os) core \<Rightarrow> ('db, 'snap, 'os) stream \<Rightarrow>
    ('db, 'snap, 'os) stream" where
  "RunSubscription_wait is_cancelled version c st =
     (if is_cancelled \<or> WaitForSubscriptionSnapshot version c then st\<lparr>str_pc := LoopHead\<rparr> else st)"

text \<open>The stream before its call is accepted by the registry.\<close>

definition new_stream :: "('db, 'snap, 'os) stream" where
  "new_stream = \<lparr>str_pc = Unstarted, str_next = 0, str_sent = [], str_accepted = False\<rparr>"

section \<open>Calls after a fatal error\<close>

lemma unavailable_report: "ToGrpcStatus E (Inl unavailable) c = (Inl (ToGrpc unavailable), c)"
  by (simp add: ToGrpcStatus_def HandleRpcStatus_def of_result_def unavailable_def is_fatal_def mk_status_def)

lemma unary_unavailable:
  "operation c = (Inl unavailable, c) \<Longrightarrow> unary_rpc E operation c = (Inl (ToGrpc unavailable), c)"
  "operation' c = Some (Inl unavailable, c) \<Longrightarrow> unary_rpc_pop E operation' c = Some (Inl (ToGrpc unavailable), c)"
  by (simp_all add: unary_rpc_def unary_rpc_pop_def unavailable_report)

lemmas call_defs = EventServiceImpl_GetStatus_def EventServiceImpl_AllocateUuids_def
    EventServiceImpl_GetSeqByUuid_def EventServiceImpl_Publish_def EventServiceImpl_PublishAutoSeq_def
    EventServiceImpl_Fetch_def ObjectStorageServiceImpl_WriteObject_def
    ObjectStorageServiceImpl_GetObjectMetadata_def ObjectStorageServiceImpl_BatchGetObjectMetadata_def
    ObjectStorageServiceImpl_ReadObject_def ChannelServiceImpl_CreateChannel_def
    ChannelServiceImpl_GetChannel_def ChannelServiceImpl_ListChannels_def ChannelServiceImpl_AddMember_def
    ChannelServiceImpl_RemoveMember_def AdminServiceImpl_AddToken_def AdminServiceImpl_DeleteToken_def
    AdminServiceImpl_ListMessages_def

lemmas operation_defs = GetStatus_def AllocateUuids_def GetSeqByUuid_def Publish_def PublishAutoSeq_def
    Fetch_def WriteObject_def WriteObject_check_def GetObjectMetadata_def BatchGetObjectMetadata_def
    ReadObject_def CreateChannel_def GetChannelInfo_def ListChannelInfos_def AddMember_def RemoveMember_def
    AddToken_def core_DeleteToken_def ListMessages_def

lemma event_calls_latched:
  assumes "fatal_error_triggered c"
  shows "EventServiceImpl_GetStatus E prin token c = (Inl (ToGrpc unavailable), c)"
    and "EventServiceImpl_AllocateUuids E count c = (Inl (ToGrpc unavailable), c)"
    and "EventServiceImpl_GetSeqByUuid E uuid c = (Inl (ToGrpc unavailable), c)"
    and "EventServiceImpl_Publish E pq now rpc1 rpc2 c = (Inl (ToGrpc unavailable), c)"
    and "EventServiceImpl_PublishAutoSeq E aq now rpc1 rpc2 c = (Inl (ToGrpc unavailable), c)"
    and "EventServiceImpl_Fetch E fq c = (Inl (ToGrpc unavailable), c)"
  using assms by (auto simp: call_defs operation_defs bindO_def totalO_def intro!: unary_unavailable)

lemma object_calls_latched:
  assumes "fatal_error_triggered c"
  shows "ObjectStorageServiceImpl_WriteObject E wq c = Some (Inl (ToGrpc unavailable), c)"
    and "ObjectStorageServiceImpl_GetObjectMetadata E i token c = (Inl (ToGrpc unavailable), c)"
    and "ObjectStorageServiceImpl_BatchGetObjectMetadata E ks c = (Inl (ToGrpc unavailable), c)"
    and "ObjectStorageServiceImpl_ReadObject E i token offset n c = Some (Inl (ToGrpc unavailable), c)"
  using assms by (auto simp: call_defs operation_defs bindO_def totalO_def intro!: unary_unavailable)

lemma channel_calls_latched:
  assumes "fatal_error_triggered c"
  shows "ChannelServiceImpl_CreateChannel E cq now c = (Inl (ToGrpc unavailable), c)"
    and "ChannelServiceImpl_GetChannel E prin token i c = (Inl (ToGrpc unavailable), c)"
    and "ChannelServiceImpl_ListChannels E prin token flt c = (Inl (ToGrpc unavailable), c)"
    and "ChannelServiceImpl_AddMember E prin token i target now c = (Inl (ToGrpc unavailable), c)"
    and "ChannelServiceImpl_RemoveMember E prin token i target now c = (Inl (ToGrpc unavailable), c)"
    and "AdminServiceImpl_AddToken E prin c = Some (Inl (ToGrpc unavailable), c)"
    and "AdminServiceImpl_DeleteToken E prin token c = (Inl (ToGrpc unavailable), c)"
    and "AdminServiceImpl_ListMessages E from_seq limit c = (Inl (ToGrpc unavailable), c)"
  using assms by (auto simp: call_defs operation_defs bindO_def totalO_def intro!: unary_unavailable)

lemmas latched_calls = event_calls_latched object_calls_latched channel_calls_latched

end
