(* ===== verification/Server_Config.thy ===== *)
theory Server_Config
  imports Status Wire
begin

text \<open>
  \<^verbatim>\<open>src/server/server_config.cpp\<close>: loading and validating the configuration. The YAML library
  and the file system are parameters; an operation of the YAML library returns a value or the message of
  the exception it throws.
\<close>

section \<open>The configuration\<close>

definition kMaxPayloadBytesLimit :: u64 where
  "kMaxPayloadBytesLimit = 62914560"

record server_config =
  grpc_listen_addr :: string
  admin_listen_addr :: string
  storage_path :: string
  cfg_max_payload_bytes :: u64

definition default_config :: server_config where
  "default_config = \<lparr>grpc_listen_addr = ''0.0.0.0:9527'', admin_listen_addr = ''127.0.0.1:9528'',
     storage_path = [], cfg_max_payload_bytes = 16777216\<rparr>"

definition ValidateServerConfig :: "server_config \<Rightarrow> unit result" where
  "ValidateServerConfig config =
     (if grpc_listen_addr config = [] then Inl (mk_status INVALID_ARGUMENT ''grpc.listen_addr must not be empty'')
      else if admin_listen_addr config = []
      then Inl (mk_status INVALID_ARGUMENT ''admin.listen_addr must not be empty'')
      else if grpc_listen_addr config = admin_listen_addr config
      then Inl (mk_status INVALID_ARGUMENT ''grpc.listen_addr and admin.listen_addr must be different'')
      else if storage_path config = [] then Inl (mk_status INVALID_ARGUMENT ''storage.path must not be empty'')
      else if cfg_max_payload_bytes config = 0
      then Inl (mk_status INVALID_ARGUMENT ''limits.max_payload_bytes must be greater than 0'')
      else if cfg_max_payload_bytes config > kMaxPayloadBytesLimit
      then Inl (mk_status INVALID_ARGUMENT ''limits.max_payload_bytes must not exceed 62914560 (60 MiB)'')
      else Inr ())"

section \<open>Loading\<close>

text \<open>The calls of the YAML library and of the file system; \<open>fs_exists\<close> and
  \<open>fs_is_regular_file\<close> return the answer and the error code, if one was set.\<close>

record 'node yaml =
  yaml_LoadFile :: "string \<Rightarrow> string + 'node"
  yaml_get :: "'node \<Rightarrow> string \<Rightarrow> string + 'node"
  yaml_defined :: "'node \<Rightarrow> bool"
  yaml_as_string :: "'node \<Rightarrow> string + string"
  yaml_as_size :: "'node \<Rightarrow> string + u64"

record config_files =
  fs_exists :: "string \<Rightarrow> bool \<times> string option"
  fs_is_regular_file :: "string \<Rightarrow> bool \<times> string option"

definition AssignIfPresent :: "'node yaml \<Rightarrow> ('node \<Rightarrow> string + 'a) \<Rightarrow> 'node \<Rightarrow> string \<Rightarrow> 'a \<Rightarrow> string + 'a" where
  "AssignIfPresent Y as node key out =
     (if yaml_defined Y node then
        case yaml_get Y node key of
          Inl e \<Rightarrow> Inl e
        | Inr value \<Rightarrow> if yaml_defined Y value then as value else Inr out
      else Inr out)"

definition assign_section :: "'node yaml \<Rightarrow> ('node \<Rightarrow> string + 'a) \<Rightarrow> 'node \<Rightarrow> string \<Rightarrow> string \<Rightarrow> 'a \<Rightarrow>
    string + 'a" where
  "assign_section Y as doc section_name key out =
     (case yaml_get Y doc section_name of Inl e \<Rightarrow> Inl e | Inr node \<Rightarrow> AssignIfPresent Y as node key out)"

text \<open>The body of the \<^verbatim>\<open>try\<close> block.\<close>

definition read_config :: "'node yaml \<Rightarrow> string \<Rightarrow> string + server_config" where
  "read_config Y path =
     (case yaml_LoadFile Y path of
        Inl e \<Rightarrow> Inl e
      | Inr doc \<Rightarrow>
     (case assign_section Y (yaml_as_string Y) doc ''grpc'' ''listen_addr'' (grpc_listen_addr default_config) of
        Inl e \<Rightarrow> Inl e
      | Inr grpc_addr \<Rightarrow>
     (case assign_section Y (yaml_as_string Y) doc ''admin'' ''listen_addr'' (admin_listen_addr default_config) of
        Inl e \<Rightarrow> Inl e
      | Inr admin_addr \<Rightarrow>
     (case assign_section Y (yaml_as_string Y) doc ''storage'' ''path'' (storage_path default_config) of
        Inl e \<Rightarrow> Inl e
      | Inr path' \<Rightarrow>
     (case assign_section Y (yaml_as_size Y) doc ''limits'' ''max_payload_bytes''
             (cfg_max_payload_bytes default_config) of
        Inl e \<Rightarrow> Inl e
      | Inr limit \<Rightarrow>
          Inr \<lparr>grpc_listen_addr = grpc_addr, admin_listen_addr = admin_addr, storage_path = path',
            cfg_max_payload_bytes = limit\<rparr>)))))"

definition LoadServerConfig :: "config_files \<Rightarrow> 'node yaml \<Rightarrow> string \<Rightarrow> server_config result" where
  "LoadServerConfig F Y path =
     (if path = [] then Inl (mk_status INVALID_ARGUMENT ''config path must be provided'')
      else case fs_exists F path of
        (False, Some message) \<Rightarrow> Inl (mk_status INVALID_ARGUMENT (''stat config file: '' @ message))
      | (False, None) \<Rightarrow> Inl (mk_status INVALID_ARGUMENT (''config file does not exist: '' @ path))
      | (True, _) \<Rightarrow>
     (case fs_is_regular_file F path of
        (False, Some message) \<Rightarrow> Inl (mk_status INVALID_ARGUMENT (''stat config file: '' @ message))
      | (False, None) \<Rightarrow> Inl (mk_status INVALID_ARGUMENT (''config path is not a regular file: '' @ path))
      | (True, _) \<Rightarrow>
     (case read_config Y path of
        Inl what \<Rightarrow> Inl (mk_status INVALID_ARGUMENT (''load config file: '' @ what))
      | Inr config \<Rightarrow> bindR (ValidateServerConfig config) (\<lambda>_. Inr config))))"

section \<open>Properties\<close>

lemma ValidateServerConfig_Inr:
  "ValidateServerConfig c = Inr u \<longleftrightarrow> grpc_listen_addr c \<noteq> [] \<and> admin_listen_addr c \<noteq> [] \<and>
     grpc_listen_addr c \<noteq> admin_listen_addr c \<and> storage_path c \<noteq> [] \<and>
     0 < unat (cfg_max_payload_bytes c) \<and> unat (cfg_max_payload_bytes c) \<le> 60 * 2 ^ 20"
  by (auto simp: ValidateServerConfig_def kMaxPayloadBytesLimit_def word_less_nat_alt word_gt_0 unat_gt_0 not_less)

text \<open>The value a section gives a field, and the default if it does not mention it.\<close>

definition config_value :: "'node yaml \<Rightarrow> ('node \<Rightarrow> string + 'a) \<Rightarrow> 'node \<Rightarrow> string \<Rightarrow> string \<Rightarrow> 'a \<Rightarrow> 'a \<Rightarrow> bool" where
  "config_value Y as doc section_name key out v \<longleftrightarrow>
     (\<exists>node. yaml_get Y doc section_name = Inr node \<and>
        (if \<not> yaml_defined Y node then v = out
         else \<exists>value. yaml_get Y node key = Inr value \<and> (if yaml_defined Y value then as value = Inr v else v = out)))"

lemma assign_section_Inr:
  "assign_section Y as doc section_name key out = Inr v \<longleftrightarrow> config_value Y as doc section_name key out v"
  by (auto simp: assign_section_def AssignIfPresent_def config_value_def split: sum.splits)

lemma LoadServerConfig_Inr:
  assumes "LoadServerConfig F Y path = Inr c"
  shows "path \<noteq> []" and "fst (fs_exists F path)" and "fst (fs_is_regular_file F path)"
    and "read_config Y path = Inr c" and "ValidateServerConfig c = Inr ()"
  using assms
  by (auto simp: LoadServerConfig_def bind_inv split: prod.splits bool.splits option.splits sum.splits if_splits)

text \<open>
  C33: A configuration that is loaded comes from an existing regular file; each of its fields is what the
  file says, or the default if the file does not mention it; both addresses are set and differ, there is a
  storage path, and the payload limit is between one byte and 60 MiB, which leaves room for the other fields
  of a message under the limit of the transport.
\<close>

theorem loaded_config_valid:
  assumes "LoadServerConfig F Y path = Inr c"
  shows "fst (fs_exists F path) \<and> fst (fs_is_regular_file F path) \<and>
    (\<exists>doc. yaml_LoadFile Y path = Inr doc \<and>
      config_value Y (yaml_as_string Y) doc ''grpc'' ''listen_addr'' ''0.0.0.0:9527'' (grpc_listen_addr c) \<and>
      config_value Y (yaml_as_string Y) doc ''admin'' ''listen_addr'' ''127.0.0.1:9528'' (admin_listen_addr c) \<and>
      config_value Y (yaml_as_string Y) doc ''storage'' ''path'' [] (storage_path c) \<and>
      config_value Y (yaml_as_size Y) doc ''limits'' ''max_payload_bytes'' 16777216 (cfg_max_payload_bytes c)) \<and>
    grpc_listen_addr c \<noteq> [] \<and> admin_listen_addr c \<noteq> [] \<and> grpc_listen_addr c \<noteq> admin_listen_addr c \<and>
    storage_path c \<noteq> [] \<and> 0 < unat (cfg_max_payload_bytes c) \<and>
    unat (cfg_max_payload_bytes c) + 4 * 2 ^ 20 \<le> kGrpcMessageBytes"
proof -
  note load = LoadServerConfig_Inr [OF assms]
  have "\<exists>doc. yaml_LoadFile Y path = Inr doc \<and>
      config_value Y (yaml_as_string Y) doc ''grpc'' ''listen_addr'' ''0.0.0.0:9527'' (grpc_listen_addr c) \<and>
      config_value Y (yaml_as_string Y) doc ''admin'' ''listen_addr'' ''127.0.0.1:9528'' (admin_listen_addr c) \<and>
      config_value Y (yaml_as_string Y) doc ''storage'' ''path'' [] (storage_path c) \<and>
      config_value Y (yaml_as_size Y) doc ''limits'' ''max_payload_bytes'' 16777216 (cfg_max_payload_bytes c)"
    using load(4)
    by (auto simp: read_config_def default_config_def assign_section_Inr [symmetric] split: sum.splits)
  with load show ?thesis by (simp add: ValidateServerConfig_Inr kGrpcMessageBytes_def)
qed

text \<open>A file with a storage path and nothing else.\<close>

datatype ref_node = RefMap "(string \<times> ref_node) list" | RefText string | RefNone

fun ref_get :: "ref_node \<Rightarrow> string \<Rightarrow> string + ref_node" where
  "ref_get (RefMap m) key = Inr (case map_of m key of None \<Rightarrow> RefNone | Some n \<Rightarrow> n)"
| "ref_get _ key = Inl ''operator[] call on a scalar''"

fun ref_string :: "ref_node \<Rightarrow> string + string" where
  "ref_string (RefText s) = Inr s"
| "ref_string _ = Inl ''bad conversion''"

definition ref_yaml :: "ref_node yaml" where
  "ref_yaml = \<lparr>yaml_LoadFile = (\<lambda>_. Inr (RefMap [(''storage'', RefMap [(''path'', RefText ''/s'')])])),
     yaml_get = ref_get, yaml_defined = (\<lambda>n. n \<noteq> RefNone), yaml_as_string = ref_string,
     yaml_as_size = (\<lambda>_. Inl ''bad conversion'')\<rparr>"

definition ref_files :: config_files where
  "ref_files = \<lparr>fs_exists = (\<lambda>_. (True, None)), fs_is_regular_file = (\<lambda>_. (True, None))\<rparr>"

definition ref_config :: server_config where
  "ref_config = \<lparr>grpc_listen_addr = ''0.0.0.0:9527'', admin_listen_addr = ''127.0.0.1:9528'', storage_path = ''/s'',
     cfg_max_payload_bytes = 16777216\<rparr>"

lemma ref_load: "LoadServerConfig ref_files ref_yaml ''c'' = Inr ref_config"
  by (simp add: LoadServerConfig_def ref_files_def read_config_def assign_section_def AssignIfPresent_def ref_yaml_def
      default_config_def ValidateServerConfig_def kMaxPayloadBytesLimit_def ref_config_def)

theorem loaded_config_valid_witness:
  "\<exists>c. LoadServerConfig ref_files ref_yaml ''c'' = Inr c \<and> storage_path c = ''/s'' \<and>
     unat (cfg_max_payload_bytes c) + 4 * 2 ^ 20 \<le> kGrpcMessageBytes"
  using loaded_config_valid [OF ref_load] ref_load by (simp add: ref_config_def)

end
