(* ===== verification/Server_Main.thy ===== *)
theory Server_Main
  imports Grpc_Services Server_Config
begin

text \<open>
  \<^verbatim>\<open>src/server/main.cpp\<close>: the end of the server as a state machine of the main thread, the thread that waits
  for signals, the thread that waits for a fatal error, and the subscription streams. The threads are cut at every access
  to shared state.
\<close>

section \<open>Stopping\<close>

text \<open>The thread that waits for a signal: in \<^verbatim>\<open>sigwait\<close>; about to store that a signal came, to load the
  flag of a fatal error, to exchange \<^verbatim>\<open>shutdown_initiated\<close>; in \<^verbatim>\<open>shutdown_servers\<close>, before and
  after stopping the subscriptions; at its end.\<close>

datatype signal_pc = SigWait | SigStore | SigLoad | SigExchange bool | SigStop | SigShutdown | SigDone

datatype fatal_pc = FatWait | FatCheck | FatExchange | FatStop | FatShutdown | FatDone

datatype main_pc = MainServe | MainCheck | MainStop | MainAdmin | MainFlag | MainKill | MainJoinAdmin | MainJoinSignal
  | MainJoinFatal | MainExit nat

text \<open>\<open>ms_shutdowns\<close> counts the runs of \<^verbatim>\<open>shutdown_servers\<close>; \<open>ms_public_down\<close> and
  \<open>ms_admin_down\<close> hold once the servers have shut down.\<close>

record main_state =
  ms_main :: main_pc
  ms_signal :: signal_pc
  ms_fatal_thread :: fatal_pc
  fatal_storage_error :: bool
  shutdown_initiated :: bool
  shutdown_signal_received :: bool
  stop_shutdown_threads :: bool
  ms_signal_pending :: bool
  ms_service :: event_service
  ms_public_down :: bool
  ms_admin_down :: bool
  ms_shutdowns :: nat

definition main_init :: main_state where
  "main_init = \<lparr>ms_main = MainServe, ms_signal = SigWait, ms_fatal_thread = FatWait, fatal_storage_error = False,
     shutdown_initiated = False, shutdown_signal_received = False, stop_shutdown_threads = False,
     ms_signal_pending = False, ms_service = \<lparr>subscriptions = {}, subscriptions_stopping = False, cancelled = {}\<rparr>,
     ms_public_down = False, ms_admin_down = False, ms_shutdowns = 0\<rparr>"

text \<open>The thread of the signals.\<close>

definition signal_exchange :: "main_state \<Rightarrow> main_state" where
  "signal_exchange s = s\<lparr>shutdown_initiated := True, ms_signal := (if shutdown_initiated s then SigDone else SigStop)\<rparr>"

inductive signal_step :: "main_state \<Rightarrow> main_state \<Rightarrow> bool" where
  sig_recv: "ms_signal s = SigWait \<Longrightarrow> ms_signal_pending s \<Longrightarrow>
    signal_step s (s\<lparr>ms_signal := SigStore, ms_signal_pending := False\<rparr>)"
| sig_store: "ms_signal s = SigStore \<Longrightarrow> signal_step s (s\<lparr>ms_signal := SigLoad, shutdown_signal_received := True\<rparr>)"
| sig_load: "ms_signal s = SigLoad \<Longrightarrow> signal_step s (s\<lparr>ms_signal := SigExchange (fatal_storage_error s)\<rparr>)"
| sig_exchange: "ms_signal s = SigExchange fatal \<Longrightarrow> signal_step s (signal_exchange s)"
| sig_stop: "ms_signal s = SigStop \<Longrightarrow>
    signal_step s (s\<lparr>ms_signal := SigShutdown, ms_service := StopSubscriptions (ms_service s),
      ms_shutdowns := ms_shutdowns s + 1\<rparr>)"
| sig_join: "ms_signal s = SigShutdown \<Longrightarrow> ms_public_down s \<Longrightarrow> ms_admin_down s \<Longrightarrow>
    signal_step s (s\<lparr>ms_signal := SigDone\<rparr>)"

text \<open>The thread of the fatal error. The wait ends when its predicate holds; the check that follows runs under
  the same lock.\<close>

definition fatal_exchange :: "main_state \<Rightarrow> main_state" where
  "fatal_exchange s =
     s\<lparr>shutdown_initiated := True, ms_fatal_thread := (if shutdown_initiated s then FatDone else FatStop)\<rparr>"

inductive fatal_step :: "main_state \<Rightarrow> main_state \<Rightarrow> bool" where
  fat_wake: "ms_fatal_thread s = FatWait \<Longrightarrow> fatal_storage_error s \<or> stop_shutdown_threads s \<Longrightarrow>
    fatal_step s (s\<lparr>ms_fatal_thread := FatCheck\<rparr>)"
| fat_check: "ms_fatal_thread s = FatCheck \<Longrightarrow>
    fatal_step s (s\<lparr>ms_fatal_thread := (if fatal_storage_error s then FatExchange else FatDone)\<rparr>)"
| fat_exchange: "ms_fatal_thread s = FatExchange \<Longrightarrow> fatal_step s (fatal_exchange s)"
| fat_stop: "ms_fatal_thread s = FatStop \<Longrightarrow>
    fatal_step s (s\<lparr>ms_fatal_thread := FatShutdown, ms_service := StopSubscriptions (ms_service s),
      ms_shutdowns := ms_shutdowns s + 1\<rparr>)"
| fat_join: "ms_fatal_thread s = FatShutdown \<Longrightarrow> ms_public_down s \<Longrightarrow> ms_admin_down s \<Longrightarrow>
    fatal_step s (s\<lparr>ms_fatal_thread := FatDone\<rparr>)"

text \<open>The two servers, while one of the threads is in \<^verbatim>\<open>shutdown_servers\<close>: the public server is down when
  no stream is left. A stream that has been cancelled leaves.\<close>

definition shutting_down :: "main_state \<Rightarrow> bool" where
  "shutting_down s \<longleftrightarrow> ms_signal s = SigShutdown \<or> ms_fatal_thread s = FatShutdown"

inductive server_down_step :: "main_state \<Rightarrow> main_state \<Rightarrow> bool" where
  down_public: "shutting_down s \<Longrightarrow> \<not> ms_public_down s \<Longrightarrow> subscriptions (ms_service s) = {} \<Longrightarrow>
    server_down_step s (s\<lparr>ms_public_down := True\<rparr>)"
| down_admin: "shutting_down s \<Longrightarrow> \<not> ms_admin_down s \<Longrightarrow> server_down_step s (s\<lparr>ms_admin_down := True\<rparr>)"
| down_stream: "ctxt \<in> subscriptions (ms_service s) \<Longrightarrow> ctxt \<in> cancelled (ms_service s) \<Longrightarrow>
    server_down_step s (s\<lparr>ms_service := UnregisterSubscription ctxt (ms_service s)\<rparr>)"

text \<open>The main thread.\<close>

inductive main_step :: "main_state \<Rightarrow> main_state \<Rightarrow> bool" where
  main_serve: "ms_main s = MainServe \<Longrightarrow> ms_public_down s \<Longrightarrow> main_step s (s\<lparr>ms_main := MainCheck\<rparr>)"
| main_check: "ms_main s = MainCheck \<Longrightarrow>
    main_step s (s\<lparr>ms_main := (if shutdown_initiated s then MainFlag else MainStop)\<rparr>)"
| main_stop: "ms_main s = MainStop \<Longrightarrow>
    main_step s (s\<lparr>ms_main := MainAdmin, ms_service := StopSubscriptions (ms_service s)\<rparr>)"
| main_admin: "ms_main s = MainAdmin \<Longrightarrow> main_step s (s\<lparr>ms_main := MainFlag, ms_admin_down := True\<rparr>)"
| main_flag: "ms_main s = MainFlag \<Longrightarrow> main_step s (s\<lparr>ms_main := MainKill, stop_shutdown_threads := True\<rparr>)"
| main_kill: "ms_main s = MainKill \<Longrightarrow>
    main_step s (s\<lparr>ms_main := MainJoinAdmin, ms_signal_pending := ms_signal_pending s \<or> \<not> shutdown_signal_received s\<rparr>)"
| main_join_admin: "ms_main s = MainJoinAdmin \<Longrightarrow> ms_admin_down s \<Longrightarrow> main_step s (s\<lparr>ms_main := MainJoinSignal\<rparr>)"
| main_join_signal: "ms_main s = MainJoinSignal \<Longrightarrow> ms_signal s = SigDone \<Longrightarrow> main_step s (s\<lparr>ms_main := MainJoinFatal\<rparr>)"
| main_join_fatal: "ms_main s = MainJoinFatal \<Longrightarrow> ms_fatal_thread s = FatDone \<Longrightarrow>
    main_step s (s\<lparr>ms_main := MainExit (if fatal_storage_error s then 1 else 0)\<rparr>)"

text \<open>What happens from outside: a signal, a call of the handler, streams that begin and end, and a failing
  \<^verbatim>\<open>sigwait\<close>.\<close>

definition exited :: "main_state \<Rightarrow> bool" where
  "exited s \<longleftrightarrow> ms_main s \<in> range MainExit"

inductive outside_step :: "main_state \<Rightarrow> main_state \<Rightarrow> bool" where
  out_signal: "outside_step s (s\<lparr>ms_signal_pending := True\<rparr>)"
| out_fatal: "\<not> exited s \<Longrightarrow> outside_step s (s\<lparr>fatal_storage_error := True\<rparr>)"
| out_sigwait: "ms_signal s = SigWait \<Longrightarrow> outside_step s (s\<lparr>ms_signal := SigDone\<rparr>)"
| out_subscribe: "\<not> ms_public_down s \<Longrightarrow> RegisterSubscription ctxt (ms_service s) = (b, v) \<Longrightarrow>
    outside_step s (s\<lparr>ms_service := v\<rparr>)"
| out_leave: "ctxt \<in> subscriptions (ms_service s) \<Longrightarrow>
    outside_step s (s\<lparr>ms_service := UnregisterSubscription ctxt (ms_service s)\<rparr>)"

definition own_step :: "main_state \<Rightarrow> main_state \<Rightarrow> bool" where
  "own_step s t \<longleftrightarrow> main_step s t \<or> signal_step s t \<or> fatal_step s t \<or> server_down_step s t"

definition process_step :: "main_state \<Rightarrow> main_state \<Rightarrow> bool" where
  "process_step s t \<longleftrightarrow> own_step s t \<or> outside_step s t"

section \<open>The invariant\<close>

text \<open>How many threads have won the exchange and are before, or in, the second part of
  \<^verbatim>\<open>shutdown_servers\<close>.\<close>

definition about_to_stop :: "main_state \<Rightarrow> nat" where
  "about_to_stop s = (if ms_signal s = SigStop then 1 else 0) + (if ms_fatal_thread s = FatStop then 1 else 0)"

definition in_shutdown :: "main_state \<Rightarrow> nat" where
  "in_shutdown s = (if ms_signal s = SigShutdown then 1 else 0) + (if ms_fatal_thread s = FatShutdown then 1 else 0)"

definition once_ok :: "main_state \<Rightarrow> bool" where
  "once_ok s \<longleftrightarrow> ms_shutdowns s + about_to_stop s = (if shutdown_initiated s then 1 else 0) \<and>
     in_shutdown s \<le> ms_shutdowns s \<and>
     (ms_shutdowns s = 1 \<and> in_shutdown s = 0 \<longrightarrow> ms_public_down s \<and> ms_admin_down s)"

definition streams_ok :: "main_state \<Rightarrow> bool" where
  "streams_ok s \<longleftrightarrow> finite (subscriptions (ms_service s)) \<and>
     (ms_shutdowns s = 1 \<longrightarrow> subscriptions_stopping (ms_service s)) \<and>
     (subscriptions_stopping (ms_service s) \<longrightarrow> subscriptions (ms_service s) \<subseteq> cancelled (ms_service s)) \<and>
     (ms_public_down s \<longrightarrow> ms_shutdowns s = 1 \<and> subscriptions (ms_service s) = {}) \<and>
     (ms_admin_down s \<longrightarrow> ms_shutdowns s = 1)"

fun main_ok :: "main_pc \<Rightarrow> main_state \<Rightarrow> bool" where
  "main_ok MainServe s \<longleftrightarrow> \<not> stop_shutdown_threads s"
| "main_ok MainCheck s \<longleftrightarrow> ms_public_down s \<and> \<not> stop_shutdown_threads s"
| "main_ok MainStop s \<longleftrightarrow> False"
| "main_ok MainAdmin s \<longleftrightarrow> False"
| "main_ok MainFlag s \<longleftrightarrow> ms_public_down s \<and> \<not> stop_shutdown_threads s"
| "main_ok MainKill s \<longleftrightarrow> ms_public_down s \<and> stop_shutdown_threads s"
| "main_ok MainJoinAdmin s \<longleftrightarrow> ms_public_down s \<and> stop_shutdown_threads s \<and> (ms_signal s = SigWait \<longrightarrow> ms_signal_pending s)"
| "main_ok MainJoinSignal s \<longleftrightarrow> ms_public_down s \<and> ms_admin_down s \<and> stop_shutdown_threads s \<and>
     (ms_signal s = SigWait \<longrightarrow> ms_signal_pending s)"
| "main_ok MainJoinFatal s \<longleftrightarrow> ms_public_down s \<and> ms_admin_down s \<and> stop_shutdown_threads s \<and> ms_signal s = SigDone"
| "main_ok (MainExit n) s \<longleftrightarrow> ms_public_down s \<and> ms_admin_down s \<and> ms_signal s = SigDone \<and> ms_fatal_thread s = FatDone \<and>
     n = (if fatal_storage_error s then 1 else 0)"

definition threads_ok :: "main_state \<Rightarrow> bool" where
  "threads_ok s \<longleftrightarrow> main_ok (ms_main s) s \<and>
     (shutdown_signal_received s \<longrightarrow> ms_signal s \<notin> {SigWait, SigStore}) \<and>
     (ms_fatal_thread s = FatCheck \<longrightarrow> fatal_storage_error s \<or> shutdown_initiated s) \<and>
     (ms_fatal_thread s = FatDone \<longrightarrow> shutdown_initiated s) \<and>
     (stop_shutdown_threads s \<longrightarrow> ms_public_down s)"

definition process_ok :: "main_state \<Rightarrow> bool" where
  "process_ok s \<longleftrightarrow> once_ok s \<and> streams_ok s \<and> threads_ok s"

lemma main_ok_mono:
  assumes "main_ok pc s" and "ms_public_down s \<Longrightarrow> ms_public_down t" and "ms_admin_down s \<Longrightarrow> ms_admin_down t"
    and "stop_shutdown_threads t = stop_shutdown_threads s" and "ms_signal s = SigDone \<Longrightarrow> ms_signal t = SigDone"
    and "ms_signal t = SigWait \<Longrightarrow> ms_signal s = SigWait \<and> (ms_signal_pending s \<longrightarrow> ms_signal_pending t)"
    and "ms_fatal_thread s = FatDone \<Longrightarrow> ms_fatal_thread t = FatDone"
    and "fatal_storage_error t = fatal_storage_error s \<or> pc \<notin> range MainExit"
  shows "main_ok pc t"
  using assms by (cases pc) auto

lemmas once_defs = once_ok_def about_to_stop_def in_shutdown_def
lemmas service_defs = StopSubscriptions_def UnregisterSubscription_def RegisterSubscription_def
lemmas exchange_defs = signal_exchange_def fatal_exchange_def

text \<open>Who may initiate: as long as nobody has, no server is down and no shutdown has run.\<close>

lemma not_initiated:
  assumes "once_ok s" and "\<not> shutdown_initiated s"
  shows "ms_shutdowns s = 0" "ms_signal s \<noteq> SigStop" "ms_fatal_thread s \<noteq> FatStop" "ms_signal s \<noteq> SigShutdown"
    "ms_fatal_thread s \<noteq> FatShutdown"
  using assms by (auto simp: once_defs split: if_splits)

lemma stopping_alone:
  assumes "once_ok s"
  shows "ms_signal s = SigStop \<Longrightarrow> ms_shutdowns s = 0 \<and> ms_fatal_thread s \<notin> {FatStop, FatShutdown} \<and> shutdown_initiated s"
    and "ms_fatal_thread s = FatStop \<Longrightarrow> ms_shutdowns s = 0 \<and> ms_signal s \<notin> {SigStop, SigShutdown} \<and> shutdown_initiated s"
    and "shutting_down s \<Longrightarrow> ms_shutdowns s = 1 \<and> shutdown_initiated s"
  using assms by (auto simp: once_defs shutting_down_def split: if_splits)

lemma signal_step_ok:
  assumes step: "signal_step s t" and ok: "process_ok s"
  shows "process_ok t"
proof -
  have once: "once_ok s" and strm: "streams_ok s" and thr: "threads_ok s" using ok by (simp_all add: process_ok_def)
  note alone = stopping_alone [OF once] and free = not_initiated [OF once]
  have main: "main_ok (ms_main s) s" using thr by (simp add: threads_ok_def)
  have "main_ok (ms_main s) t" using step
    by cases (rule main_ok_mono [OF main]; simp add: exchange_defs split: if_splits)+
  with step thr have "threads_ok t" by cases (simp_all add: threads_ok_def exchange_defs)
  moreover have "once_ok t" using step
  proof cases
    case (sig_exchange fatal)
    with once free show ?thesis by (cases "shutdown_initiated s") (simp_all add: once_defs exchange_defs)
  next
    case sig_stop
    with once alone(1) show ?thesis by (auto simp: once_defs)
  qed (use once in \<open>simp_all add: once_defs\<close>)
  moreover have "streams_ok t" using step
  proof cases
    case sig_stop
    with strm alone(1) show ?thesis by (auto simp: streams_ok_def service_defs)
  qed (use strm in \<open>simp_all add: streams_ok_def exchange_defs\<close>)
  ultimately show ?thesis by (simp add: process_ok_def)
qed

lemma fatal_step_ok:
  assumes step: "fatal_step s t" and ok: "process_ok s"
  shows "process_ok t"
proof -
  have once: "once_ok s" and strm: "streams_ok s" and thr: "threads_ok s" using ok by (simp_all add: process_ok_def)
  note alone = stopping_alone [OF once] and free = not_initiated [OF once]
  have main: "main_ok (ms_main s) s" using thr by (simp add: threads_ok_def)
  have main': "main_ok (ms_main s) t" using step
    by cases (rule main_ok_mono [OF main]; simp add: exchange_defs split: if_splits)+
  have stop: "stop_shutdown_threads s \<Longrightarrow> shutdown_initiated s"
    using thr strm once by (auto simp: threads_ok_def streams_ok_def once_ok_def split: if_splits)
  have shut: "ms_fatal_thread s = FatShutdown \<Longrightarrow> shutdown_initiated s" using alone(3) by (simp add: shutting_down_def)
  have "threads_ok t" using step
    by cases (use main' thr stop shut in \<open>auto simp: threads_ok_def exchange_defs\<close>)
  moreover have "once_ok t" using step
  proof cases
    case fat_exchange
    with once free show ?thesis by (cases "shutdown_initiated s") (simp_all add: once_defs exchange_defs)
  next
    case fat_stop
    with once alone(2) show ?thesis by (auto simp: once_defs)
  next
    case fat_check
    with once show ?thesis by (cases "fatal_storage_error s"; simp add: once_defs)
  qed (use once in \<open>simp_all add: once_defs\<close>)
  moreover have "streams_ok t" using step
  proof cases
    case fat_stop
    with strm alone(2) show ?thesis by (auto simp: streams_ok_def service_defs)
  qed (use strm in \<open>simp_all add: streams_ok_def exchange_defs\<close>)
  ultimately show ?thesis by (simp add: process_ok_def)
qed

lemma server_down_step_ok:
  assumes step: "server_down_step s t" and ok: "process_ok s"
  shows "process_ok t"
proof -
  have once: "once_ok s" and strm: "streams_ok s" and thr: "threads_ok s" using ok by (simp_all add: process_ok_def)
  note alone = stopping_alone [OF once]
  have main: "main_ok (ms_main s) s" using thr by (simp add: threads_ok_def)
  have "main_ok (ms_main s) t" using step
    by cases (rule main_ok_mono [OF main]; simp)+
  with step thr have "threads_ok t" by cases (simp_all add: threads_ok_def)
  moreover have "once_ok t" using step by cases (use once in \<open>auto simp: once_defs shutting_down_def\<close>)
  moreover have "streams_ok t" using step
    by cases (use strm alone(3) in \<open>auto simp: streams_ok_def service_defs\<close>)
  ultimately show ?thesis by (simp add: process_ok_def)
qed

lemma outside_step_ok:
  assumes step: "outside_step s t" and ok: "process_ok s"
  shows "process_ok t"
proof -
  have once: "once_ok s" and strm: "streams_ok s" and thr: "threads_ok s" using ok by (simp_all add: process_ok_def)
  have main: "main_ok (ms_main s) s" using thr by (simp add: threads_ok_def)
  have "main_ok (ms_main s) t" using step
    by cases (rule main_ok_mono [OF main]; simp add: exited_def)+
  with step thr have "threads_ok t" by cases (simp_all add: threads_ok_def)
  moreover have "once_ok t" using step by cases (use once in \<open>simp_all add: once_defs\<close>)
  moreover have "streams_ok t" using step
    by cases (use strm in \<open>auto simp: streams_ok_def service_defs split: if_splits\<close>)
  ultimately show ?thesis by (simp add: process_ok_def)
qed

lemma main_step_ok:
  assumes step: "main_step s t" and ok: "process_ok s"
  shows "process_ok t"
proof -
  have once: "once_ok s" and strm: "streams_ok s" and thr: "threads_ok s" using ok by (simp_all add: process_ok_def)
  have live: "ms_main s \<noteq> MainStop" "ms_main s \<noteq> MainAdmin" using thr by (auto simp: threads_ok_def)
  have init: "ms_public_down s \<Longrightarrow> shutdown_initiated s"
    using strm once by (auto simp: streams_ok_def once_ok_def split: if_splits)
  have "threads_ok t" using step
  proof cases
    case main_kill
    with thr show ?thesis by (auto simp: threads_ok_def)
  qed (use thr live init in \<open>simp_all add: threads_ok_def\<close>)
  moreover have "once_ok t" using step by cases (use once live in \<open>simp_all add: once_defs\<close>)
  moreover have "streams_ok t" using step by cases (use strm live in \<open>simp_all add: streams_ok_def\<close>)
  ultimately show ?thesis by (simp add: process_ok_def)
qed

lemma process_reachable:
  assumes "process_step\<^sup>*\<^sup>* main_init s"
  shows "process_ok s"
  using assms
proof induction
  case base
  show ?case by (simp add: process_ok_def once_defs streams_ok_def threads_ok_def main_init_def)
next
  case (step s t)
  then show ?case unfolding process_step_def own_step_def
    using main_step_ok signal_step_ok fatal_step_ok server_down_step_ok outside_step_ok by blast
qed

section \<open>Progress\<close>

fun main_rank :: "main_pc \<Rightarrow> nat" where
  "main_rank MainServe = 9" | "main_rank MainCheck = 8" | "main_rank MainStop = 7" | "main_rank MainAdmin = 6"
| "main_rank MainFlag = 5" | "main_rank MainKill = 4" | "main_rank MainJoinAdmin = 3" | "main_rank MainJoinSignal = 2"
| "main_rank MainJoinFatal = 1" | "main_rank (MainExit n) = 0"

fun signal_rank :: "signal_pc \<Rightarrow> nat" where
  "signal_rank SigWait = 6" | "signal_rank SigStore = 5" | "signal_rank SigLoad = 4" | "signal_rank (SigExchange b) = 3"
| "signal_rank SigStop = 2" | "signal_rank SigShutdown = 1" | "signal_rank SigDone = 0"

fun fatal_rank :: "fatal_pc \<Rightarrow> nat" where
  "fatal_rank FatWait = 5" | "fatal_rank FatCheck = 4" | "fatal_rank FatExchange = 3" | "fatal_rank FatStop = 2"
| "fatal_rank FatShutdown = 1" | "fatal_rank FatDone = 0"

definition process_rank :: "main_state \<Rightarrow> nat" where
  "process_rank s = main_rank (ms_main s) + signal_rank (ms_signal s) + fatal_rank (ms_fatal_thread s) +
     (if ms_public_down s then 0 else 1) + (if ms_admin_down s then 0 else 1) + card (subscriptions (ms_service s))"

lemma own_step_rank:
  assumes "own_step s t" and "process_ok s"
  shows "process_rank t < process_rank s"
proof -
  have fin: "finite (subscriptions (ms_service s))" using assms(2) by (simp add: process_ok_def streams_ok_def)
  have "main_step s t \<Longrightarrow> ?thesis"
    by (cases rule: main_step.cases, assumption) (simp_all add: process_rank_def service_defs)
  moreover have "signal_step s t \<Longrightarrow> ?thesis"
    by (cases rule: signal_step.cases, assumption) (simp_all add: process_rank_def service_defs exchange_defs)
  moreover have "fatal_step s t \<Longrightarrow> ?thesis"
    by (cases rule: fatal_step.cases, assumption) (simp_all add: process_rank_def service_defs exchange_defs)
  moreover have ?thesis if "server_down_step s t"
    using that
  proof cases
    case (down_stream ctxt)
    with card_Diff1_less [OF fin] show ?thesis by (simp add: process_rank_def service_defs del: card_Diff_singleton)
  qed (simp_all add: process_rank_def)
  ultimately show ?thesis using assms(1) unfolding own_step_def by blast
qed

text \<open>A reason to stop: a shutdown has been initiated, a fatal error has been reported, or a signal is there to be
  received.\<close>

definition begun :: "main_state \<Rightarrow> bool" where
  "begun s \<longleftrightarrow> shutdown_initiated s \<or> fatal_storage_error s \<or> ms_signal s = SigWait \<and> ms_signal_pending s \<or>
     ms_signal s \<in> {SigStore, SigLoad} \<union> range SigExchange"

lemma begun_own_step:
  assumes "own_step s t" and "begun s"
  shows "begun t"
proof -
  have "main_step s t \<Longrightarrow> begun t" using assms(2) by (auto simp: begun_def elim!: main_step.cases)
  moreover have "signal_step s t \<Longrightarrow> begun t" using assms(2) by (auto simp: begun_def exchange_defs elim!: signal_step.cases)
  moreover have "fatal_step s t \<Longrightarrow> begun t" using assms(2) by (auto simp: begun_def exchange_defs elim!: fatal_step.cases)
  moreover have "server_down_step s t \<Longrightarrow> begun t" using assms(2) by (auto simp: begun_def elim!: server_down_step.cases)
  ultimately show ?thesis using assms(1) unfolding own_step_def by blast
qed

lemma shutdown_moves:
  assumes "process_ok s" and "shutting_down s"
  shows "\<exists>t. own_step s t"
proof -
  have once: "once_ok s" and strm: "streams_ok s" using assms(1) by (simp_all add: process_ok_def)
  have all: "subscriptions (ms_service s) \<subseteq> cancelled (ms_service s)"
    using strm stopping_alone(3) [OF once assms(2)] by (auto simp: streams_ok_def)
  consider "\<not> ms_admin_down s" | "\<not> ms_public_down s" "subscriptions (ms_service s) = {}"
    | ctxt where "ctxt \<in> subscriptions (ms_service s)" | "ms_public_down s" "ms_admin_down s" by blast
  then show ?thesis
  proof cases
    case 1
    with down_admin [OF assms(2)] show ?thesis unfolding own_step_def by blast
  next
    case 2
    with down_public [OF assms(2)] show ?thesis unfolding own_step_def by blast
  next
    case 3
    with down_stream [of ctxt s] all show ?thesis unfolding own_step_def by blast
  next
    case 4
    with assms(2) sig_join [of s] fat_join [of s] show ?thesis unfolding own_step_def shutting_down_def by blast
  qed
qed

lemma own_main: "main_step s t \<Longrightarrow> \<exists>t. own_step s t"
  by (auto simp: own_step_def)

lemma main_moves:
  assumes "process_ok s" and "ms_public_down s" and "ms_admin_down s" and "\<not> exited s"
    and "ms_signal s \<in> {SigWait, SigDone}" and "ms_fatal_thread s \<in> {FatWait, FatDone}"
  shows "\<exists>t. own_step s t"
proof (cases "ms_main s")
  case MainJoinSignal
  show ?thesis
  proof (cases "ms_signal s = SigDone")
    case True
    with main_join_signal [OF MainJoinSignal] show ?thesis unfolding own_step_def by blast
  next
    case False
    then have "ms_signal s = SigWait" "ms_signal_pending s"
      using assms(1,5) MainJoinSignal by (auto simp: process_ok_def threads_ok_def)
    with sig_recv show ?thesis unfolding own_step_def by blast
  qed
next
  case MainJoinFatal
  show ?thesis
  proof (cases "ms_fatal_thread s = FatDone")
    case True
    with main_join_fatal [OF MainJoinFatal] show ?thesis unfolding own_step_def by blast
  next
    case False
    then have "ms_fatal_thread s = FatWait" "stop_shutdown_threads s"
      using assms(1,6) MainJoinFatal by (auto simp: process_ok_def threads_ok_def)
    with fat_wake show ?thesis unfolding own_step_def by blast
  qed
next
  case (MainExit n)
  with assms(4) show ?thesis by (simp add: exited_def)
qed (use assms(2,3) in \<open>blast intro: own_main main_serve main_check main_stop main_admin main_flag main_kill main_join_admin\<close>)+

lemma begun_moves:
  assumes ok: "process_ok s" and "begun s" and "\<not> exited s"
  shows "\<exists>t. own_step s t"
proof -
  have once: "once_ok s" and thr: "threads_ok s" using ok by (simp_all add: process_ok_def)
  consider (sig) "ms_signal s \<in> {SigStore, SigLoad, SigStop} \<union> range SigExchange"
    | (fat) "ms_fatal_thread s \<in> {FatCheck, FatExchange, FatStop}" | (shut) "shutting_down s"
    | (recv) "ms_signal s = SigWait" "ms_signal_pending s" | (wake) "ms_fatal_thread s = FatWait" "fatal_storage_error s"
    | (rest) "ms_signal s \<in> {SigWait, SigDone}" "ms_fatal_thread s \<in> {FatWait, FatDone}"
        "ms_signal s = SigWait \<longrightarrow> \<not> ms_signal_pending s" "fatal_storage_error s \<longrightarrow> ms_fatal_thread s = FatDone"
    unfolding shutting_down_def by (cases "ms_signal s"; cases "ms_fatal_thread s"; simp; blast)
  then show ?thesis
  proof cases
    case sig
    then show ?thesis using sig_store sig_load sig_exchange sig_stop unfolding own_step_def by blast
  next
    case fat
    then show ?thesis using fat_check fat_exchange fat_stop unfolding own_step_def by blast
  next
    case shut
    then show ?thesis by (rule shutdown_moves [OF ok])
  next
    case recv
    then show ?thesis using sig_recv unfolding own_step_def by blast
  next
    case wake
    then show ?thesis using fat_wake unfolding own_step_def by blast
  next
    case rest
    then have "shutdown_initiated s" using assms(2) thr by (auto simp: begun_def threads_ok_def)
    moreover have "about_to_stop s = 0" "in_shutdown s = 0" using rest(1,2) by (auto simp: about_to_stop_def in_shutdown_def)
    ultimately have "ms_public_down s" "ms_admin_down s" using once by (auto simp: once_ok_def)
    then show ?thesis using rest(1,2) assms(3) by (intro main_moves [OF ok])
  qed
qed

lemma process_ok_own: "process_ok s \<Longrightarrow> own_step s t \<Longrightarrow> process_ok t"
  unfolding own_step_def using main_step_ok signal_step_ok fatal_step_ok server_down_step_ok by blast

lemma begun_exits: "process_ok s \<Longrightarrow> begun s \<Longrightarrow> \<exists>t. own_step\<^sup>*\<^sup>* s t \<and> exited t"
proof (induction "process_rank s" arbitrary: s rule: less_induct)
  case less
  show ?case
  proof (cases "exited s")
    case False
    then obtain t where t: "own_step s t" using begun_moves less.prems by blast
    from less.hyps [OF own_step_rank [OF t less.prems(1)] process_ok_own [OF less.prems(1) t] begun_own_step [OF t less.prems(2)]]
    show ?thesis using t by (meson converse_rtranclp_into_rtranclp)
  qed blast
qed

section \<open>Properties\<close>

text \<open>
  C27: The servers are shut down at most once, whichever thread wins, and the process exits only with both servers
  down, every stream gone and both threads finished; its exit code is 1 if a fatal storage error was reported
  and 0 otherwise.
\<close>

theorem shutdown_once_and_exit:
  assumes "process_step\<^sup>*\<^sup>* main_init s"
  shows "ms_shutdowns s \<le> 1 \<and>
    (\<forall>n. ms_main s = MainExit n \<longrightarrow> n = (if fatal_storage_error s then 1 else 0) \<and> ms_shutdowns s = 1 \<and>
       ms_public_down s \<and> ms_admin_down s \<and> subscriptions (ms_service s) = {} \<and>
       ms_signal s = SigDone \<and> ms_fatal_thread s = FatDone)"
proof -
  have ok: "process_ok s" by (rule process_reachable [OF assms])
  then have "ms_shutdowns s \<le> 1" by (auto simp: process_ok_def once_ok_def split: if_splits)
  moreover have "n = (if fatal_storage_error s then 1 else 0) \<and> ms_public_down s \<and> ms_admin_down s \<and>
      ms_signal s = SigDone \<and> ms_fatal_thread s = FatDone" if "ms_main s = MainExit n" for n
    using ok that by (simp add: process_ok_def threads_ok_def)
  moreover have "ms_public_down s \<Longrightarrow> ms_shutdowns s = 1 \<and> subscriptions (ms_service s) = {}"
    using ok by (simp add: process_ok_def streams_ok_def)
  ultimately show ?thesis by blast
qed

text \<open>
  C28: Once there is a reason to stop, the process comes to its end: it is never stuck before it has exited, every
  step of its own brings it closer to the exit, and in every state it can still reach the exit by its own steps.
\<close>

theorem shutdown_completes:
  assumes "process_step\<^sup>*\<^sup>* main_init s" and "begun s"
  shows "(\<exists>t. own_step\<^sup>*\<^sup>* s t \<and> exited t) \<and> (\<not> exited s \<longrightarrow> (\<exists>t. own_step s t)) \<and>
    (\<forall>t. own_step s t \<longrightarrow> process_rank t < process_rank s \<and> begun t)"
proof -
  have ok: "process_ok s" by (rule process_reachable [OF assms(1)])
  from begun_exits [OF ok assms(2)] begun_moves [OF ok assms(2)] own_step_rank [OF _ ok] begun_own_step [OF _ assms(2)]
  show ?thesis by blast
qed

text \<open>A fatal error is reported while the server is idle.\<close>

definition ref_failed :: main_state where
  "ref_failed = main_init\<lparr>fatal_storage_error := True\<rparr>"

lemma ref_failed_reach: "process_step\<^sup>*\<^sup>* main_init ref_failed"
proof -
  have "outside_step main_init ref_failed"
    unfolding ref_failed_def by (rule out_fatal) (auto simp: exited_def main_init_def)
  then show ?thesis by (auto simp: process_step_def)
qed

theorem shutdown_completes_witness: "\<exists>t. own_step\<^sup>*\<^sup>* ref_failed t \<and> exited t"
proof -
  have "begun ref_failed" by (simp add: begun_def ref_failed_def)
  from shutdown_completes [OF ref_failed_reach this] show ?thesis by blast
qed

theorem shutdown_once_and_exit_witness:
  "\<exists>s. process_step\<^sup>*\<^sup>* main_init s \<and> ms_main s = MainExit 1 \<and> ms_shutdowns s = 1"
proof -
  have "begun ref_failed" by (simp add: begun_def ref_failed_def)
  from begun_exits [OF process_reachable [OF ref_failed_reach] this]
  obtain s where s: "own_step\<^sup>*\<^sup>* ref_failed s" "exited s" by blast
  have keep: "fatal_storage_error t" if "own_step\<^sup>*\<^sup>* ref_failed t" for t
    using that
  proof induction
    case base
    show ?case by (simp add: ref_failed_def)
  next
    case (step t u)
    then show ?case unfolding own_step_def
      by (auto simp: exchange_defs elim!: main_step.cases signal_step.cases fatal_step.cases server_down_step.cases)
  qed
  have "own_step\<^sup>*\<^sup>* \<le> process_step\<^sup>*\<^sup>*" by (rule rtranclp_mono) (auto simp: process_step_def)
  with s(1) have reach: "process_step\<^sup>*\<^sup>* main_init s" using rtranclp_trans [OF ref_failed_reach] by blast
  from s(2) obtain n where n: "ms_main s = MainExit n" by (auto simp: exited_def)
  from shutdown_once_and_exit [OF reach] n keep [OF s(1)] reach show ?thesis by auto
qed

end
