(* ===== verification/Stored_Cells.thy ===== *)
theory Stored_Cells
  imports Server_Invariant
begin

text \<open>
  The database cell by cell: whatever the server writes, every key has a form the server can decode and every value
  can be parsed. Together with the invariants of the log this is what the reads of the server rely on.
\<close>

section \<open>The cells of the database\<close>

definition counter_keys :: "bytes set" where
  "counter_keys = {kMaxSeqKey, kNextUuidKey, kNextChannelIdKey, kNextObjectIdKey}"

definition number_cells :: "bytes set" where
  "number_cells = counter_keys \<union> range (NumericKey kUuidPrefix)"

text \<open>What may stand under a key: numbers are encoded numbers, channels, messages and object records parse, a
  credential has no value, and the three prefixes the server iterates over are followed by a number.\<close>

fun cell_ok :: "proto \<Rightarrow> cf \<Rightarrow> bytes \<Rightarrow> bytes \<Rightarrow> bool" where
  "cell_ok P Meta k v \<longleftrightarrow> (k \<in> number_cells \<longrightarrow> v \<in> range EncodeUint64) \<and>
     (prefix kChannelPrefix k \<longrightarrow> k \<in> range (NumericKey kChannelPrefix) \<and> channel_ParseFromString P v \<noteq> None) \<and>
     (\<forall>p t. k = TokenKey p t \<longrightarrow> v = [])"
| "cell_ok P Messages k v \<longleftrightarrow> k \<in> range (NumericKey kMessagePrefix) \<and> message_ParseFromString P v \<noteq> None"
| "cell_ok P Objects k v \<longleftrightarrow> k \<in> range (NumericKey kPreparingObjectPrefix) \<union> range (NumericKey kCommittedObjectPrefix) \<and>
     record_ParseFromString P v \<noteq> None"

text \<open>The schema version and the counters are there, and every cell is well formed.\<close>

definition well_encoded :: "proto \<Rightarrow> kv \<Rightarrow> bool" where
  "well_encoded P m \<longleftrightarrow> m (Meta, kSchemaVersionKey) = Some (EncodeUint64 kSchemaVersion) \<and>
     (\<forall>k \<in> counter_keys. m (Meta, k) \<noteq> None) \<and> (\<forall>c k v. m (c, k) = Some v \<longrightarrow> cell_ok P c k v)"

fun keeps_cells :: "proto \<Rightarrow> write_op \<Rightarrow> bool" where
  "keeps_cells P (Put c k v) \<longleftrightarrow> (c, k) \<noteq> (Meta, kSchemaVersionKey) \<and> cell_ok P c k v"
| "keeps_cells P (Delete c k) \<longleftrightarrow> c = Meta \<longrightarrow> k \<noteq> kSchemaVersionKey \<and> k \<notin> counter_keys"

lemma intact_write: "keeps_cells P w \<Longrightarrow> well_encoded P m \<Longrightarrow> well_encoded P (apply_write w m)"
  by (cases w) (auto simp: well_encoded_def)

lemma intact_batch: "list_all (keeps_cells P) b \<Longrightarrow> well_encoded P m \<Longrightarrow> well_encoded P (apply_batch b m)"
  by (induction b arbitrary: m) (auto intro: intact_write)

lemma well_encoded_cell: "well_encoded P m \<Longrightarrow> m (c, k) = Some v \<Longrightarrow> cell_ok P c k v"
  by (simp add: well_encoded_def del: cell_ok.simps)

lemma number_cell: "well_encoded P m \<Longrightarrow> k \<in> number_cells \<Longrightarrow> m (Meta, k) = Some b \<Longrightarrow> b = EncodeUint64 (DecodeUint64 b)"
  using well_encoded_cell [of P m Meta k b] unfolding cell_ok.simps(1) by (metis be64.dec_enc imageE)

lemma counter_cell: "well_encoded P m \<Longrightarrow> k \<in> counter_keys \<Longrightarrow> m (Meta, k) = Some (EncodeUint64 (counter_at m k))"
  using number_cell [of P m k] by (fastforce simp: well_encoded_def number_cells_def counter_at_def)

lemma cells_apart [simp]:
  "NumericKey kChannelPrefix i \<notin> number_cells" "TokenKey p t \<notin> number_cells" "TokenKey p t \<notin> counter_keys"
  "kSchemaVersionKey \<notin> number_cells"
  by (auto simp: number_cells_def counter_keys_def)

lemma channel_prefix_apart [simp]:
  "\<not> prefix kChannelPrefix kMaxSeqKey" "\<not> prefix kChannelPrefix kNextUuidKey" "\<not> prefix kChannelPrefix kNextChannelIdKey"
  "\<not> prefix kChannelPrefix kNextObjectIdKey" "\<not> prefix kChannelPrefix kSchemaVersionKey"
  "\<not> prefix kChannelPrefix (NumericKey kUuidPrefix u)" "\<not> prefix kChannelPrefix (TokenKey p t)"
  by (simp_all add: key_constants NumericKey_def TokenKey_def)

lemma schema_apart [simp]:
  "kMaxSeqKey \<noteq> kSchemaVersionKey" "kNextUuidKey \<noteq> kSchemaVersionKey" "kNextChannelIdKey \<noteq> kSchemaVersionKey"
  "kNextObjectIdKey \<noteq> kSchemaVersionKey" "NumericKey kUuidPrefix u \<noteq> kSchemaVersionKey"
  "NumericKey kChannelPrefix i \<noteq> kSchemaVersionKey" "TokenKey p t \<noteq> kSchemaVersionKey"
  by simp_all

text \<open>What the writers of the storage put into a batch is well formed.\<close>

lemma number_writers_keep [simp]:
  "cell_ok P Meta kMaxSeqKey (EncodeUint64 v)" "cell_ok P Meta kNextUuidKey (EncodeUint64 v)"
  "cell_ok P Meta kNextChannelIdKey (EncodeUint64 v)" "cell_ok P Meta kNextObjectIdKey (EncodeUint64 v)"
  "cell_ok P Meta (NumericKey kUuidPrefix u) (EncodeUint64 v)" "cell_ok P Meta (TokenKey p t) []"
  by auto

lemmas writer_defs = SetMaxSeq_def SetNextUuid_def PutUsedUuid_def SetNextChannelId_def SetNextObjectId_def
  PutMessage_def PutChannel_def PutToken_def DeleteToken_def PutPreparingObject_def PutCommittedObject_def
  DeletePreparingObject_def

lemma number_writers:
  "SetMaxSeq b v = Inr b' \<Longrightarrow> list_all (keeps_cells P) b' \<longleftrightarrow> list_all (keeps_cells P) b"
  "SetNextUuid b v = Inr b' \<Longrightarrow> list_all (keeps_cells P) b' \<longleftrightarrow> list_all (keeps_cells P) b"
  "PutUsedUuid b u v = Inr b' \<Longrightarrow> list_all (keeps_cells P) b' \<longleftrightarrow> list_all (keeps_cells P) b"
  "SetNextChannelId b v = Inr b' \<Longrightarrow> list_all (keeps_cells P) b' \<longleftrightarrow> list_all (keeps_cells P) b"
  "SetNextObjectId b v = Inr b' \<Longrightarrow> list_all (keeps_cells P) b' \<longleftrightarrow> list_all (keeps_cells P) b"
  "PutToken b p t = Inr b' \<Longrightarrow> list_all (keeps_cells P) b' \<longleftrightarrow> list_all (keeps_cells P) b"
  "list_all (keeps_cells P) (DeleteToken b p t) \<longleftrightarrow> list_all (keeps_cells P) b"
  "list_all (keeps_cells P) (DeletePreparingObject b v) \<longleftrightarrow> list_all (keeps_cells P) b"
  by (auto simp: writer_defs simp del: cell_ok.simps split: if_splits)

lemma proto_writers:
  assumes "env_laws E"
  shows "PutMessage (proto_lib E) b msg = Inr b' \<Longrightarrow>
      list_all (keeps_cells (proto_lib E)) b' \<longleftrightarrow> list_all (keeps_cells (proto_lib E)) b"
    and "PutChannel (proto_lib E) b ch = Inr b' \<Longrightarrow>
      list_all (keeps_cells (proto_lib E)) b' \<longleftrightarrow> list_all (keeps_cells (proto_lib E)) b"
    and "PutPreparingObject (proto_lib E) b ob = Inr b' \<Longrightarrow>
      list_all (keeps_cells (proto_lib E)) b' \<longleftrightarrow> list_all (keeps_cells (proto_lib E)) b"
    and "PutCommittedObject (proto_lib E) b ob = Inr b' \<Longrightarrow>
      list_all (keeps_cells (proto_lib E)) b' \<longleftrightarrow> list_all (keeps_cells (proto_lib E)) b"
  using proto_lawsD(1-3) [OF env_lawsD(2) [OF assms]]
  by (auto simp: writer_defs SerializeObject_def bind_inv Let_def split: option.splits)

lemmas writers_keep = number_writers proto_writers

section \<open>Every batch of the server keeps them\<close>

abbreviation intact_at :: "('db, 'snap, 'os) env \<Rightarrow> ('db, 'os, 'z) disk_scheme \<Rightarrow> bool" where
  "intact_at E c \<equiv> well_encoded (proto_lib E) (contents E c)"

abbreviation stays_intact :: "('db, 'snap, 'os) env \<Rightarrow> ('db, 'snap, 'os, 'a) core_op \<Rightarrow> ('db, 'snap, 'os) core \<Rightarrow> bool" where
  "stays_intact E m c \<equiv> runs m c (\<lambda>_ c'. intact_at E c') (\<lambda>_ c'. intact_at E c')"

lemma stays_intactD: "stays_intact E m c \<Longrightarrow> m c = (r, c') \<Longrightarrow> intact_at E c'"
  by (cases r) (simp_all add: runs_def)

lemma commit_intact:
  assumes "env_laws E" and "intact_at E c" and "list_all (keeps_cells (proto_lib E)) b"
  shows "stays_intact E (CommitBatch E b) c"
  using assms(2,3)
  by (intro runs_CommitBatch [OF assms(1)]) (auto simp: after_commit_def failed_commit_def intact_batch)

lemma commit_return_intact:
  assumes "env_laws E" and "intact_at E c" and "list_all (keeps_cells (proto_lib E)) b"
  shows "runs (CommitBatch E b) c (\<lambda>_ c1. runs (retM a) c1 (\<lambda>_ c'. intact_at E c') (\<lambda>_ c'. intact_at E c'))
    (\<lambda>_ c'. intact_at E c')"
  using commit_intact [OF assms] by (simp add: runs_def)

lemma publish_batch_intact:
  assumes "env_laws E" and "bindR (PutMessage (proto_lib E) [] msg) (\<lambda>batch. bindR (PutUsedUuid batch uuid seq) (\<lambda>batch. SetMaxSeq batch seq)) = Inr b"
  shows "list_all (keeps_cells (proto_lib E)) b"
  using assms by (auto simp: bind_inv writers_keep)

lemma runs_BuildPublishBatch_intact:
  assumes laws: "env_laws E" and "\<And>b. list_all (keeps_cells (proto_lib E)) b \<Longrightarrow> Q b c" and "\<And>e c'. same_state c c' \<Longrightarrow> R e c'"
  shows "runs (BuildPublishBatch E s prin i seq uuid recipients payload ks ts) c Q R"
  unfolding BuildPublishBatch_def Let_def
  by (intro wp assms(2,3) same_state_refl) (auto intro: publish_batch_intact [OF laws])

lemma channel_batch_intact: "env_laws E \<Longrightarrow> BuildChannelMutationBatch E s ch payload now = Inr b \<Longrightarrow> list_all (keeps_cells (proto_lib E)) b"
  by (auto simp: BuildChannelMutationBatch_def Let_def bind_inv writers_keep)

lemma same_state_intact: "same_state c c' \<Longrightarrow> intact_at E c \<Longrightarrow> intact_at E c'"
  using same_stateD [of c c' E] by simp

lemma channel_handlers_intact:
  assumes "env_laws E" and "intact_at E c"
  shows "stays_intact E (CreateChannel E q now) c"
    and "stays_intact E (AddMember E prin token i target now) c"
    and "stays_intact E (RemoveMember E prin token i target now) c"
    and "stays_intact E (core_DeleteToken E prin token) c"
  unfolding CreateChannel_def AddMember_def RemoveMember_def core_DeleteToken_def Let_def
  by (intro wp commit_return_intact commit_intact assms;
      auto simp: assms writers_keep dest: channel_batch_intact [OF assms(1)])+

lemma publish_handlers_intact:
  assumes "env_laws E" and "intact_at E c"
  shows "stays_intact E (Publish E q now rpc1 rpc2) c"
    and "stays_intact E (PublishAutoSeq E p now rpc1 rpc2) c"
    and "stays_intact E (AllocateUuids E count) c"
  unfolding Publish_def PublishAutoSeq_def AllocateUuids_def Let_def
  by (intro wp commit_return_intact commit_intact assms runs_BuildPublishBatch_intact;
      auto simp: assms writers_keep intro: same_state_intact)+

lemma AddToken_intact:
  assumes laws: "env_laws E" and "intact_at E c" and run: "AddToken E prin c = Some (r, c')"
  shows "intact_at E c'"
proof -
  from run consider "c' = c" | s where "on_os_pop (GenerateToken (posix_api E)) c = Some (Inl s, c')"
    | t c1 where "on_os_pop (GenerateToken (posix_api E)) c = Some (Inr t, c1)"
      "bindM (liftM (PutToken [] prin t)) (\<lambda>batch. bindM (CommitBatch E batch) (\<lambda>_. retM t)) c1 = (r, c')"
    by (cases r; cases "fatal_error_triggered c") (auto simp: AddToken_def bind_inv)
  then show ?thesis
  proof cases
    case 3
    then have "intact_at E c1" using assms(2) by (auto simp: on_os_pop_def split: option.splits)
    then have "stays_intact E (bindM (liftM (PutToken [] prin t)) (\<lambda>batch. bindM (CommitBatch E batch) (\<lambda>_. retM t))) c1"
      by (intro wp commit_return_intact laws) (auto simp: writers_keep)
    with 3(2) show ?thesis by (rule stays_intactD [rotated])
  qed (use assms(2) in \<open>auto simp: on_os_pop_def split: option.splits\<close>)
qed

lemma CleanupPreparingObject_intact:
  fixes E :: "('db, 'snap, 'os) env"
  assumes laws: "env_laws E" and "intact_at E c"
  shows "stays_intact E (CleanupPreparingObject E i s :: ('db, 'snap, 'os, 'a) core_op) c"
proof -
  obtain r1 os1 where cl: "Cleanup (posix_api E) [i] (d_os c) = (r1, os1)" by fastforce
  have "stays_intact E (bindM (CommitBatch E (DeletePreparingObject [] i)) (\<lambda>_. failM s) :: ('db, 'snap, 'os, 'a) core_op)
      (c\<lparr>d_os := os1\<rparr>)"
    using commit_intact [OF laws, of "c\<lparr>d_os := os1\<rparr>" "DeletePreparingObject [] i"] assms(2)
    by (intro wp) (simp add: writer_defs runs_def split: prod.splits sum.splits)
  then show ?thesis
    unfolding CleanupPreparingObject_def
    using cl assms(2) by (intro runs_bindM, cases r1) (auto simp: runs_def classifyM_def CleanupObjectFiles_def on_os_def
        failClassified_def failFatal_def)
qed

lemma WriteObject_prepare_intact: "env_laws E \<Longrightarrow> intact_at E c \<Longrightarrow> stays_intact E (WriteObject_prepare E q t) c"
  unfolding WriteObject_prepare_def Let_def
  by (intro wp commit_return_intact; simp add: writers_keep)

lemma WriteObject_file_intact:
  assumes "env_laws E" and "intact_at E c" and run: "WriteObject_file E q ob c = Some (r, c')"
  shows "intact_at E c'"
proof -
  from run obtain r1 c1 where w: "WriteObjectFile E (so_object_id ob) (wq_data q) c = Some (r1, c1)"
    by (auto simp: WriteObject_file_def split: option.splits)
  then have c1: "intact_at E c1" using assms(2) by (auto simp: WriteObjectFile_def on_os_pop_def split: option.splits)
  show ?thesis
  proof (cases r1)
    case (Inl s)
    with run w have "(if is_fatal s then failFatal E s c1 else CleanupPreparingObject E (so_object_id ob) s c1) = (r, c')"
      by (simp add: WriteObject_file_def)
    then show ?thesis using c1 stays_intactD [OF CleanupPreparingObject_intact [OF assms(1) c1]]
      by (auto simp: failFatal_def split: if_splits)
  qed (use run w c1 in \<open>auto simp: WriteObject_file_def\<close>)
qed

lemma commit_object_intact:
  assumes "env_laws E" and "intact_at E c" and "commit_object E q ob c = (out, c')"
  shows "intact_at E c'"
proof -
  have "intact_at E c1" if "CommitBatch E b c = (r, c1)" "PutCommittedObject (proto_lib E) [] ob = Inr b" for b r c1
    using that by (intro stays_intactD [OF commit_intact [OF assms(1,2)]]) (auto simp: writers_keep assms(1))
  with assms(2,3) show ?thesis
    by (auto simp: commit_object_def Let_def split: sum.splits if_splits option.splits prod.splits)
qed

lemma WriteObject_finish_intact:
  assumes "env_laws E" and "intact_at E c" and run: "WriteObject_finish E q ob c = (r, c')"
  shows "intact_at E c'"
proof -
  obtain out c1 where out: "commit_object E q ob c = (out, c1)" by fastforce
  have "intact_at E c1" by (rule commit_object_intact [OF assms(1,2) out])
  with run out stays_intactD [OF CleanupPreparingObject_intact [OF assms(1)]] show ?thesis
    by (auto simp: WriteObject_finish_def failFatal_def split: write_outcome.splits if_splits)
qed

lemma Recover_intact:
  assumes laws: "env_laws E" and "intact_at E d" and run: "RecoverPreparingObjects E d = (r, d')"
  shows "intact_at E d'"
proof -
  from run consider "d_db d' = d_db d" | ids os1 where "Commit E (foldl DeletePreparingObject [] ids) (d\<lparr>d_os := os1\<rparr>) = (r, d')"
    by (cases r) (auto simp: RecoverPreparingObjects_def bind_inv on_os_def split: prod.splits if_splits)
  then show ?thesis
  proof cases
    case 2
    have "list_all (keeps_cells (proto_lib E)) (foldl DeletePreparingObject b0 ids)" if "list_all (keeps_cells (proto_lib E)) b0" for b0
      using that by (induction ids arbitrary: b0) (auto simp: writer_defs)
    then have "list_all (keeps_cells (proto_lib E)) (foldl DeletePreparingObject [] ids)" by simp
    with 2 Commit_ok(1) [OF laws] Commit_error(1) [OF laws] assms(2) show ?thesis
      by (cases r) (fastforce simp: intact_batch)+
  qed (use assms(2) in simp)
qed

section \<open>Every step keeps them\<close>

lemma operation_step_intact:
  assumes laws: "env_laws E" and ok: "intact_at E c" and "operation_step E c c'"
  shows "intact_at E c'"
  using assms(3)
proof cases
  case (op_read_object i token offset n r)
  with ok ReadObject_quiet(1) [OF laws] show ?thesis by simp
next
  case (op_publish q now rpc1 rpc2 r)
  from ok stays_intactD [OF publish_handlers_intact(1) [OF laws] this] show ?thesis by simp
next
  case (op_publish_auto p now rpc1 rpc2 r)
  from ok stays_intactD [OF publish_handlers_intact(2) [OF laws] this] show ?thesis by simp
next
  case (op_allocate count r)
  from ok stays_intactD [OF publish_handlers_intact(3) [OF laws] this] show ?thesis by simp
next
  case (op_create q now r)
  from ok stays_intactD [OF channel_handlers_intact(1) [OF laws] this] show ?thesis by simp
next
  case (op_add prin token i target now r)
  from ok stays_intactD [OF channel_handlers_intact(2) [OF laws] this] show ?thesis by simp
next
  case (op_remove prin token i target now r)
  from ok stays_intactD [OF channel_handlers_intact(3) [OF laws] this] show ?thesis by simp
next
  case (op_delete_token prin token r)
  from ok stays_intactD [OF channel_handlers_intact(4) [OF laws] this] show ?thesis by simp
next
  case (op_add_token prin r)
  from ok AddToken_intact [OF laws _ this] show ?thesis by simp
qed

lemma server_step_intact:
  assumes laws: "env_laws E" and ok: "intact_at E (fst x)" and "server_step E x y"
  shows "intact_at E (fst y)"
  using assms(3)
proof (cases rule: server_step.cases)
  case (step_operation c c' w)
  with ok operation_step_intact [OF laws] show ?thesis by simp
next
  case (step_late c c' w)
  with ok operation_step_intact [OF laws _ step_late(4)] show ?thesis by simp
next
  case (step_report r c r' c' w)
  with ok HandleRpcStatus_state [OF step_report(3)] show ?thesis by simp
next
  case (step_refresh g s c pc c' w)
  with ok refresh_store_state [OF step_refresh(3)] show ?thesis by simp
next
  case (step_check q c u c' w)
  with ok WriteObject_check_Inr show ?thesis by fastforce
next
  case (step_name q w c r c')
  with ok show ?thesis by (auto simp: on_os_pop_def split: option.splits)
next
  case (step_prepare q t w c r c')
  with ok stays_intactD [OF WriteObject_prepare_intact [OF laws]] show ?thesis by simp
next
  case (step_file q ob w c r c')
  with ok WriteObject_file_intact [OF laws] show ?thesis by simp
next
  case (step_finish q ob w c r c')
  with ok WriteObject_finish_intact [OF laws] show ?thesis by simp
next
  case (step_restart c u d w)
  with ok Recover_intact [OF laws, of "storage_of c"] show ?thesis by (simp add: storage_of_def)
next
  case (step_restart_failed c e d w)
  with ok Recover_intact [OF laws, of "storage_of c"] show ?thesis by (simp add: storage_of_def)
next
  case (step_crash c w os)
  with ok show ?thesis by simp
qed

lemma initial_encoded:
  assumes "message_ParseFromString P b = Some msg"
  shows "well_encoded P (initial_contents b)"
proof -
  have "cell_ok P Meta kSchemaVersionKey v" for v by simp
  moreover have "cell_ok P Messages (NumericKey kMessagePrefix 0) b" using assms by simp
  ultimately have "cell_ok P c k v" if "initial_contents b (c, k) = Some v" for c k v
    using that unfolding initial_contents_def map_upd_Some_unfold by (auto simp del: cell_ok.simps)
  moreover have "initial_contents b (Meta, kSchemaVersionKey) = Some (EncodeUint64 kSchemaVersion)"
    "initial_contents b (Meta, k) \<noteq> None" if "k \<in> counter_keys" for k
    using that by (auto simp: initial_contents_def counter_keys_def)
  ultimately show ?thesis by (auto simp: well_encoded_def counter_keys_def simp del: cell_ok.simps)
qed

lemma reachable_encoded:
  assumes laws: "env_laws E" and "reachable E x"
  shows "intact_at E (fst x)"
  using assms(2)
proof induction
  case (reach_start ms b d)
  with initial_encoded [OF proto_lawsD(1) [OF env_lawsD(2) [OF laws] reach_start(1)]] show ?case by simp
next
  case (reach_step x y)
  from server_step_intact [OF laws reach_step(4,3)] show ?case .
qed

end
