(* ===== verification/Stored_Reads.thy ===== *)
theory Stored_Reads
  imports Stored_Cells
begin

text \<open>
  The reads of the storage on what the server itself has stored. In every reachable state each read succeeds whenever
  the database answers, and returns the entry of the abstract log: the checks that report corruption never fire on the
  server's own data. The locale \<open>answered_read\<close> is this contract for one kind of read; the reads of counters, uuids,
  credentials, channels and objects interpret it.
\<close>

section \<open>What the server has stored\<close>

definition records_valid :: "event_log \<Rightarrow> bool" where
  "records_valid l \<longleftrightarrow> (\<forall>i ob. lg_objects l i = Some ob \<or> lg_preparing l i = Some ob \<longrightarrow> valid_object i ob)"

text \<open>The cells are well formed, the log is, and it begins with the initialization message under uuid zero.\<close>

definition sound :: "proto \<Rightarrow> kv \<Rightarrow> bool" where
  "sound P m \<longleftrightarrow> well_encoded P m \<and> log_ok (log_of P m) \<and> records_valid (log_of P m) \<and>
     lg_next_object_id (log_of P m) \<noteq> 0 \<and>
     (\<exists>ms. lg_messages (log_of P m) 0 = Some (InitializationMessage ms)) \<and> lg_used (log_of P m) 0 = Some 0"

lemma reachable_first:
  assumes laws: "env_laws E" and "reachable E x"
  shows "(\<exists>ms. lg_messages (log_at E (fst x)) 0 = Some (InitializationMessage ms)) \<and> lg_used (log_at E (fst x)) 0 = Some 0"
  using assms(2)
proof induction
  case (reach_start ms b d)
  with proto_lawsD(1) [OF env_lawsD(2) [OF laws] reach_start(1)] show ?case
    by (auto simp: log_of_def initial_contents_def be64.dec_enc)
next
  case (reach_step x y)
  have "log_ok (log_at E (fst x))" using reachable_ok [OF laws reach_step(1)] by (simp add: server_ok_def)
  from log_next_extends [OF server_step_log [OF laws reach_step(3)] this] reach_step(4) show ?case
    by (fastforce simp: extends_def map_le_def dom_def)
qed

lemma reachable_sound:
  assumes "env_laws E" and "reachable E x"
  shows "sound (proto_lib E) (contents E (fst x))"
  using reachable_encoded [OF assms] reachable_ok [OF assms] reachable_first [OF assms]
  by (auto simp: sound_def server_ok_def objects_ok_def stored_ok_def records_valid_def)

section \<open>A database that answers\<close>

definition answered :: "rocks_status \<Rightarrow> bool" where
  "answered st \<longleftrightarrow> rocks_ok st \<or> rocks_not_found st"

definition answers :: "('db, 'snap, 'os) env \<Rightarrow> 'snap \<Rightarrow> bool" where
  "answers E s \<longleftrightarrow> (\<forall>c k. answered (fst (db_Get (rocks E) s c k))) \<and>
     (\<forall>ks. list_all (\<lambda>r. answered (fst r)) (db_MultiGet (rocks E) s ks)) \<and>
     (\<forall>c k. rocks_ok (snd (db_Iterate (rocks E) s c k)))"

definition readable :: "('db, 'snap, 'os) env \<Rightarrow> 'snap \<Rightarrow> bool" where
  "readable E s \<longleftrightarrow> env_laws E \<and> answers E s \<and> sound (proto_lib E) (snap_view E s)"

lemma readable_snapshot:
  assumes "env_laws E" and "reachable E (c, w)" and "CreateSnapshot E (d_db c) = Inr s" and "answers E s"
  shows "readable E s" and "log_in E s = log_at E c"
  using reachable_sound [OF assms(1,2)] CreateSnapshot_view [OF assms(1,3)] assms by (simp_all add: readable_def)

text \<open>A read of a cell, by cases.\<close>

lemma readable_get:
  assumes "readable E s"
  obtains st b where "db_Get (rocks E) s c k = (st, b)" "rocks_ok st" "\<not> rocks_not_found st"
      "snap_view E s (c, k) = Some b" "cell_ok (proto_lib E) c k b"
    | st b where "db_Get (rocks E) s c k = (st, b)" "rocks_not_found st" "snap_view E s (c, k) = None"
proof -
  obtain st b where g: "db_Get (rocks E) s c k = (st, b)" by fastforce
  with assms have st: "rocks_ok st \<or> rocks_not_found st" and laws: "rocks_laws (rocks E)"
    and cells: "well_encoded (proto_lib E) (snap_view E s)"
    by (auto simp: readable_def answers_def answered_def sound_def env_laws_def dest!: spec [of _ c] spec [of _ k])
  note get = rocks_get_ok [OF laws g] rocks_get_missing [OF laws g]
  show thesis
  proof (cases "rocks_not_found st")
    case True
    with get(2) g that(2) show thesis by blast
  next
    case False
    with st have "rocks_ok st" by simp
    with get(1) g False well_encoded_cell [OF cells] that(1) show thesis by blast
  qed
qed

lemma rocks_result_ok [simp]: "rocks_ok st \<Longrightarrow> rocks_result E st d = Inr ()"
  by simp

section \<open>The contract\<close>

locale answered_read =
  fixes get :: "('db, 'snap, 'os) env \<Rightarrow> 'snap \<Rightarrow> 'k \<Rightarrow> 'v result"
    and entry :: "event_log \<Rightarrow> 'k \<Rightarrow> 'v"
  assumes reads: "env_laws E \<Longrightarrow> get E s k = Inr v \<Longrightarrow> entry (log_in E s) k = v"
    and succeeds: "readable E s \<Longrightarrow> \<exists>v. get E s k = Inr v"
begin

lemma read: "readable E s \<Longrightarrow> get E s k = Inr (entry (log_in E s) k)"
  using succeeds [of E s k] reads [of E s k] by (auto simp: readable_def)

lemma read_in_state:
  assumes "env_laws E" and "reachable E (c, w)" and "CreateSnapshot E (d_db c) = Inr s" and "answers E s"
  shows "get E s k = Inr (entry (log_at E c) k)"
  using read readable_snapshot [OF assms] by simp

end

lemma GetRequiredUint64_answered:
  assumes "readable E s" and "k \<in> counter_keys"
  shows "\<exists>v. GetRequiredUint64 E s k = Inr v"
proof -
  have "snap_view E s (Meta, k) = Some (EncodeUint64 (counter_at (snap_view E s) k))"
    using assms counter_cell by (auto simp: readable_def sound_def)
  with assms(1) show ?thesis
    by (cases rule: readable_get [of E s Meta k]) (simp_all add: GetRequiredUint64_def)
qed

lemma counters_answered:
  assumes "readable E s"
  shows "\<exists>v. GetMaxSeq E s = Inr v" and "\<exists>v. GetNextUuid E s = Inr v" and "\<exists>v. GetNextChannelId E s = Inr v"
    and "\<exists>v. GetNextObjectId E s = Inr v"
  unfolding GetMaxSeq_def GetNextUuid_def GetNextChannelId_def GetNextObjectId_def
  by (rule GetRequiredUint64_answered [OF assms], simp add: counter_keys_def)+

text \<open>Uuid zero belongs to sequence number zero, and no other pair has a zero.\<close>

lemma sound_used:
  assumes "sound P m" and "lg_used (log_of P m) u = Some q"
  shows "u = 0 \<longleftrightarrow> q = 0"
proof -
  have "\<exists>msg. lg_messages (log_of P m) q = Some msg \<and> msg_uuid msg = u"
    using assms by (auto simp: sound_def log_ok_def uuids_ok_def)
  with assms show ?thesis by (auto simp: sound_def InitializationMessage_def empty_message_def)
qed

lemma GetUsedUuidSeq_answered:
  assumes "readable E s"
  shows "\<exists>v. GetUsedUuidSeq E s u = Inr v"
  using assms
proof (cases rule: readable_get [of E s Meta "NumericKey kUuidPrefix u"])
  case (1 st b)
  then obtain q where "b = EncodeUint64 q" by (auto simp: number_cells_def)
  with 1 have "lg_used (log_in E s) u = Some q" by (simp add: log_of_def be64.dec_enc)
  with assms sound_used have "u = 0 \<longleftrightarrow> q = 0" by (fastforce simp: readable_def)
  with 1 \<open>b = EncodeUint64 q\<close> show ?thesis by (auto simp: GetUsedUuidSeq_def)
qed (simp_all add: GetUsedUuidSeq_def)

lemma HasToken_answered: "readable E s \<Longrightarrow> \<exists>v. HasToken E s p t = Inr v"
  by (cases rule: readable_get [of E s Meta "TokenKey p t"]) (auto simp: HasToken_def)

lemma sound_channel:
  assumes "proto_laws P" and "sound P m" and "lg_channels (log_of P m) i = Some ch"
  shows "ch_channel_id ch = i" and "ValidStoredChannel P ch"
proof -
  have "i \<noteq> 0 \<and> ch_channel_id ch = i \<and> channel_ok ch"
    using assms(2,3) by (auto simp: sound_def log_ok_def channels_ok_def)
  with proto_lawsD(4-6) [OF assms(1)] show "ch_channel_id ch = i" "ValidStoredChannel P ch"
    by (auto simp: channel_ok_def ValidStoredChannel_def)
qed

lemma decode_channel_answered:
  assumes "readable E s" and "snap_view E s (Meta, NumericKey kChannelPrefix i) = Some b"
    and "channel_ParseFromString (proto_lib E) b \<noteq> None"
  shows "\<exists>ch. decode_channel (proto_lib E) b i d = Inr ch"
proof -
  from assms(2,3) obtain ch where "lg_channels (log_in E s) i = Some ch" "channel_ParseFromString (proto_lib E) b = Some ch"
    by (auto simp: log_of_def)
  with assms(1) sound_channel [of "proto_lib E" "snap_view E s"] show ?thesis
    by (auto simp: readable_def env_laws_def decode_channel_Inr)
qed

lemma GetChannel_answered:
  assumes "readable E s"
  shows "\<exists>v. GetChannel E s i = Inr v"
  using assms
proof (cases rule: readable_get [of E s Meta "NumericKey kChannelPrefix i"])
  case (1 st b)
  then obtain ch where "decode_channel (proto_lib E) b i ''read channel'' = Inr ch"
    using decode_channel_answered [OF assms 1(4)] by fastforce
  with 1 show ?thesis by (simp add: GetChannel_def)
qed (simp_all add: GetChannel_def)

lemma ParseObject_answered:
  assumes "readable E s" and "snap_view E s (Objects, NumericKey pre i) = Some b"
    and "record_ParseFromString (proto_lib E) b \<noteq> None" and "pre \<in> {kPreparingObjectPrefix, kCommittedObjectPrefix}"
  shows "\<exists>ob. ParseObject (proto_lib E) b i = Inr ob"
proof -
  from assms(2,3) obtain rec where rec: "record_ParseFromString (proto_lib E) b = Some rec" by blast
  then have "object_at (proto_lib E) (snap_view E s) pre i = Some (object_of_record rec)"
    using assms(2) by (simp add: object_at_def)
  with assms(4) have "lg_objects (log_in E s) i = Some (object_of_record rec) \<or>
      lg_preparing (log_in E s) i = Some (object_of_record rec)" by (auto simp: log_of_def)
  with assms(1) rec show ?thesis by (auto simp: ParseObject_Inr readable_def sound_def records_valid_def)
qed

lemma GetObject_answered:
  assumes "readable E s" and "pre \<in> {kPreparingObjectPrefix, kCommittedObjectPrefix}"
  shows "\<exists>v. GetObject E s pre i = Inr v"
  using assms(1)
proof (cases rule: readable_get [of E s Objects "NumericKey pre i"])
  case (1 st b)
  then obtain ob where "ParseObject (proto_lib E) b i = Inr ob"
    using ParseObject_answered [OF assms(1) 1(4) _ assms(2)] by fastforce
  with 1 show ?thesis by (simp add: GetObject_def)
qed (simp_all add: GetObject_def)

lemma decode_objects_answered:
  assumes "readable E s"
  shows "list_all2 (\<lambda>k r. read_agrees (snap_view E s k) r) (map (\<lambda>i. (Objects, NumericKey kCommittedObjectPrefix i)) ids) rs \<Longrightarrow>
    list_all (\<lambda>r. answered (fst r)) rs \<Longrightarrow> \<exists>obs. decode_objects E ids rs = Inr obs"
proof (induction ids arbitrary: rs)
  case (Cons i ids)
  then obtain st b rs' where rs: "rs = (st, b) # rs'" by (cases rs) auto
  with Cons obtain obs where IH: "decode_objects E ids rs' = Inr obs" by fastforce
  show ?case
  proof (cases "rocks_not_found st")
    case False
    with Cons.prems rs have ok: "rocks_ok st" and view: "snap_view E s (Objects, NumericKey kCommittedObjectPrefix i) = Some b"
      by (auto simp: answered_def read_agrees_def)
    moreover have "cell_ok (proto_lib E) Objects (NumericKey kCommittedObjectPrefix i) b"
      using assms view well_encoded_cell by (auto simp: readable_def sound_def simp del: cell_ok.simps)
    ultimately obtain ob where "ParseObject (proto_lib E) b i = Inr ob"
      using ParseObject_answered [OF assms view] by fastforce
    with False ok rs IH show ?thesis by simp
  qed (use rs IH in simp)
qed simp

lemma GetCommittedObjects_answered:
  assumes "readable E s"
  shows "\<exists>v. GetCommittedObjects E s ids = Inr v"
proof -
  let ?ks = "map (\<lambda>i. (Objects, NumericKey kCommittedObjectPrefix i)) ids"
  have "list_all2 (\<lambda>k r. read_agrees (snap_view E s k) r) ?ks (db_MultiGet (rocks E) s ?ks)"
    using assms by (intro rocks_multiget) (simp add: readable_def env_laws_def)
  moreover have "list_all (\<lambda>r. answered (fst r)) (db_MultiGet (rocks E) s ?ks)"
    using assms by (simp add: readable_def answers_def)
  ultimately show ?thesis
    using decode_objects_answered [OF assms] by (simp add: GetCommittedObjects_def)
qed

section \<open>The reads keep it\<close>

interpretation max_seq_read: answered_read "\<lambda>E s (_ :: unit). GetMaxSeq E s" "\<lambda>l _. lg_max_seq l"
  by unfold_locales (auto simp: counter_log counters_answered)

interpretation next_uuid_read: answered_read "\<lambda>E s (_ :: unit). GetNextUuid E s" "\<lambda>l _. lg_next_uuid l"
  by unfold_locales (auto simp: counter_log counters_answered)

interpretation next_channel_read: answered_read "\<lambda>E s (_ :: unit). GetNextChannelId E s" "\<lambda>l _. lg_next_channel_id l"
  by unfold_locales (auto simp: counter_log counters_answered)

interpretation next_object_read: answered_read "\<lambda>E s (_ :: unit). GetNextObjectId E s" "\<lambda>l _. lg_next_object_id l"
  by unfold_locales (auto simp: counter_log counters_answered)

interpretation used_uuid_read: answered_read GetUsedUuidSeq lg_used
  by unfold_locales (auto simp: GetUsedUuidSeq_log GetUsedUuidSeq_answered)

interpretation credential_read: answered_read "\<lambda>E s (p, t). HasToken E s p t" lg_tokens
  by unfold_locales (auto simp: HasToken_log HasToken_answered)

interpretation channel_read: answered_read GetChannel lg_channels
  by unfold_locales (auto simp: GetChannel_log GetChannel_answered)

interpretation loaded_channel_read: answered_read LoadChannel channel_in
  by unfold_locales (auto simp: LoadChannel_log LoadChannel_def GetChannel_answered)

interpretation preparing_read: answered_read GetPreparingObject lg_preparing
  by unfold_locales (auto simp: object_log GetPreparingObject_def GetObject_answered)

interpretation committed_read: answered_read GetCommittedObject lg_objects
  by unfold_locales (auto simp: object_log GetCommittedObject_def GetObject_answered)

interpretation objects_read: answered_read GetCommittedObjects "\<lambda>l. map (lg_objects l)"
  by unfold_locales (auto simp: GetCommittedObjects_answered dest: GetCommittedObjects_log)

section \<open>The listings\<close>

lemma ListChannels_answered:
  assumes "readable E s"
  shows "\<exists>chs. ListChannels E s = Inr chs"
proof -
  obtain es st where it: "db_Iterate (rocks E) s Meta kChannelPrefix = (es, st)" by fastforce
  with assms have ok: "rocks_ok st" and laws: "rocks_laws (rocks E)" and cells: "well_encoded (proto_lib E) (snap_view E s)"
    by (auto simp: readable_def answers_def sound_def env_laws_def dest!: spec [of _ Meta] spec [of _ kChannelPrefix])
  have "\<exists>i x. k = NumericKey kChannelPrefix i \<and> decode_channel (proto_lib E) v i ''list channels'' = Inr x"
    if e: "(k, v) \<in> set es" "prefix kChannelPrefix k" for k v
  proof -
    have view: "snap_view E s (Meta, k) = Some v" using rocks_iterate(2) [OF laws it e(1)] by simp
    with well_encoded_cell [OF cells this] e(2) obtain i where k: "k = NumericKey kChannelPrefix i"
      and parse: "channel_ParseFromString (proto_lib E) v \<noteq> None" by auto
    from decode_channel_answered [OF assms view [unfolded k] parse] k show ?thesis by blast
  qed
  from channel_listing.loop_succeeds [OF this] obtain chs rest
    where "ListChannels_loop (proto_lib E) es [] = Inr (chs, rest)" by blast
  with it ok show ?thesis by (simp add: ListChannels_def)
qed

lemmas stored_reads = max_seq_read.read next_uuid_read.read next_channel_read.read next_object_read.read
  used_uuid_read.read credential_read.read [of _ _ "(p, t)" for p t, simplified] channel_read.read
  loaded_channel_read.read preparing_read.read committed_read.read objects_read.read

end
