(* ===== verification/Storage_Open.thy ===== *)
theory Storage_Open
  imports Recovery
begin

text \<open>
  Opening the storage (\<^verbatim>\<open>src/storage/unified_storage.cpp\<close>): the layout of the storage root, the
  durable creation of its directories, the initialization of a new database, and the opening of an
  existing one with its validation and recovery. The file system and the part of RocksDB that creates,
  opens and closes a database are a parameter (\<open>host\<close>) over a state \<open>'w\<close>; paths are strings,
  with the lexical operations of \<^verbatim>\<open>std::filesystem::path\<close>.
\<close>

section \<open>Paths\<close>

definition is_absolute :: "string \<Rightarrow> bool" where
  "is_absolute p \<longleftrightarrow> p \<noteq> [] \<and> hd p = CHR ''/''"

text \<open>\<^verbatim>\<open>operator/\<close>: an absolute right operand replaces the left one; otherwise a separator is added
  unless the left operand has no filename.\<close>

definition path_append :: "string \<Rightarrow> string \<Rightarrow> string" where
  "path_append p q =
     (if is_absolute q then q
      else if p = [] \<or> last p = CHR ''/'' then p @ q
      else p @ CHR ''/'' # q)"

definition drop_separators :: "string \<Rightarrow> string" where
  "drop_separators p = rev (dropWhile ((=) (CHR ''/'')) (rev p))"

definition drop_filename :: "string \<Rightarrow> string" where
  "drop_filename p = rev (dropWhile ((\<noteq>) (CHR ''/'')) (rev p))"

text \<open>\<^verbatim>\<open>parent_path()\<close>: a path without a relative part is its own parent; otherwise the last element
  and the separators before it are dropped, except for a root directory.\<close>

definition parent_path :: "string \<Rightarrow> string" where
  "parent_path p =
     (if list_all ((=) (CHR ''/'')) p then p
      else let q = drop_filename p; r = drop_separators q
           in if r = [] \<and> q \<noteq> [] then ''/'' else r)"

definition DatabasePath :: "string \<Rightarrow> string" where
  "DatabasePath root_path = path_append root_path ''db''"

definition ObjectsPath :: "string \<Rightarrow> string" where
  "ObjectsPath root_path = path_append root_path ''objects''"

lemma dropWhile_rev_length: "length (dropWhile P (rev p)) \<le> length p"
  using length_dropWhile_le [of P "rev p"] by simp

lemma drop_separators_length: "length (drop_separators p) \<le> length p"
  by (simp add: drop_separators_def dropWhile_rev_length)

lemma drop_filename_strict: "p \<noteq> [] \<Longrightarrow> last p \<noteq> CHR ''/'' \<Longrightarrow> length (drop_filename p) < length p"
  by (cases p rule: rev_cases) (auto simp: drop_filename_def le_imp_less_Suc dropWhile_rev_length)

lemma drop_separators_strict: "p \<noteq> [] \<Longrightarrow> last p = CHR ''/'' \<Longrightarrow> length (drop_separators p) < length p"
  by (cases p rule: rev_cases) (auto simp: drop_separators_def le_imp_less_Suc dropWhile_rev_length)

lemma parent_path_shorter:
  assumes "parent_path p \<noteq> p"
  shows "length (parent_path p) < length p"
proof -
  let ?q = "drop_filename p"
  from assms have p: "\<not> list_all ((=) (CHR ''/'')) p" by (auto simp: parent_path_def)
  then have ne: "p \<noteq> []" by auto
  show ?thesis
  proof (cases "last p = CHR ''/''")
    case True
    with ne have q: "?q = p" by (cases p rule: rev_cases) (auto simp: drop_filename_def)
    have "drop_separators p \<noteq> []"
    proof
      assume "drop_separators p = []"
      then have "\<forall>x \<in> set (rev p). CHR ''/'' = x" by (simp add: drop_separators_def)
      with p show False by (auto simp: list_all_iff)
    qed
    with p q True ne show ?thesis by (simp add: parent_path_def drop_separators_strict)
  next
    case False
    with ne have "length ?q < length p" by (rule drop_filename_strict)
    moreover have "?q \<noteq> [] \<Longrightarrow> 1 \<le> length ?q" by (cases ?q) auto
    ultimately show ?thesis using p drop_separators_length [of ?q] by (auto simp: parent_path_def Let_def)
  qed
qed

section \<open>The host\<close>

text \<open>
  The calls of the standard library report an answer and the message of the error code, if one was set;
  \<open>fs_Entries\<close> is the iteration of a directory: an error of the iterator's construction, or the names
  it yields and the error that ended it. A database is opened from the state and put back by
  \<open>db_Close\<close>; \<open>fs_View\<close> is the operating system as the object files see it through the descriptor of
  their directory, and \<open>fs_Release\<close> closes that descriptor. \<open>host_db\<close> (the contents of a database that
  is not open), \<open>host_fd\<close> (the path a descriptor was opened on) and \<open>host_undurable\<close> (the directories a
  crash may lose) are specification only.
\<close>

record ('w, 'db, 'os) host =
  fs_Exists :: "'w \<Rightarrow> string \<Rightarrow> bool \<times> string option"
  fs_IsDirectory :: "'w \<Rightarrow> string \<Rightarrow> bool \<times> string option"
  fs_Entries :: "'w \<Rightarrow> string \<Rightarrow> string + (string list \<times> string option)"
  fs_CreateDirectory :: "'w \<Rightarrow> string \<Rightarrow> (bool \<times> string option) \<times> 'w"
  fs_CurrentPath :: "'w \<Rightarrow> string + string"
  fs_OpenDirectory :: "'w \<Rightarrow> string \<Rightarrow> (errno + nat) \<times> 'w"
  fs_Fsync :: "'w \<Rightarrow> nat \<Rightarrow> (errno + unit) \<times> 'w"
  fs_Close :: "'w \<Rightarrow> nat \<Rightarrow> (errno + unit) \<times> 'w"
  fs_View :: "'w \<Rightarrow> nat \<Rightarrow> 'os"
  fs_Release :: "'w \<Rightarrow> 'os \<Rightarrow> 'w"
  fs_strerror :: "errno \<Rightarrow> string"
  db_ListColumnFamilies :: "'w \<Rightarrow> string \<Rightarrow> rocks_status \<times> string list"
  db_OpenCreate :: "'w \<Rightarrow> string \<Rightarrow> rocks_status \<times> 'db \<times> 'w"
  db_OpenFamilies :: "'w \<Rightarrow> string \<Rightarrow> string list \<Rightarrow> rocks_status \<times> nat list \<times> 'db \<times> 'w"
  db_CreateColumnFamily :: "'db \<Rightarrow> string \<Rightarrow> rocks_status \<times> nat \<times> 'db"
  db_DestroyColumnFamilyHandle :: "'db \<Rightarrow> nat \<Rightarrow> rocks_status \<times> 'db"
  db_Close :: "'w \<Rightarrow> string \<Rightarrow> 'db \<Rightarrow> 'w"
  host_db :: "'w \<Rightarrow> string \<Rightarrow> kv option"
  host_fd :: "'w \<Rightarrow> nat \<Rightarrow> string option"
  host_undurable :: "'w \<Rightarrow> string set"

section \<open>The storage root\<close>

definition IsEmptyDirectory :: "('w, 'db, 'os) host \<Rightarrow> 'w \<Rightarrow> string \<Rightarrow> bool" where
  "IsEmptyDirectory H w path =
     (case fs_Exists H w path of
        (False, ec) \<Rightarrow> ec = None
      | (True, Some _) \<Rightarrow> False
      | (True, None) \<Rightarrow>
          (case fs_IsDirectory H w path of
             (True, None) \<Rightarrow>
               (case fs_Entries H w path of Inl _ \<Rightarrow> False | Inr (names, _) \<Rightarrow> names = [])
           | _ \<Rightarrow> False))"

definition IsNewStorageRoot :: "('w, 'db, 'os) host \<Rightarrow> 'w \<Rightarrow> string \<Rightarrow> bool" where
  "IsNewStorageRoot H w path = IsEmptyDirectory H w path"

definition bad_layout :: status where
  "bad_layout = mk_status INTERNAL ''storage root must contain only db and objects directories''"

definition inspect_root :: "string \<Rightarrow> status" where
  "inspect_root message = mk_status UNAVAILABLE (''inspect storage root: '' @ message)"

definition ValidateStorageRootLayout :: "('w, 'db, 'os) host \<Rightarrow> 'w \<Rightarrow> string \<Rightarrow> unit result" where
  "ValidateStorageRootLayout H w path =
     (case fs_Entries H w path of
        Inl message \<Rightarrow> Inl (inspect_root message)
      | Inr (entries, Some message) \<Rightarrow> Inl (inspect_root message)
      | Inr (entries, None) \<Rightarrow>
          if set entries \<noteq> {''db'', ''objects''} then Inl bad_layout
          else failIf (fs_IsDirectory H w (path_append path ''db'') \<noteq> (True, None) \<or>
                       fs_IsDirectory H w (path_append path ''objects'') \<noteq> (True, None)) bad_layout)"

section \<open>Creating the directories\<close>

definition SyncDirectory :: "('w, 'db, 'os) host \<Rightarrow> string \<Rightarrow> ('w, status, unit) op" where
  "SyncDirectory H path w =
     (case fs_OpenDirectory H w path of
        (Inl e, w1) \<Rightarrow> (Inl (mk_status UNAVAILABLE (''open directory for fsync: '' @ fs_strerror H e)), w1)
      | (Inr fd, w1) \<Rightarrow>
     (case fs_Fsync H w1 fd of
        (Inl e, w2) \<Rightarrow>
          (Inl (mk_status UNAVAILABLE (''fsync directory: '' @ fs_strerror H e)), snd (fs_Close H w2 fd))
      | (Inr _, w2) \<Rightarrow>
     (case fs_Close H w2 fd of
        (Inl e, w3) \<Rightarrow> (Inl (mk_status UNAVAILABLE (''close directory after fsync: '' @ fs_strerror H e)), w3)
      | (Inr _, w3) \<Rightarrow> (Inr (), w3))))"

definition CreateDirectoryAndSyncParent :: "('w, 'db, 'os) host \<Rightarrow> string \<Rightarrow> ('w, status, unit) op" where
  "CreateDirectoryAndSyncParent H path w =
     (case fs_CreateDirectory H w path of
        ((created, Some message), w1) \<Rightarrow>
          (Inl (mk_status UNAVAILABLE (''create storage directory '' @ path @ '': '' @ message)), w1)
      | ((created, None), w1) \<Rightarrow>
          if \<not> created \<and> fs_IsDirectory H w1 path \<noteq> (True, None)
          then (Inl (mk_status UNAVAILABLE (''storage path component is not a directory: '' @ path)), w1)
          else if created then SyncDirectory H (parent_path path) w1 else (Inr (), w1))"

text \<open>The loop that collects the missing ancestors; it ends because a parent is a shorter path.\<close>

function find_existing :: "('w, 'db, 'os) host \<Rightarrow> 'w \<Rightarrow> string \<Rightarrow> string list \<Rightarrow> string \<Rightarrow>
    (string list \<times> string \<times> string option) result" where
  "find_existing H w base missing current =
     (case fs_Exists H w current of
        (True, ec) \<Rightarrow> Inr (missing, current, ec)
      | (False, Some message) \<Rightarrow>
          Inl (mk_status UNAVAILABLE (''inspect storage directory '' @ current @ '': '' @ message))
      | (False, None) \<Rightarrow>
          if parent_path current = [] \<or> parent_path current = current
          then Inl (mk_status UNAVAILABLE (''storage path has no existing directory ancestor: '' @ base))
          else find_existing H w base (missing @ [current]) (parent_path current))"
  by pat_completeness auto

termination find_existing
  by (relation "measure (\<lambda>(H, w, base, missing, current). length current)") (auto intro: parent_path_shorter)

declare find_existing.simps [simp del]

primrec create_all :: "('w, 'db, 'os) host \<Rightarrow> string list \<Rightarrow> ('w, status, unit) op" where
  "create_all H [] = retM ()"
| "create_all H (p # ps) = bindM (CreateDirectoryAndSyncParent H p) (\<lambda>_. create_all H ps)"

definition CreateDirectoryTreeDurably :: "('w, 'db, 'os) host \<Rightarrow> string \<Rightarrow> ('w, status, unit) op" where
  "CreateDirectoryTreeDurably H base w =
     (case find_existing H w base [] base of
        Inl e \<Rightarrow> (Inl e, w)
      | Inr (missing, current, ec) \<Rightarrow>
          if ec \<noteq> None \<or> fs_IsDirectory H w current \<noteq> (True, None)
          then (Inl (mk_status UNAVAILABLE (''storage path ancestor is not a directory: '' @ current)), w)
          else create_all H (rev missing) w)"

text \<open>\<^verbatim>\<open>std::filesystem::absolute\<close>: the current path is only needed for a relative path.\<close>

definition absolute_path :: "('w, 'db, 'os) host \<Rightarrow> 'w \<Rightarrow> string \<Rightarrow> string + string" where
  "absolute_path H w p =
     (if is_absolute p then Inr p
      else case fs_CurrentPath H w of Inl message \<Rightarrow> Inl message | Inr cwd \<Rightarrow> Inr (path_append cwd p))"

definition CreateStorageDirectories :: "('w, 'db, 'os) host \<Rightarrow> string \<Rightarrow> ('w, status, unit) op" where
  "CreateStorageDirectories H root_path w =
     (case absolute_path H w root_path of
        Inl message \<Rightarrow> (Inl (mk_status UNAVAILABLE (''resolve storage root: '' @ message)), w)
      | Inr base \<Rightarrow>
          bindM (CreateDirectoryTreeDurably H base) (\<lambda>_.
          bindM (CreateDirectoryAndSyncParent H (path_append base ''db'')) (\<lambda>_.
          CreateDirectoryAndSyncParent H (path_append base ''objects''))) w)"

section \<open>Initializing a new storage\<close>

definition kDefaultColumnFamilyName :: string where "kDefaultColumnFamilyName = ''default''"
definition kMessagesColumnFamily :: string where "kMessagesColumnFamily = ''messages''"
definition kObjectsColumnFamily :: string where "kObjectsColumnFamily = ''objects''"

text \<open>The database part of \<^verbatim>\<open>InitializeNew\<close>: the two column families, the initial state, the release of the
  handles; the database itself is closed by its owner on every way out.\<close>

definition initialize_db :: "('w, 'db, 'os) host \<Rightarrow> ('db, 'snap, 'os) env \<Rightarrow> int \<Rightarrow> 'w \<Rightarrow> ('db, status, unit) op" where
  "initialize_db H E event_ms w db =
     (case db_CreateColumnFamily H db kMessagesColumnFamily of (st, messages, db1) \<Rightarrow>
      case rocks_result E st ''create messages column family'' of
        Inl e \<Rightarrow> (Inl e, db1)
      | Inr _ \<Rightarrow>
     (case db_CreateColumnFamily H db1 kObjectsColumnFamily of (st2, objects, db2) \<Rightarrow>
      case rocks_result E st2 ''create objects column family'' of
        Inl e \<Rightarrow> (Inl e, snd (db_DestroyColumnFamilyHandle H db2 messages))
      | Inr _ \<Rightarrow>
     (case InitializeNew_write E event_ms \<lparr>d_db = db2, d_os = w\<rparr> of (init_status, d) \<Rightarrow>
      case db_DestroyColumnFamilyHandle H (d_db d) objects of (objects_destroy, db3) \<Rightarrow>
      case db_DestroyColumnFamilyHandle H db3 messages of (messages_destroy, db4) \<Rightarrow>
        (bindR init_status (\<lambda>_.
         bindR (rocks_result E objects_destroy ''destroy objects column family handle'') (\<lambda>_.
         rocks_result E messages_destroy ''destroy messages column family handle'')), db4))))"

definition InitializeNew :: "('w, 'db, 'os) host \<Rightarrow> ('db, 'snap, 'os) env \<Rightarrow> int \<Rightarrow> string \<Rightarrow> ('w, status, unit) op" where
  "InitializeNew H E event_ms path =
     bindM (CreateStorageDirectories H path) (\<lambda>_ w.
     case db_OpenCreate H w (DatabasePath path) of (st, db, w1) \<Rightarrow>
       (case rocks_result E st ''create storage'' of
          Inl e \<Rightarrow> (Inl e, w1)
        | Inr _ \<Rightarrow>
            (case initialize_db H E event_ms w1 db of (r, db') \<Rightarrow> (r, db_Close H w1 (DatabasePath path) db'))))"

section \<open>Opening an existing storage\<close>

primrec DestroyHandles :: "('w, 'db, 'os) host \<Rightarrow> ('db, 'snap, 'os) env \<Rightarrow> nat list \<Rightarrow> ('db, status, unit) op" where
  "DestroyHandles H E [] db = (Inr (), db)"
| "DestroyHandles H E (handle # handles) db =
     (case db_DestroyColumnFamilyHandle H db handle of (st, db') \<Rightarrow>
      case rocks_result E st ''destroy column family handle'' of
        Inl e \<Rightarrow> (Inl e, db')
      | Inr _ \<Rightarrow> DestroyHandles H E handles db')"

definition ObjectFileStore_Open :: "('w, 'db, 'os) host \<Rightarrow> string \<Rightarrow> ('w, status, 'os) op" where
  "ObjectFileStore_Open H path w =
     (case fs_OpenDirectory H w path of
        (Inl e, w') \<Rightarrow> (Inl (ObjectIoStatus (fs_strerror H) ''open object directory'' e), w')
      | (Inr fd, w') \<Rightarrow> (Inr (fs_View H w' fd), w'))"

text \<open>The destructor: the object files first, then the handles of the column families, then the database.\<close>

definition UnifiedStorage_destroy :: "('w, 'db, 'os) host \<Rightarrow> string \<Rightarrow> nat \<Rightarrow> nat \<Rightarrow> nat \<Rightarrow> ('db, 'os) disk \<Rightarrow> 'w \<Rightarrow> 'w" where
  "UnifiedStorage_destroy H db_path meta messages objects storage w =
     (let w1 = fs_Release H w (d_os storage);
          db1 = snd (db_DestroyColumnFamilyHandle H (d_db storage) objects);
          db2 = snd (db_DestroyColumnFamilyHandle H db1 messages);
          db3 = snd (db_DestroyColumnFamilyHandle H db2 meta)
      in db_Close H w1 db_path db3)"

definition validate_and_recover :: "('db, 'snap, 'os) env \<Rightarrow> (('db, 'os) disk, status, unit) op" where
  "validate_and_recover E =
     bindM (askM (\<lambda>storage. Validate E (d_db storage))) (\<lambda>_. RecoverPreparingObjects E)"

definition OpenExisting :: "('w, 'db, 'os) host \<Rightarrow> ('db, 'snap, 'os) env \<Rightarrow> string \<Rightarrow> ('w, status, ('db, 'os) disk) op" where
  "OpenExisting H E root_path w =
     (let db_path = DatabasePath root_path in
      case db_OpenFamilies H w db_path [kDefaultColumnFamilyName, kMessagesColumnFamily, kObjectsColumnFamily] of
        (st, handles, db, w1) \<Rightarrow>
     (case rocks_result E st ''open unified storage'' of
        Inl e \<Rightarrow> (Inl e, w1)
      | Inr _ \<Rightarrow>
     (case handles of
        [meta, messages, objects] \<Rightarrow>
          (case ObjectFileStore_Open H (ObjectsPath root_path) w1 of
             (Inl e, w2) \<Rightarrow> (Inl e, db_Close H w2 db_path (snd (DestroyHandles H E handles db)))
           | (Inr os, w2) \<Rightarrow>
               (case validate_and_recover E \<lparr>d_db = db, d_os = os\<rparr> of
                  (Inl e, storage) \<Rightarrow> (Inl e, UnifiedStorage_destroy H db_path meta messages objects storage w2)
                | (Inr _, storage) \<Rightarrow> (Inr storage, w2)))
      | _ \<Rightarrow> (Inl (mk_status INTERNAL ''unified storage column family count mismatch''),
               db_Close H w1 db_path (snd (DestroyHandles H E handles db))))))"

definition UnifiedStorage_Open :: "('w, 'db, 'os) host \<Rightarrow> ('db, 'snap, 'os) env \<Rightarrow> int \<Rightarrow> string \<Rightarrow>
    ('w, status, ('db, 'os) disk) op" where
  "UnifiedStorage_Open H E event_ms path =
     (if path = [] then failM (mk_status INVALID_ARGUMENT ''storage path must not be empty'')
      else
        bindM (\<lambda>w. if IsNewStorageRoot H w path then InitializeNew H E event_ms path w else (Inr (), w)) (\<lambda>_.
        bindM (askM (\<lambda>w. ValidateStorageRootLayout H w path)) (\<lambda>_.
        bindM (askM (\<lambda>w. case db_ListColumnFamilies H w (DatabasePath path) of (list_status, column_families) \<Rightarrow>
            bindR (rocks_result E list_status ''list storage column families'') (\<lambda>_.
            failIf (set column_families \<noteq> {kDefaultColumnFamilyName, kMessagesColumnFamily, kObjectsColumnFamily})
              (mk_status INTERNAL ''unsupported storage column family layout'')))) (\<lambda>_.
        OpenExisting H E path))))"

section \<open>Laws of the host\<close>

text \<open>
  What the operations rely on. Creating, opening, syncing and closing directories leaves the databases and
  the other directories alone; a created directory is durable once its parent has been synced. A database
  created where there is none is empty, column families and handles do not affect its contents, and what
  was closed is what is opened again.
\<close>

abbreviation is_dir :: "('w, 'db, 'os) host \<Rightarrow> 'w \<Rightarrow> string \<Rightarrow> bool" where
  "is_dir H w p \<equiv> fs_IsDirectory H w p = (True, None)"

definition dirs_kept :: "('w, 'db, 'os) host \<Rightarrow> 'w \<Rightarrow> 'w \<Rightarrow> bool" where
  "dirs_kept H w w' \<longleftrightarrow> host_db H w' = host_db H w \<and> (\<forall>p. is_dir H w p \<longrightarrow> is_dir H w' p)"

definition create_directory_law :: "('w, 'db, 'os) host \<Rightarrow> bool" where
  "create_directory_law H \<longleftrightarrow> (\<forall>w p b e w'. fs_CreateDirectory H w p = ((b, e), w') \<longrightarrow> dirs_kept H w w' \<and>
     host_undurable H w' \<subseteq> host_undurable H w \<union> (if b then {p} else {}) \<and> (b \<and> e = None \<longrightarrow> is_dir H w' p))"

definition open_directory_law :: "('w, 'db, 'os) host \<Rightarrow> bool" where
  "open_directory_law H \<longleftrightarrow> (\<forall>w p r w'. fs_OpenDirectory H w p = (r, w') \<longrightarrow> dirs_kept H w w' \<and>
     host_undurable H w' \<subseteq> host_undurable H w \<and> (\<forall>fd. r = Inr fd \<longrightarrow> host_fd H w' fd = Some p))"

definition fsync_directory_law :: "('w, 'db, 'os) host \<Rightarrow> bool" where
  "fsync_directory_law H \<longleftrightarrow> (\<forall>w fd r w'. fs_Fsync H w fd = (r, w') \<longrightarrow> dirs_kept H w w' \<and>
     host_undurable H w' \<subseteq> host_undurable H w \<and>
     (\<forall>p. r = Inr () \<and> host_fd H w fd = Some p \<longrightarrow> host_undurable H w' \<subseteq> host_undurable H w - {q. parent_path q = p}))"

definition close_directory_law :: "('w, 'db, 'os) host \<Rightarrow> bool" where
  "close_directory_law H \<longleftrightarrow> (\<forall>w fd r w'. fs_Close H w fd = (r, w') \<longrightarrow> dirs_kept H w w' \<and>
     host_undurable H w' \<subseteq> host_undurable H w)"

definition directory_laws :: "('w, 'db, 'os) host \<Rightarrow> bool" where
  "directory_laws H \<longleftrightarrow> create_directory_law H \<and> open_directory_law H \<and> fsync_directory_law H \<and> close_directory_law H"

definition database_laws :: "('w, 'db, 'os) host \<Rightarrow> ('db, 'snap, 'os) env \<Rightarrow> bool" where
  "database_laws H E \<longleftrightarrow>
     (\<forall>w p. fs_Exists H w p = (False, None) \<or> (\<exists>e. fs_Entries H w p = Inr ([], e)) \<longrightarrow>
        host_db H w (DatabasePath p) = None) \<and>
     (\<forall>w p st db w'. db_OpenCreate H w p = (st, db, w') \<and> rocks_ok st \<and> host_db H w p = None \<longrightarrow>
        db_contents (rocks E) db = Map.empty) \<and>
     (\<forall>db n st h db'. db_CreateColumnFamily H db n = (st, h, db') \<longrightarrow>
        db_contents (rocks E) db' = db_contents (rocks E) db) \<and>
     (\<forall>db h st db'. db_DestroyColumnFamilyHandle H db h = (st, db') \<longrightarrow>
        db_contents (rocks E) db' = db_contents (rocks E) db) \<and>
     (\<forall>w p db. host_db H (db_Close H w p db) p = Some (db_contents (rocks E) db)) \<and>
     (\<forall>w p ns st hs db w' m. db_OpenFamilies H w p ns = (st, hs, db, w') \<and> rocks_ok st \<and> host_db H w p = Some m \<longrightarrow>
        db_contents (rocks E) db = m)"

definition host_laws :: "('w, 'db, 'os) host \<Rightarrow> ('db, 'snap, 'os) env \<Rightarrow> bool" where
  "host_laws H E \<longleftrightarrow> directory_laws H \<and> database_laws H E"

lemma dirs_kept_refl [simp]: "dirs_kept H w w" and dirs_kept_trans: "dirs_kept H w w' \<Longrightarrow> dirs_kept H w' w'' \<Longrightarrow> dirs_kept H w w''"
  by (auto simp: dirs_kept_def)

lemma create_law:
  assumes "directory_laws H" and "fs_CreateDirectory H w p = ((b, e), w')"
  shows "dirs_kept H w w'" and "host_undurable H w' \<subseteq> host_undurable H w \<union> (if b then {p} else {})"
    and "b \<Longrightarrow> e = None \<Longrightarrow> is_dir H w' p"
  using assms unfolding directory_laws_def create_directory_law_def by blast+

lemma open_dir_law:
  assumes "directory_laws H" and "fs_OpenDirectory H w p = (r, w')"
  shows "dirs_kept H w w'" and "host_undurable H w' \<subseteq> host_undurable H w" and "r = Inr fd \<Longrightarrow> host_fd H w' fd = Some p"
  using assms unfolding directory_laws_def open_directory_law_def by blast+

lemma fsync_law:
  assumes "directory_laws H" and "fs_Fsync H w fd = (r, w')"
  shows "dirs_kept H w w'" and "host_undurable H w' \<subseteq> host_undurable H w"
    and "r = Inr () \<Longrightarrow> host_fd H w fd = Some p \<Longrightarrow> host_undurable H w' \<subseteq> host_undurable H w - {q. parent_path q = p}"
  using assms unfolding directory_laws_def fsync_directory_law_def by blast+

lemma close_law:
  assumes "directory_laws H" and "fs_Close H w fd = (r, w')"
  shows "dirs_kept H w w'" and "host_undurable H w' \<subseteq> host_undurable H w"
  using assms unfolding directory_laws_def close_directory_law_def by blast+

lemma database_lawsD:
  assumes "database_laws H E"
  shows "fs_Exists H w p = (False, None) \<Longrightarrow> host_db H w (DatabasePath p) = None"
    and "fs_Entries H w p = Inr ([], ec) \<Longrightarrow> host_db H w (DatabasePath p) = None"
    and "db_OpenCreate H w p = (st, db, w') \<Longrightarrow> rocks_ok st \<Longrightarrow> host_db H w p = None \<Longrightarrow> db_contents (rocks E) db = Map.empty"
    and "db_CreateColumnFamily H db n = (st, h, db') \<Longrightarrow> db_contents (rocks E) db' = db_contents (rocks E) db"
    and "db_DestroyColumnFamilyHandle H db h = (st, db') \<Longrightarrow> db_contents (rocks E) db' = db_contents (rocks E) db"
    and "host_db H (db_Close H w p db) p = Some (db_contents (rocks E) db)"
    and "db_OpenFamilies H w p ns = (st, hs, db, w') \<Longrightarrow> rocks_ok st \<Longrightarrow> host_db H w p = Some m \<Longrightarrow> db_contents (rocks E) db = m"
  using assms unfolding database_laws_def by (meson, meson, meson, meson, meson, meson, meson)

section \<open>Durable directories\<close>

lemma SyncDirectory_effect:
  assumes laws: "directory_laws H" and run: "SyncDirectory H p w = (r, w')"
  shows "dirs_kept H w w'" and "host_undurable H w' \<subseteq> host_undurable H w"
    and "r = Inr u \<Longrightarrow> host_undurable H w' \<subseteq> host_undurable H w - {q. parent_path q = p}"
proof -
  obtain r1 w1 where o: "fs_OpenDirectory H w p = (r1, w1)" by fastforce
  note o' = open_dir_law [OF laws o]
  have "dirs_kept H w w' \<and> host_undurable H w' \<subseteq> host_undurable H w \<and>
    (r = Inr () \<longrightarrow> host_undurable H w' \<subseteq> host_undurable H w - {q. parent_path q = p})"
  proof (cases r1)
    case (Inl e)
    with run o o' show ?thesis by (auto simp: SyncDirectory_def)
  next
    case (Inr fd)
    obtain r2 w2 where s: "fs_Fsync H w1 fd = (r2, w2)" by fastforce
    obtain r3 w3 where c: "fs_Close H w2 fd = (r3, w3)" by fastforce
    note s' = fsync_law [OF laws s] and c' = close_law [OF laws c]
    from run o s c Inr have w': "w' = w3" and ok: "r = Inr () \<Longrightarrow> r2 = Inr ()"
      by (auto simp: SyncDirectory_def split: sum.splits)
    have "host_undurable H w' \<subseteq> host_undurable H w - {q. parent_path q = p}" if "r = Inr ()"
      using s'(3) [OF ok [OF that] o'(3) [OF Inr]] c'(2) o'(2) unfolding w' by blast
    with w' o' s' c' show ?thesis by (meson dirs_kept_trans subset_trans)
  qed
  then show "dirs_kept H w w'" and "host_undurable H w' \<subseteq> host_undurable H w"
    and "r = Inr u \<Longrightarrow> host_undurable H w' \<subseteq> host_undurable H w - {q. parent_path q = p}" by auto
qed

lemma CreateDirectoryAndSyncParent_effect:
  assumes laws: "directory_laws H" and run: "CreateDirectoryAndSyncParent H p w = (Inr u, w')"
  shows "dirs_kept H w w'" and "is_dir H w' p" and "host_undurable H w' \<subseteq> host_undurable H w"
proof -
  obtain b e w1 where c: "fs_CreateDirectory H w p = ((b, e), w1)" by (metis prod.exhaust)
  note c' = create_law [OF laws c]
  from run c have e: "e = None" by (cases e) (simp_all add: CreateDirectoryAndSyncParent_def)
  have "dirs_kept H w w' \<and> is_dir H w' p \<and> host_undurable H w' \<subseteq> host_undurable H w"
  proof (cases b)
    case True
    with run c e have s: "SyncDirectory H (parent_path p) w1 = (Inr u, w')"
      by (simp add: CreateDirectoryAndSyncParent_def)
    note s' = SyncDirectory_effect [OF laws s]
    have "is_dir H w' p" using s'(1) c'(3) [OF True e] by (simp add: dirs_kept_def)
    moreover have "host_undurable H w' \<subseteq> host_undurable H w" using s'(3) [OF refl] c'(2) True by auto
    ultimately show ?thesis using dirs_kept_trans [OF c'(1) s'(1)] by blast
  next
    case False
    with run c e have "w' = w1" "is_dir H w1 p"
      by (auto simp: CreateDirectoryAndSyncParent_def split: if_splits)
    with c' False show ?thesis by simp
  qed
  then show "dirs_kept H w w'" and "is_dir H w' p" and "host_undurable H w' \<subseteq> host_undurable H w" by auto
qed

lemma create_all_effect:
  assumes laws: "directory_laws H"
  shows "create_all H ps w = (Inr u, w') \<Longrightarrow>
    dirs_kept H w w' \<and> (\<forall>p \<in> set ps. is_dir H w' p) \<and> host_undurable H w' \<subseteq> host_undurable H w"
proof (induction ps arbitrary: w)
  case (Cons p ps)
  then obtain v w1 where c: "CreateDirectoryAndSyncParent H p w = (Inr v, w1)" and rest: "create_all H ps w1 = (Inr u, w')"
    by (auto simp: bind_inv)
  note c' = CreateDirectoryAndSyncParent_effect [OF laws c] and IH = Cons.IH [OF rest]
  then have "is_dir H w' p" by (simp add: dirs_kept_def)
  with c' IH show ?case by (auto intro: dirs_kept_trans)
qed simp

lemma find_existing_result:
  "find_existing H w base missing current = Inr (missing', current', ec) \<Longrightarrow>
   base \<in> insert current (set missing) \<Longrightarrow> base \<in> insert current' (set missing') \<and> fs_Exists H w current' = (True, ec)"
proof (induction H w base missing current rule: find_existing.induct)
  case (1 H w base missing current)
  obtain b ec' where x: "fs_Exists H w current = (b, ec')" by fastforce
  show ?case
  proof (cases b)
    case True
    with 1 x show ?thesis by (subst (asm) (2) find_existing.simps) auto
  next
    case False
    with x "1.prems"(1) have ec': "ec' = None" and go: "\<not> (parent_path current = [] \<or> parent_path current = current)"
      by (auto simp: find_existing.simps [of H w base missing current] split: option.splits if_splits)
    with x False "1.prems"(1) have "find_existing H w base (missing @ [current]) (parent_path current) = Inr (missing', current', ec)"
      by (simp add: find_existing.simps [of H w base missing current])
    note next_step = "1.IH" [OF x [symmetric] _ ec' go this]
    show ?thesis by (rule next_step) (use False "1.prems"(2) in auto)
  qed
qed

lemma CreateDirectoryTreeDurably_effect:
  assumes laws: "directory_laws H" and run: "CreateDirectoryTreeDurably H base w = (Inr u, w')"
  shows "dirs_kept H w w' \<and> is_dir H w' base \<and> host_undurable H w' \<subseteq> host_undurable H w"
proof -
  from run obtain missing current where f: "find_existing H w base [] base = Inr (missing, current, None)"
    and d: "is_dir H w current" and c: "create_all H (rev missing) w = (Inr u, w')"
    by (auto simp: CreateDirectoryTreeDurably_def split: sum.splits if_splits)
  note c' = create_all_effect [OF laws c]
  have "base \<in> insert current (set missing)" using find_existing_result [OF f] by simp
  then have "is_dir H w' base" using c' d by (auto simp: dirs_kept_def)
  with c' show ?thesis by blast
qed

lemma CreateStorageDirectories_effect:
  assumes laws: "directory_laws H" and run: "CreateStorageDirectories H root_path w = (Inr u, w')"
  shows "dirs_kept H w w' \<and> host_undurable H w' \<subseteq> host_undurable H w \<and>
    (\<exists>base. absolute_path H w root_path = Inr base \<and> is_dir H w' base \<and> is_dir H w' (path_append base ''db'') \<and>
       is_dir H w' (path_append base ''objects''))"
proof -
  from run obtain base u1 w1 u2 w2 where abs: "absolute_path H w root_path = Inr base"
    and a: "CreateDirectoryTreeDurably H base w = (Inr u1, w1)"
    and b: "CreateDirectoryAndSyncParent H (path_append base ''db'') w1 = (Inr u2, w2)"
    and c: "CreateDirectoryAndSyncParent H (path_append base ''objects'') w2 = (Inr u, w')"
    by (auto simp: CreateStorageDirectories_def bind_inv split: sum.splits)
  note a' = CreateDirectoryTreeDurably_effect [OF laws a] and b' = CreateDirectoryAndSyncParent_effect [OF laws b]
    and c' = CreateDirectoryAndSyncParent_effect [OF laws c]
  from a' b' c' have "is_dir H w' base" "is_dir H w' (path_append base ''db'')" by (simp_all add: dirs_kept_def)
  with a' b' c' abs show ?thesis by (blast intro: dirs_kept_trans)
qed

section \<open>Initialization and opening\<close>

lemma new_root_no_db:
  assumes "database_laws H E" and "IsNewStorageRoot H w path"
  shows "host_db H w (DatabasePath path) = None"
  using assms(2) database_lawsD(1,2) [OF assms(1)]
  by (auto simp: IsNewStorageRoot_def IsEmptyDirectory_def split: prod.splits bool.splits option.splits sum.splits)

lemma initialize_db_contents:
  assumes env: "env_laws E" and laws: "database_laws H E" and "db_contents (rocks E) db = Map.empty"
    and ser: "message_SerializeToString (proto_lib E) (InitializationMessage ms) = Some b"
    and run: "initialize_db H E ms w db = (Inr u, db')"
  shows "db_contents (rocks E) db' = initial_contents b"
proof -
  obtain st messages db1 where c1: "db_CreateColumnFamily H db kMessagesColumnFamily = (st, messages, db1)"
    by (metis prod.exhaust)
  obtain st2 objects db2 where c2: "db_CreateColumnFamily H db1 kObjectsColumnFamily = (st2, objects, db2)"
    by (metis prod.exhaust)
  obtain r d where i: "InitializeNew_write E ms \<lparr>d_db = db2, d_os = w\<rparr> = (r, d)" by fastforce
  obtain st3 db3 where d1: "db_DestroyColumnFamilyHandle H (d_db d) objects = (st3, db3)" by fastforce
  obtain st4 db4 where d2: "db_DestroyColumnFamilyHandle H db3 messages = (st4, db4)" by fastforce
  from run c1 c2 i d1 d2 have "r = Inr ()" and db': "db' = db4"
    by (auto simp: initialize_db_def bind_inv split: sum.splits)
  moreover have "db_contents (rocks E) (d_db \<lparr>d_db = db2, d_os = w\<rparr>) = Map.empty"
    using database_lawsD(4) [OF laws c1] database_lawsD(4) [OF laws c2] assms(3) by simp
  ultimately have "db_contents (rocks E) (d_db d) = initial_contents b"
    using InitializeNew_contents [OF env _ ser] i by blast
  then show ?thesis using database_lawsD(5) [OF laws d1] database_lawsD(5) [OF laws d2] db' by simp
qed

lemma InitializeNew_effect:
  assumes env: "env_laws E" and laws: "host_laws H E" and no_db: "host_db H w (DatabasePath path) = None"
    and ser: "message_SerializeToString (proto_lib E) (InitializationMessage ms) = Some b"
    and run: "InitializeNew H E ms path w = (Inr u, w')"
  shows "host_db H w' (DatabasePath path) = Some (initial_contents b)"
proof -
  from laws have dirs: "directory_laws H" and dbs: "database_laws H E" by (simp_all add: host_laws_def)
  from run obtain u0 w0 where c: "CreateStorageDirectories H path w = (Inr u0, w0)"
    and rest: "(case db_OpenCreate H w0 (DatabasePath path) of (st, db, w1) \<Rightarrow>
       (case rocks_result E st ''create storage'' of Inl e \<Rightarrow> (Inl e, w1)
        | Inr _ \<Rightarrow> (case initialize_db H E ms w1 db of (r, db') \<Rightarrow> (r, db_Close H w1 (DatabasePath path) db')))) = (Inr u, w')"
    by (auto simp: InitializeNew_def bind_inv)
  obtain st db w1 where o: "db_OpenCreate H w0 (DatabasePath path) = (st, db, w1)" by (metis prod.exhaust)
  obtain r db' where i: "initialize_db H E ms w1 db = (r, db')" by fastforce
  from rest o i have st: "rocks_ok st" and r: "r = Inr u" and w': "w' = db_Close H w1 (DatabasePath path) db'"
    by (auto split: sum.splits)
  have "host_db H w0 (DatabasePath path) = None"
    using CreateStorageDirectories_effect [OF dirs c] no_db by (simp add: dirs_kept_def)
  then have "db_contents (rocks E) db = Map.empty" by (rule database_lawsD(3) [OF dbs o st])
  then have "db_contents (rocks E) db' = initial_contents b"
    by (rule initialize_db_contents [OF env dbs _ ser i [unfolded r]])
  then show ?thesis unfolding w' by (simp add: database_lawsD(6) [OF dbs])
qed

lemma OpenExisting_success:
  assumes "OpenExisting H E path w = (Inr d, w')"
  shows "\<exists>st hs db w1 os u. db_OpenFamilies H w (DatabasePath path)
      [kDefaultColumnFamilyName, kMessagesColumnFamily, kObjectsColumnFamily] = (st, hs, db, w1) \<and> rocks_ok st \<and>
    length hs = 3 \<and> ObjectFileStore_Open H (ObjectsPath path) w1 = (Inr os, w') \<and> Validate E db = Inr () \<and>
    RecoverPreparingObjects E \<lparr>d_db = db, d_os = os\<rparr> = (Inr u, d)"
proof -
  obtain st hs db w1 where o: "db_OpenFamilies H w (DatabasePath path)
      [kDefaultColumnFamilyName, kMessagesColumnFamily, kObjectsColumnFamily] = (st, hs, db, w1)" by (metis prod.exhaust)
  with assms have st: "rocks_ok st" by (auto simp: OpenExisting_def Let_def split: sum.splits)
  from o assms obtain a b c where hs: "hs = [a, b, c]"
    by (auto simp: OpenExisting_def Let_def split: sum.splits list.splits)
  obtain r w2 where f: "ObjectFileStore_Open H (ObjectsPath path) w1 = (r, w2)" by fastforce
  from st have ok: "rocks_result E st op = Inr ()" for op by simp
  from f o ok hs assms obtain os where r: "r = Inr os" by (auto simp: OpenExisting_def Let_def split: sum.splits)
  obtain v d0 where vr: "validate_and_recover E \<lparr>d_db = db, d_os = os\<rparr> = (v, d0)" by fastforce
  from assms o ok hs f r vr have "v = Inr ()" "d0 = d" "w2 = w'"
    by (auto simp: OpenExisting_def Let_def split: sum.splits)
  with vr have "Validate E db = Inr ()" "\<exists>u. RecoverPreparingObjects E \<lparr>d_db = db, d_os = os\<rparr> = (Inr u, d)"
    by (auto simp: validate_and_recover_def bind_inv)
  with o st hs f r \<open>w2 = w'\<close> show ?thesis by simp
qed

lemma ValidateStorageRootLayout_Inr:
  assumes "ValidateStorageRootLayout H w path = Inr u"
  shows "\<exists>names. fs_Entries H w path = Inr (names, None) \<and> set names = {''db'', ''objects''}"
    and "is_dir H w (DatabasePath path)" and "is_dir H w (ObjectsPath path)"
  using assms
  by (auto simp: ValidateStorageRootLayout_def DatabasePath_def ObjectsPath_def
      split: sum.splits prod.splits option.splits if_splits)

lemma UnifiedStorage_Open_success:
  assumes "UnifiedStorage_Open H E ms path w = (Inr d, w')"
  shows "\<exists>w1. path \<noteq> [] \<and> (if IsNewStorageRoot H w path then InitializeNew H E ms path w = (Inr (), w1) else w1 = w) \<and>
    ValidateStorageRootLayout H w1 path = Inr () \<and>
    set (snd (db_ListColumnFamilies H w1 (DatabasePath path))) =
      {kDefaultColumnFamilyName, kMessagesColumnFamily, kObjectsColumnFamily} \<and>
    OpenExisting H E path w1 = (Inr d, w')"
  using assms
  by (auto simp: UnifiedStorage_Open_def bind_inv case_prod_beta split: if_splits)

section \<open>A reference host\<close>

text \<open>A host whose calls all succeed, as an instance of the laws.\<close>

record ref_world =
  rw_dirs :: "string list"
  rw_dbs :: "(string \<times> ref_db) list"
  rw_fds :: "string list"
  rw_undurable :: "string list"

definition ref_fd :: "ref_world \<Rightarrow> nat \<Rightarrow> string option" where
  "ref_fd w fd = (if fd < length (rw_fds w) then Some (rw_fds w ! fd) else None)"

definition ref_filename :: "string \<Rightarrow> string" where
  "ref_filename p = drop (length (drop_filename p)) p"

definition ref_names :: "ref_world \<Rightarrow> string \<Rightarrow> string list" where
  "ref_names w p = (if map_of (rw_dbs w) (DatabasePath p) = None then [] else [''db'']) @
     map ref_filename (filter (\<lambda>d. d \<noteq> p \<and> parent_path d = p) (rw_dirs w))"

definition ref_host :: "(ref_world, ref_db, ref_os) host" where
  "ref_host = \<lparr>
     fs_Exists = (\<lambda>w p. (p \<in> set (rw_dirs w) \<or> map_of (rw_dbs w) (DatabasePath p) \<noteq> None, None)),
     fs_IsDirectory = (\<lambda>w p. (p \<in> set (rw_dirs w), None)),
     fs_Entries = (\<lambda>w p. Inr (ref_names w p, None)),
     fs_CreateDirectory = (\<lambda>w p. if p \<in> set (rw_dirs w) then ((False, None), w)
       else ((True, None), w\<lparr>rw_dirs := p # rw_dirs w, rw_undurable := p # rw_undurable w\<rparr>)),
     fs_CurrentPath = (\<lambda>w. Inr ''/''),
     fs_OpenDirectory = (\<lambda>w p. if p \<in> set (rw_dirs w)
       then (Inr (length (rw_fds w)), w\<lparr>rw_fds := rw_fds w @ [p]\<rparr>) else (Inl ENOENT, w)),
     fs_Fsync = (\<lambda>w fd. (Inr (), w\<lparr>rw_undurable := filter (\<lambda>q. ref_fd w fd \<noteq> Some (parent_path q)) (rw_undurable w)\<rparr>)),
     fs_Close = (\<lambda>w fd. (Inr (), w)),
     fs_View = (\<lambda>w fd. d_os ref_unfinished),
     fs_Release = (\<lambda>w os. w),
     fs_strerror = (\<lambda>_. ''error''),
     db_ListColumnFamilies = (\<lambda>w p. (ref_ok, [''default'', ''messages'', ''objects''])),
     db_OpenCreate = (\<lambda>w p. (ref_ok, [], w)),
     db_OpenFamilies = (\<lambda>w p ns. (ref_ok, [0, 1, 2], (case map_of (rw_dbs w) p of None \<Rightarrow> [] | Some db \<Rightarrow> db), w)),
     db_CreateColumnFamily = (\<lambda>db n. (ref_ok, 0, db)),
     db_DestroyColumnFamilyHandle = (\<lambda>db h. (ref_ok, db)),
     db_Close = (\<lambda>w p db. w\<lparr>rw_dbs := (p, db) # rw_dbs w\<rparr>),
     host_db = (\<lambda>w p. map_option map_of (map_of (rw_dbs w) p)),
     host_fd = ref_fd,
     host_undurable = (\<lambda>w. set (rw_undurable w))\<rparr>"

lemma ref_host_laws: "host_laws ref_host ref_env"
proof -
  have "create_directory_law ref_host" "open_directory_law ref_host" "fsync_directory_law ref_host"
    "close_directory_law ref_host"
    unfolding create_directory_law_def open_directory_law_def fsync_directory_law_def close_directory_law_def
    by (auto simp: ref_host_def dirs_kept_def ref_fd_def split: if_splits)
  moreover have "database_laws ref_host ref_env"
    by (auto simp: database_laws_def ref_host_def ref_names_def split: if_splits)
  ultimately show ?thesis by (simp add: host_laws_def directory_laws_def)
qed

text \<open>A host with a root directory and nothing else.\<close>

definition ref_fresh :: ref_world where
  "ref_fresh = \<lparr>rw_dirs = [''/''], rw_dbs = [], rw_fds = [], rw_undurable = []\<rparr>"

lemma ref_paths [simp]:
  "path_append ''/s'' ''db'' = ''/s/db''" "path_append ''/s'' ''objects'' = ''/s/objects''"
  "parent_path ''/s'' = ''/''" "parent_path ''/s/db'' = ''/s''" "parent_path ''/s/objects'' = ''/s''"
  "parent_path ''/'' = ''/''" "ref_filename ''/s/db'' = ''db''" "ref_filename ''/s/objects'' = ''objects''"
  by (simp_all add: path_append_def is_absolute_def parent_path_def drop_filename_def drop_separators_def ref_filename_def Let_def)

lemma ref_directories:
  "CreateStorageDirectories ref_host ''/s'' ref_fresh =
     (Inr (), \<lparr>rw_dirs = [''/s/objects'', ''/s/db'', ''/s'', ''/''], rw_dbs = [], rw_fds = [''/'', ''/s'', ''/s''],
        rw_undurable = []\<rparr>)"
  by (simp add: CreateStorageDirectories_def absolute_path_def is_absolute_def CreateDirectoryTreeDurably_def
      find_existing.simps CreateDirectoryAndSyncParent_def SyncDirectory_def ref_host_def ref_fresh_def DatabasePath_def
      ref_fd_def bindM_def)

end
