(* ===== verification/Reopen.thy ===== *)
theory Reopen
  imports Server_Properties Stored_Reads Storage_Open
begin

text \<open>
  The life of a storage across processes: the storage a server leaves behind at any moment, whichever of
  its operations was interrupted or failed, is accepted when it is opened again, and a new storage root
  becomes a storage the server can start on.
\<close>

section \<open>Storages that pass the validation\<close>

text \<open>
  Sound contents pass the validation. The condition is on the contents alone, so it does not matter that another process
  reads them.
\<close>

lemma sound_passes:
  assumes laws: "env_laws E" and ok: "sound (proto_lib E) (db_contents (rocks E) db)"
    and json: "json_laws (proto_lib E)"
  shows "reads_or_exits (Validate E db) ()"
proof -
  let ?m = "db_contents (rocks E) db" and ?l = "log_of (proto_lib E) (db_contents (rocks E) db)"
  have cell: "\<exists>v. ?m (Meta, k) = Some (EncodeUint64 v) \<and> counter_at ?m k = v" if "k \<in> counter_keys" for k
    using ok counter_cell [OF _ that, of "proto_lib E"] by (auto simp: sound_def)
  from ok have "lg_next_uuid ?l \<noteq> 0" "lg_next_channel_id ?l \<noteq> 0" "lg_next_object_id ?l \<noteq> 0"
    by (auto simp: sound_def log_ok_def uuids_ok_def channels_ok_def dom_def)
  then have counters: "counter_at ?m kNextUuidKey \<noteq> 0" "counter_at ?m kNextChannelIdKey \<noteq> 0" "counter_at ?m kNextObjectIdKey \<noteq> 0"
    by (simp_all add: log_of_def)
  obtain b ms where b: "?m (Messages, NumericKey kMessagePrefix 0) = Some b"
    "message_ParseFromString (proto_lib E) b = Some (InitializationMessage ms)"
    using ok by (auto simp: sound_def log_of_def bind_eq_Some_conv)
  obtain v where v: "?m (Meta, NumericKey kUuidPrefix 0) = Some (EncodeUint64 v)" "v = 0"
    using ok number_cell [of "proto_lib E" ?m "NumericKey kUuidPrefix 0"] by (auto simp: sound_def log_of_def number_cells_def)
  have keys: "kMaxSeqKey \<in> counter_keys" "kNextUuidKey \<in> counter_keys" "kNextChannelIdKey \<in> counter_keys"
    "kNextObjectIdKey \<in> counter_keys" by (simp_all add: counter_keys_def)
  from cell [OF keys(1)] cell [OF keys(2)] cell [OF keys(3)] cell [OF keys(4)] counters
  obtain n a i j where c: "?m (Meta, kMaxSeqKey) = Some (EncodeUint64 n)"
    "?m (Meta, kNextUuidKey) = Some (EncodeUint64 a)" "a \<noteq> 0" "?m (Meta, kNextChannelIdKey) = Some (EncodeUint64 i)" "i \<noteq> 0"
    "?m (Meta, kNextObjectIdKey) = Some (EncodeUint64 j)" "j \<noteq> 0" by metis
  have "?m (Meta, kSchemaVersionKey) = Some (EncodeUint64 kSchemaVersion)"
    using ok by (simp add: sound_def well_encoded_def)
  from Validate_passes [OF laws refl this c v(1) [unfolded v(2)] b InitializationMessage_valid [OF json]] show ?thesis .
qed

section \<open>Opening again\<close>

lemma reopened_log:
  assumes "env_laws E" and "database_laws H E" and "host_db H w (DatabasePath path) = Some m"
    and "OpenExisting H E path w = (Inr d, w')"
  shows "log_at E d = (log_of (proto_lib E) m)\<lparr>lg_preparing := Map.empty\<rparr>"
proof -
  from OpenExisting_success [OF assms(4)] obtain st hs db w1 os u where
    f: "db_OpenFamilies H w (DatabasePath path) [kDefaultColumnFamilyName, kMessagesColumnFamily, kObjectsColumnFamily] =
      (st, hs, db, w1)" "rocks_ok st" and r: "RecoverPreparingObjects E \<lparr>d_db = db, d_os = os\<rparr> = (Inr u, d)" by blast
  from Recover_result(1) [OF assms(1) r] database_lawsD(7) [OF assms(2) f assms(3)] show ?thesis by simp
qed

text \<open>Opening a storage root that does not exist or is empty yields the initial contents.\<close>

lemma new_root_contents:
  assumes "env_laws E" and "host_laws H E" and "IsNewStorageRoot H w path"
    and "message_SerializeToString (proto_lib E) (InitializationMessage ms) = Some b"
    and "UnifiedStorage_Open H E ms path w = (Inr d, w')"
  shows "contents E d = initial_contents b"
proof -
  from UnifiedStorage_Open_success [OF assms(5)] assms(3) obtain w1
    where i: "InitializeNew H E ms path w = (Inr (), w1)" and o: "OpenExisting H E path w1 = (Inr d, w')" by auto
  have dbs: "database_laws H E" using assms(2) by (simp add: host_laws_def)
  have stored: "host_db H w1 (DatabasePath path) = Some (initial_contents b)"
    by (rule InitializeNew_effect [OF assms(1,2) new_root_no_db [OF dbs assms(3)] assms(4) i])
  from OpenExisting_success [OF o] obtain st hs db w2 os u
    where f: "db_OpenFamilies H w1 (DatabasePath path)
        [kDefaultColumnFamilyName, kMessagesColumnFamily, kObjectsColumnFamily] = (st, hs, db, w2)" "rocks_ok st"
      and r: "RecoverPreparingObjects E \<lparr>d_db = db, d_os = os\<rparr> = (Inr u, d)" by blast
  have db: "db_contents (rocks E) db = initial_contents b" by (rule database_lawsD(7) [OF dbs f stored])
  then have "d = \<lparr>d_db = db, d_os = os\<rparr>" by (intro Recover_nothing [OF assms(1) r]) (simp add: initial_objects)
  then show ?thesis by (simp add: db)
qed

section \<open>Properties\<close>

text \<open>
  C25: Whatever the server has done, and whenever it stopped, its storage is accepted when it is opened again:
  the validation passes unless the database itself reports an error, and once the storage is open its log is the one
  the server left, with nothing in preparation.
\<close>

theorem storage_reopens:
  assumes "env_laws E" and "host_laws H E" and "reachable E (c, w0)"
    and "json_laws (proto_lib E)"
    and "host_db H w (DatabasePath path) = Some (contents E c)"
    and "db_OpenFamilies H w (DatabasePath path) [kDefaultColumnFamilyName, kMessagesColumnFamily, kObjectsColumnFamily] =
      (st, handles, db, w1)" and "rocks_ok st"
  shows "reads_or_exits (Validate E db) () \<and>
    (\<forall>d w'. OpenExisting H E path w = (Inr d, w') \<longrightarrow> log_at E d = (log_at E c)\<lparr>lg_preparing := Map.empty\<rparr>)"
proof -
  have "database_laws H E" using assms(2) by (simp add: host_laws_def)
  from database_lawsD(7) [OF this assms(6,7,5)] have db: "db_contents (rocks E) db = contents E c" .
  have "sound (proto_lib E) (db_contents (rocks E) db)" using reachable_sound [OF assms(1,3)] db by simp
  then have "reads_or_exits (Validate E db) ()" by (rule sound_passes [OF assms(1) _ assms(4)])
  moreover have "log_at E d = (log_at E c)\<lparr>lg_preparing := Map.empty\<rparr>" if "OpenExisting H E path w = (Inr d, w')" for d w'
    using reopened_log [OF assms(1) _ assms(5) that] assms(2) by (simp add: host_laws_def)
  ultimately show ?thesis by blast
qed

text \<open>
  C31: A root that holds anything else than the two directories is refused, and nothing in it is touched.
\<close>

theorem foreign_root_refused:
  assumes "path \<noteq> []" and "fs_Exists H w path = (True, None)" and "fs_Entries H w path = Inr (names, None)"
    and "names \<noteq> []" and "set names \<noteq> {''db'', ''objects''}"
  shows "UnifiedStorage_Open H E ms path w =
    (Inl (mk_status INTERNAL ''storage root must contain only db and objects directories''), w)"
proof -
  have "\<not> IsNewStorageRoot H w path"
    using assms by (auto simp: IsNewStorageRoot_def IsEmptyDirectory_def split: prod.splits option.splits bool.splits)
  moreover have "ValidateStorageRootLayout H w path = Inl bad_layout"
    using assms by (simp add: ValidateStorageRootLayout_def)
  ultimately show ?thesis using assms(1) by (simp add: UnifiedStorage_Open_def bad_layout_def bindM_def)
qed

text \<open>
  C32: After the directories of the storage have been created, the root and its two directories exist, and each of
  the directories on the way that had to be created is durable: its parent has been synced.
\<close>

theorem storage_directories_durable:
  assumes "directory_laws H" and "CreateStorageDirectories H root_path w = (Inr u, w')" and "host_undurable H w = {}"
  shows "host_undurable H w' = {} \<and> (\<exists>base. absolute_path H w root_path = Inr base \<and> is_dir H w' base \<and>
    is_dir H w' (path_append base ''db'') \<and> is_dir H w' (path_append base ''objects''))"
  using CreateStorageDirectories_effect [OF assms(1,2)] assms(3) by auto

section \<open>A run of the reference host\<close>

lemma ref_initial_contents: "map_of ref_initial_db = initial_contents (put_message (InitializationMessage 5))"
  unfolding ref_initial_db_def ref_write_contents InitializationBatch_def initial_contents_def
  using ref_initial_serialized by simp

lemma ref_initial_validates: "Validate ref_env ref_initial_db = Inr ()"
proof -
  have "reads_or_exits (Validate ref_env ref_initial_db) ()"
    by (rule Validate_initial [OF ref_env_laws _ proto_lawsD(1) [OF env_lawsD(2) [OF ref_env_laws] ref_initial_serialized]
          InitializationMessage_valid [OF ref_env_json]]) (simp add: ref_initial_contents)
  moreover have "Validate ref_env ref_initial_db = Inl e \<Longrightarrow> \<not> st_requires_server_exit e" for e
    by (auto simp: Validate_def bind_inv GetMaxSeq_def GetNextUuid_def GetNextChannelId_def GetNextObjectId_def
        GetRequiredUint64_def GetUsedUuidSeq_def ref_lookup_def DecodeRequiredUint64_def StorageCorruption_def Let_def
        split: option.splits if_splits prod.splits)
  ultimately show ?thesis by (auto simp: reads_or_exits_def)
qed

lemma ref_initial_recovers: "RecoverPreparingObjects ref_env \<lparr>d_db = ref_initial_db, d_os = os\<rparr> = (Inr (), \<lparr>d_db = ref_initial_db, d_os = os\<rparr>)"
proof -
  have "ref_entries ref_initial_db Objects kPreparingObjectPrefix = []"
    by (simp add: ref_entries_def ref_keys_def ref_initial_db_def InitializationBatch_def)
  moreover have "db_Latest (rocks ref_env) db = db" for db by (simp add: ref_env_def ref_rocks_def)
  ultimately have "ListPreparingObjects ref_env ref_initial_db = Inr []"
    by (simp add: ListPreparingObjects_def iter_status_def)
  then show ?thesis by (simp add: RecoverPreparingObjects_def bindM_def)
qed

lemma ref_host_db [simp]:
  "db_OpenCreate ref_host w p = (ref_ok, [], w)" "db_CreateColumnFamily ref_host db n = (ref_ok, 0, db)"
  "db_DestroyColumnFamilyHandle ref_host db h = (ref_ok, db)" "db_Close ref_host w p db = w\<lparr>rw_dbs := (p, db) # rw_dbs w\<rparr>"
  "db_OpenFamilies ref_host w p ns = (ref_ok, [0, 1, 2], (case map_of (rw_dbs w) p of None \<Rightarrow> [] | Some db \<Rightarrow> db), w)"
  "db_ListColumnFamilies ref_host w p = (ref_ok, [''default'', ''messages'', ''objects''])"
  "fs_Entries ref_host w p = Inr (ref_names w p, None)" "fs_IsDirectory ref_host w p = (p \<in> set (rw_dirs w), None)"
  "fs_Exists ref_host w p = (p \<in> set (rw_dirs w) \<or> map_of (rw_dbs w) (DatabasePath p) \<noteq> None, None)"
  "host_db ref_host w p = map_option map_of (map_of (rw_dbs w) p)" "host_undurable ref_host w = set (rw_undurable w)"
  by (simp_all add: ref_host_def)

definition ref_initialized :: ref_world where
  "ref_initialized = \<lparr>rw_dirs = [''/s/objects'', ''/s/db'', ''/s'', ''/''],
     rw_dbs = [(''/s/db'', ref_initial_db)], rw_fds = [''/'', ''/s'', ''/s''], rw_undurable = []\<rparr>"

lemma ref_InitializeNew: "InitializeNew ref_host ref_env 5 ''/s'' ref_fresh = (Inr (), ref_initialized)"
proof -
  have "initialize_db ref_host ref_env 5 w [] = (Inr (), ref_initial_db)" for w
    by (simp add: initialize_db_def InitializeNew_write_def ref_initial_db_def del: fold.simps fold_simps)
  then show ?thesis by (simp add: InitializeNew_def bindM_def ref_directories DatabasePath_def ref_initialized_def)
qed

definition ref_opened :: "(ref_db, ref_os) disk" where
  "ref_opened = \<lparr>d_db = ref_initial_db, d_os = d_os ref_unfinished\<rparr>"

lemma ref_Open:
  "\<exists>w. OpenExisting ref_host ref_env ''/s'' ref_initialized = (Inr ref_opened, w)"
  "\<exists>w. UnifiedStorage_Open ref_host ref_env 5 ''/s'' ref_fresh = (Inr ref_opened, w)"
proof -
  have "\<exists>w. ObjectFileStore_Open ref_host ''/s/objects'' ref_initialized = (Inr (d_os ref_unfinished), w)"
    by (simp add: ObjectFileStore_Open_def ref_host_def ref_initialized_def)
  then obtain w where files: "ObjectFileStore_Open ref_host ''/s/objects'' ref_initialized = (Inr (d_os ref_unfinished), w)" ..
  have "rw_dbs ref_initialized = [(''/s/db'', ref_initial_db)]" by (simp add: ref_initialized_def)
  then show opened: "\<exists>w. OpenExisting ref_host ref_env ''/s'' ref_initialized = (Inr ref_opened, w)"
    using files by (simp add: OpenExisting_def DatabasePath_def ObjectsPath_def validate_and_recover_def bindM_def
        ref_initial_validates ref_initial_recovers ref_opened_def)
  have "ValidateStorageRootLayout ref_host ref_initialized ''/s'' = Inr ()"
    by (simp add: ValidateStorageRootLayout_def ref_names_def DatabasePath_def ref_initialized_def insert_commute)
  moreover have "IsNewStorageRoot ref_host ref_fresh ''/s''"
    by (simp add: IsNewStorageRoot_def IsEmptyDirectory_def ref_fresh_def)
  ultimately show "\<exists>w. UnifiedStorage_Open ref_host ref_env 5 ''/s'' ref_fresh = (Inr ref_opened, w)"
    using opened by (simp add: UnifiedStorage_Open_def bindM_def ref_InitializeNew kDefaultColumnFamilyName_def
        kMessagesColumnFamily_def kObjectsColumnFamily_def)
qed

theorem storage_reopens_witness:
  "\<exists>d w. OpenExisting ref_host ref_env ''/s'' ref_initialized = (Inr d, w) \<and>
     log_at ref_env d = (log_at ref_env ref_start_core)\<lparr>lg_preparing := Map.empty\<rparr>"
proof -
  let ?families = "[kDefaultColumnFamilyName, kMessagesColumnFamily, kObjectsColumnFamily]"
  have stored: "host_db ref_host ref_initialized (DatabasePath ''/s'') = Some (contents ref_env ref_start_core)"
    by (simp add: ref_initialized_def DatabasePath_def ref_start_core_def)
  have opened: "db_OpenFamilies ref_host ref_initialized (DatabasePath ''/s'') ?families =
      (ref_ok, [0, 1, 2], ref_initial_db, ref_initialized)"
    by (simp add: ref_initialized_def DatabasePath_def)
  have ok: "rocks_ok ref_ok" by simp
  note reopened = storage_reopens [OF ref_env_laws ref_host_laws ref_reach_start ref_env_json stored opened ok]
  from ref_Open(1) obtain w where run: "OpenExisting ref_host ref_env ''/s'' ref_initialized = (Inr ref_opened, w)" ..
  from reopened run show ?thesis by blast
qed

theorem foreign_root_refused_witness:
  "UnifiedStorage_Open ref_host ref_env 5 ''/s'' \<lparr>rw_dirs = [''/s/x'', ''/s'', ''/''], rw_dbs = [], rw_fds = [], rw_undurable = []\<rparr> =
     (Inl (mk_status INTERNAL ''storage root must contain only db and objects directories''),
      \<lparr>rw_dirs = [''/s/x'', ''/s'', ''/''], rw_dbs = [], rw_fds = [], rw_undurable = []\<rparr>)"
proof -
  let ?w = "\<lparr>rw_dirs = [''/s/x'', ''/s'', ''/''], rw_dbs = [], rw_fds = [], rw_undurable = []\<rparr> :: ref_world"
  have names: "ref_names ?w ''/s'' = [''x'']"
    by (simp add: ref_names_def ref_filename_def parent_path_def drop_filename_def drop_separators_def Let_def)
  show ?thesis by (rule foreign_root_refused [where names = "[''x'']"]) (simp_all add: names)
qed

theorem storage_directories_durable_witness:
  "\<exists>w. CreateStorageDirectories ref_host ''/s'' ref_fresh = (Inr (), w) \<and> host_undurable ref_host w = {} \<and>
     is_dir ref_host w ''/s/objects''"
proof -
  have laws: "directory_laws ref_host" using ref_host_laws by (simp add: host_laws_def)
  have "host_undurable ref_host ref_fresh = {}" by (simp add: ref_fresh_def)
  from storage_directories_durable [OF laws ref_directories this] ref_directories show ?thesis
    by (auto simp: absolute_path_def is_absolute_def)
qed

end
