(* ===== verification/Server_Start.thy ===== *)
theory Server_Start
  imports Server_Main Reopen
begin

text \<open>
  \<^verbatim>\<open>src/server/main.cpp\<close>: the start of the process. The configuration is loaded, the storage opened, the core
  constructed and the two servers are built and started; a failure on the way is reported and ends the process. What
  the process has printed and which servers it runs is part of the state.
\<close>

section \<open>The servers\<close>

datatype grpc_service = EventService | ObjectStorageService | ChannelService | AdminService

text \<open>What a \<^verbatim>\<open>grpc::ServerBuilder\<close> has been told.\<close>

record server_builder =
  sb_max_receive :: nat
  sb_max_send :: nat
  sb_arguments :: "(string \<times> nat) list"
  sb_ports :: "string list"
  sb_services :: "grpc_service list"

definition kSubscribeKeepaliveTimeMs :: nat where "kSubscribeKeepaliveTimeMs = 30 * 1000"

definition kSubscribeKeepaliveTimeoutMs :: nat where "kSubscribeKeepaliveTimeoutMs = 10 * 1000"

definition kMinimumClientPingIntervalMs :: nat where "kMinimumClientPingIntervalMs = 20 * 1000"

definition ConfigurePublicServerKeepalive :: "server_builder \<Rightarrow> server_builder" where
  "ConfigurePublicServerKeepalive builder = builder\<lparr>sb_arguments := sb_arguments builder @
     [(''grpc.keepalive_time_ms'', kSubscribeKeepaliveTimeMs),
      (''grpc.keepalive_timeout_ms'', kSubscribeKeepaliveTimeoutMs),
      (''grpc.http2.ping_timeout_ms'', kSubscribeKeepaliveTimeoutMs),
      (''grpc.keepalive_permit_without_calls'', 1),
      (''grpc.http2.min_ping_interval_without_data_ms'', kMinimumClientPingIntervalMs),
      (''grpc.http2.max_pings_without_data'', 0),
      (''grpc.http2.max_ping_strikes'', 2)]\<rparr>"

definition new_builder :: server_builder where
  "new_builder = \<lparr>sb_max_receive = kGrpcMessageBytes, sb_max_send = kGrpcMessageBytes, sb_arguments = [], sb_ports = [],
     sb_services = []\<rparr>"

definition admin_builder :: "server_config \<Rightarrow> server_builder" where
  "admin_builder config = new_builder\<lparr>sb_ports := [admin_listen_addr config], sb_services := [AdminService]\<rparr>"

definition public_builder :: "server_config \<Rightarrow> server_builder" where
  "public_builder config = (ConfigurePublicServerKeepalive new_builder)
     \<lparr>sb_ports := [grpc_listen_addr config], sb_services := [EventService, ObjectStorageService, ChannelService]\<rparr>"

section \<open>The process while it starts\<close>

datatype main_output = Cerr string | Cout string

record 'w main_io =
  io_world :: 'w
  io_output :: "main_output list"
  io_servers :: "server_builder list"

text \<open>The calls of the operating system and of the gRPC library; \<open>server_BuildAndStart\<close> tells whether there is a server.\<close>

record 'w main_calls =
  pthread_sigmask :: "'w \<Rightarrow> int \<times> 'w"
  server_BuildAndStart :: "server_builder \<Rightarrow> 'w \<Rightarrow> bool \<times> 'w"
  server_Shutdown :: "server_builder \<Rightarrow> 'w \<Rightarrow> 'w"
  code_number :: "status_code \<Rightarrow> nat"

type_synonym ('w, 'a) main_op = "('w main_io, nat, 'a) op"

definition print_line :: "(string \<Rightarrow> main_output) \<Rightarrow> string \<Rightarrow> ('w, unit) main_op" where
  "print_line stream line s = (Inr (), s\<lparr>io_output := io_output s @ [stream (line @ [CHR 0x0A])]\<rparr>)"

definition on_world :: "('w \<Rightarrow> 'a \<times> 'w) \<Rightarrow> ('w, 'a) main_op" where
  "on_world f s = (case f (io_world s) of (a, w) \<Rightarrow> (Inr a, s\<lparr>io_world := w\<rparr>))"

definition exit_with :: "string \<Rightarrow> ('w, 'a) main_op" where
  "exit_with line = bindM (print_line Cerr line) (\<lambda>_. failM 1)"

definition value_or_exit :: "'a result \<Rightarrow> ('w, 'a) main_op" where
  "value_or_exit r = (case r of Inl e \<Rightarrow> exit_with (st_message e) | Inr a \<Rightarrow> retM a)"

definition start_server :: "'w main_calls \<Rightarrow> server_builder \<Rightarrow> ('w, bool) main_op" where
  "start_server G builder =
     bindM (on_world (server_BuildAndStart G builder)) (\<lambda>started s.
       (Inr started, if started then s\<lparr>io_servers := builder # io_servers s\<rparr> else s))"

definition shutdown_server :: "'w main_calls \<Rightarrow> server_builder \<Rightarrow> ('w, unit) main_op" where
  "shutdown_server G builder s =
     (Inr (), s\<lparr>io_world := server_Shutdown G builder (io_world s), io_servers := remove1 builder (io_servers s)\<rparr>)"

definition PrintUsage :: "string \<Rightarrow> ('w, unit) main_op" where
  "PrintUsage program = print_line Cerr (''usage: '' @ program @ '' <config.yaml>'')"

text \<open>The handler of fatal errors reports every status it is called with.\<close>

fun report_fatal :: "'w main_calls \<Rightarrow> status list \<Rightarrow> ('w, unit) main_op" where
  "report_fatal G [] = retM ()"
| "report_fatal G (s # r) = bindM (print_line Cerr (FatalLogMessage (code_number G) s)) (\<lambda>_. report_fatal G r)"

section \<open>The start\<close>

definition start_servers :: "'w main_calls \<Rightarrow> server_config \<Rightarrow> ('w, unit) main_op" where
  "start_servers G config =
     bindM (start_server G (admin_builder config)) (\<lambda>admin_server.
     if \<not> admin_server then exit_with (''failed to start admin server at '' @ admin_listen_addr config)
     else
     bindM (start_server G (public_builder config)) (\<lambda>public_server.
     if \<not> public_server then
       bindM (print_line Cerr (''failed to start public server at '' @ grpc_listen_addr config)) (\<lambda>_.
       bindM (shutdown_server G (admin_builder config)) (\<lambda>_. failM 1))
     else
     bindM (print_line Cout (''OpenEvent public gRPC listening on '' @ grpc_listen_addr config)) (\<lambda>_.
     print_line Cout (''OpenEvent admin gRPC listening on '' @ admin_listen_addr config))))"

text \<open>\<open>program\<close> and \<open>arguments\<close> are \<^verbatim>\<open>argv\<close>; \<open>event_ms\<close> is the time at which a new storage is initialized.\<close>

definition main_start :: "('w, 'db, 'os) host \<Rightarrow> ('db, 'snap, 'os) env \<Rightarrow> config_files \<Rightarrow> 'node yaml \<Rightarrow> 'w main_calls \<Rightarrow>
    int \<Rightarrow> string \<Rightarrow> string list \<Rightarrow> ('w, ('db, 'snap, 'os) env \<times> ('db, 'snap, 'os) core) main_op" where
  "main_start H E F Y G event_ms program arguments =
     (case arguments of
        [config_path] \<Rightarrow>
      bindM (value_or_exit (LoadServerConfig F Y config_path)) (\<lambda>config.
      bindM (on_world (pthread_sigmask G)) (\<lambda>rc.
      if rc \<noteq> 0 then exit_with ''failed to block shutdown signals''
      else
      bindM (on_world (UnifiedStorage_Open H E event_ms (storage_path config))) (\<lambda>storage_result.
      bindM (value_or_exit storage_result) (\<lambda>storage.
      let E' = core_env E (cfg_max_payload_bytes config) 10000 0 True;
          core = OpenEventCore E' storage
      in bindM (report_fatal G (fatal_handler_calls core)) (\<lambda>_.
      if fatal_handler_calls core \<noteq> [] then failM 1
      else bindM (start_servers G config) (\<lambda>_. retM (E', core)))))))
      | _ \<Rightarrow> bindM (PrintUsage program) (\<lambda>_. failM 1))"

section \<open>Every exit is reported\<close>

text \<open>The process has printed something, and only errors; the servers that run are the same.\<close>

definition reported :: "'w main_io \<Rightarrow> 'w main_io \<Rightarrow> bool" where
  "reported s s' \<longleftrightarrow> io_servers s' = io_servers s \<and>
     (\<exists>out. out \<noteq> [] \<and> set out \<subseteq> range Cerr \<and> io_output s' = io_output s @ out)"

lemma exit_with_result: "exit_with line s = (r, s') \<longleftrightarrow> r = Inl 1 \<and> s' = s\<lparr>io_output := io_output s @ [Cerr (line @ [CHR 0x0A])]\<rparr>"
  by (auto simp: exit_with_def print_line_def bindM_def)

lemma value_or_exit_result:
  "value_or_exit x s = (Inr a, s') \<longleftrightarrow> x = Inr a \<and> s' = s"
  "value_or_exit x s = (Inl n, s') \<Longrightarrow> n = 1 \<and> reported s s'"
  by (auto simp: value_or_exit_def exit_with_result reported_def split: sum.splits)

lemma on_world_result: "on_world f s = (r, s') \<longleftrightarrow> (\<exists>a w. f (io_world s) = (a, w) \<and> r = Inr a \<and> s' = s\<lparr>io_world := w\<rparr>)"
  by (auto simp: on_world_def split: prod.splits)

lemma reported_world [simp]: "reported (s\<lparr>io_world := w\<rparr>) s' \<longleftrightarrow> reported s s'"
  by (simp add: reported_def)

lemma report_fatal_result:
  "\<exists>out. report_fatal G ss s = (Inr (), s\<lparr>io_output := io_output s @ out\<rparr>) \<and> set out \<subseteq> range Cerr \<and> (out = [] \<longleftrightarrow> ss = [])"
proof (induction ss arbitrary: s)
  case (Cons a ss)
  let ?line = "Cerr (FatalLogMessage (code_number G) a @ [CHR 0x0A])"
  from Cons [of "s\<lparr>io_output := io_output s @ [?line]\<rparr>"] obtain out where
    "report_fatal G ss (s\<lparr>io_output := io_output s @ [?line]\<rparr>) = (Inr (), s\<lparr>io_output := io_output s @ ?line # out\<rparr>)"
    "set out \<subseteq> range Cerr" by auto
  then show ?case by (intro exI [of _ "?line # out"]) (simp add: print_line_def bindM_def)
qed simp

lemma start_server_result:
  "start_server G b s = (r, s') \<longleftrightarrow> (\<exists>started w. server_BuildAndStart G b (io_world s) = (started, w) \<and> r = Inr started \<and>
     s' = s\<lparr>io_world := w, io_servers := (if started then [b] else []) @ io_servers s\<rparr>)"
  by (auto simp: start_server_def bindM_def on_world_def split: prod.splits)

lemma start_servers_Inr:
  "start_servers G config s = (Inr u, s') \<Longrightarrow> io_servers s' = [public_builder config, admin_builder config] @ io_servers s"
  by (auto simp: start_servers_def bind_inv start_server_result exit_with_result print_line_def split: if_splits)

lemma start_servers_Inl: "start_servers G config s = (Inl n, s') \<Longrightarrow> n = 1 \<and> reported s s'"
  by (auto simp: start_servers_def bind_inv start_server_result exit_with_result print_line_def shutdown_server_def
      reported_def split: if_splits)

text \<open>Rules for the outcome of the steps.\<close>

lemma reported_exit: "(\<And>s'. reported s s' \<Longrightarrow> R 1 s') \<Longrightarrow> runs (exit_with line) s Q R"
  by (simp add: runs_def exit_with_def print_line_def bindM_def reported_def)

lemma reported_value:
  "(\<And>a. x = Inr a \<Longrightarrow> Q a s) \<Longrightarrow> (\<And>s'. reported s s' \<Longrightarrow> R 1 s') \<Longrightarrow> runs (value_or_exit x) s Q R"
  by (cases x) (simp_all add: value_or_exit_def reported_exit runs_basic)

lemma reported_on_world: "(\<And>a w. Q a (s\<lparr>io_world := w\<rparr>)) \<Longrightarrow> runs (on_world f) s Q R"
  by (simp add: runs_def on_world_def split: prod.split)

lemma reported_servers: "(\<And>s'. Q () s') \<Longrightarrow> (\<And>s'. reported s s' \<Longrightarrow> R 1 s') \<Longrightarrow> runs (start_servers G config) s Q R"
  by (auto simp: runs_def dest: start_servers_Inl split: prod.splits sum.splits)

lemma reported_fatal:
  "(ss = [] \<Longrightarrow> Q () s) \<Longrightarrow> (\<And>s'. ss \<noteq> [] \<Longrightarrow> reported s s' \<Longrightarrow> Q () s') \<Longrightarrow> runs (report_fatal G ss) s Q R"
  using report_fatal_result [of G ss s] by (cases "ss = []") (auto simp: runs_def reported_def)

lemma exit_reported: "runs (main_start H E F Y G ms program args) s (\<lambda>_ _. True) (\<lambda>n s'. n = 1 \<and> reported s s')"
proof -
  have usage: "runs (bindM (PrintUsage program) (\<lambda>_. failM 1)) s (\<lambda>_ _. True) (\<lambda>n s'. n = 1 \<and> reported s s')"
    by (simp add: runs_def PrintUsage_def print_line_def bindM_def reported_def)
  have started: "runs (main_start H E F Y G ms program [path]) s (\<lambda>_ _. True) (\<lambda>n s'. n = 1 \<and> reported s s')" for path
    unfolding main_start_def Let_def list.case
    by (rule runs_bindM reported_value reported_on_world runs_if reported_exit reported_fatal reported_servers runs_basic
        | simp)+
  show ?thesis
  proof (cases "\<exists>path. args = [path]")
    case True
    with started show ?thesis by blast
  next
    case False
    then have "main_start H E F Y G ms program args = bindM (PrintUsage program) (\<lambda>_. failM 1)"
      by (auto simp: main_start_def split: list.split)
    with usage show ?thesis by simp
  qed
qed

lemma running_from:
  assumes "main_start H E F Y G ms program args s = (Inr (E', c), s')"
  obtains path config w w' storage where "args = [path]" "LoadServerConfig F Y path = Inr config"
    "pthread_sigmask G (io_world s) = (0, w)" "UnifiedStorage_Open H E ms (storage_path config) w = (Inr storage, w')"
    "E' = core_env E (cfg_max_payload_bytes config) 10000 0 True" "c = OpenEventCore E' storage" "fatal_handler_calls c = []"
    "io_servers s' = [public_builder config, admin_builder config] @ io_servers s"
  using assms
  by (auto simp: main_start_def Let_def bind_inv on_world_result value_or_exit_result(1) exit_with_result
      dest!: start_servers_Inr split: list.splits if_splits)

text \<open>The constructor of the core calls the handler unless it has obtained a snapshot.\<close>

lemma quiet_core:
  assumes "fatal_handler_calls (OpenEventCore E d) = []" and "has_fatal_error_handler E"
  shows "\<not> fatal_error_triggered (OpenEventCore E d)" and "subscription_snapshot (OpenEventCore E d) \<noteq> None"
  using assms
  by (auto simp: OpenEventCore_def Let_def FatalStorageError_def CreateSnapshot_def status_Fatal_def
      WithStorageDiagnostic_def mk_status_def split: sum.splits if_splits option.splits)

lemma core_env_simps [simp]:
  "rocks (core_env E a b d h) = rocks E" "proto_lib (core_env E a b d h) = proto_lib E"
  "max_payload_bytes (core_env E a b d h) = a" "has_fatal_error_handler (core_env E a b d h) = h"
  by (simp_all add: core_env_def)

section \<open>Properties\<close>

text \<open>
  C26: The start of the process either fails, and then it exits with 1, has reported why and leaves no server running, or
  the server runs with a valid configuration: the administration is served only at its own address, a payload of
  the greatest size fits into a message, no fatal error is behind the core, and the core is in the initial state of the
  server if the storage is new and otherwise has the log that is stored, with nothing in preparation.
\<close>

theorem server_start:
  assumes "env_laws E" and "host_laws H E" and "message_SerializeToString (proto_lib E) (InitializationMessage ms) = Some b"
    and "main_start H E F Y G ms program args s = (r, s')" and "w = snd (pthread_sigmask G (io_world s))"
  shows "case r of
    Inl n \<Rightarrow> n = 1 \<and> reported s s'
  | Inr (E', c) \<Rightarrow> \<exists>path config. args = [path] \<and> LoadServerConfig F Y path = Inr config \<and>
      io_servers s' = [public_builder config, admin_builder config] @ io_servers s \<and>
      (\<forall>builder \<in> {public_builder config, admin_builder config}. AdminService \<in> set (sb_services builder) \<longrightarrow>
        sb_ports builder = [admin_listen_addr config] \<and> grpc_listen_addr config \<notin> set (sb_ports builder)) \<and>
      unat (max_payload_bytes E') + 4 * 2 ^ 20 \<le> sb_max_receive (public_builder config) \<and>
      \<not> fatal_error_triggered c \<and> subscription_snapshot c \<noteq> None \<and>
      (if IsNewStorageRoot H w (storage_path config)
       then reachable E' (c, []) \<and> lg_messages (log_at E' c) = [0 \<mapsto> InitializationMessage ms]
       else \<forall>m. host_db H w (DatabasePath (storage_path config)) = Some m \<longrightarrow>
         log_at E' c = (log_of (proto_lib E) m)\<lparr>lg_preparing := Map.empty\<rparr>)"
proof (cases r)
  case (Inl n)
  with runsD(2) [OF exit_reported] assms(4) show ?thesis by fastforce
next
  case (Inr x)
  obtain E' c where x: "x = (E', c)" by fastforce
  from running_from [OF assms(4) [unfolded Inr x]] assms(5) obtain path config w' storage where
    run: "args = [path]" "LoadServerConfig F Y path = Inr config"
      "io_servers s' = [public_builder config, admin_builder config] @ io_servers s"
    and opened: "UnifiedStorage_Open H E ms (storage_path config) w = (Inr storage, w')"
    and E': "E' = core_env E (cfg_max_payload_bytes config) 10000 0 True"
    and c: "c = OpenEventCore E' storage" "fatal_handler_calls c = []" by (metis snd_conv)
  have "ValidateServerConfig config = Inr ()" using LoadServerConfig_Inr(5) [OF run(2)] .
  then have valid: "grpc_listen_addr config \<noteq> admin_listen_addr config" "unat (cfg_max_payload_bytes config) \<le> 60 * 2 ^ 20"
    by (simp_all add: ValidateServerConfig_Inr)
  have core: "\<not> fatal_error_triggered c" "subscription_snapshot c \<noteq> None"
    using quiet_core [of E' storage] c by (simp_all add: E')
  have new: "reachable E' (c, []) \<and> lg_messages (log_at E' c) = [0 \<mapsto> InitializationMessage ms]"
    if "IsNewStorageRoot H w (storage_path config)"
  proof -
    from new_root_contents [OF assms(1,2) that assms(3) opened] have d: "contents E' storage = initial_contents b" by (simp add: E')
    have "message_SerializeToString (proto_lib E') (InitializationMessage ms) = Some b" using assms(3) by (simp add: E')
    from reach_start [OF this d] have "reachable E' (c, [])" by (simp add: c)
    moreover have "lg_messages (log_of (proto_lib E) (initial_contents b)) = [0 \<mapsto> InitializationMessage ms]"
      using proto_lawsD(1) [OF env_lawsD(2) [OF assms(1)] assms(3)] by (auto simp: log_of_def initial_contents_def fun_eq_iff)
    ultimately show ?thesis using d by (simp add: c E')
  qed
  have old: "log_at E' c = (log_of (proto_lib E) m)\<lparr>lg_preparing := Map.empty\<rparr>"
    if "\<not> IsNewStorageRoot H w (storage_path config)" "host_db H w (DatabasePath (storage_path config)) = Some m" for m
  proof -
    from UnifiedStorage_Open_success [OF opened] that(1) have "OpenExisting H E (storage_path config) w = (Inr storage, w')" by auto
    from reopened_log [OF assms(1) _ that(2) this] assms(2) show ?thesis by (simp add: host_laws_def c E')
  qed
  show ?thesis
    using run core new old valid
    by (auto simp: Inr x E' public_builder_def admin_builder_def ConfigurePublicServerKeepalive_def new_builder_def kGrpcMessageBytes_def)
qed

text \<open>A start on a fresh host.\<close>

definition ref_calls :: "ref_world main_calls" where
  "ref_calls = \<lparr>pthread_sigmask = (\<lambda>w. (0, w)), server_BuildAndStart = (\<lambda>_ w. (True, w)), server_Shutdown = (\<lambda>_ w. w),
     code_number = (\<lambda>_. 13)\<rparr>"

definition ref_boot :: "ref_world main_io" where
  "ref_boot = \<lparr>io_world = ref_fresh, io_output = [], io_servers = []\<rparr>"

lemma ref_main_start:
  "\<exists>E' c s'. main_start ref_host ref_env ref_files ref_yaml ref_calls 5 ''openevent'' [''c''] ref_boot = (Inr (E', c), s')"
proof -
  from ref_Open(2) obtain w where run: "UnifiedStorage_Open ref_host ref_env 5 ''/s'' ref_fresh = (Inr ref_opened, w)" ..
  let ?E = "core_env ref_env 16777216 10000 0 True"
  have quiet: "fatal_handler_calls (OpenEventCore ?E ref_opened) = []" by (simp add: OpenEventCore_def CreateSnapshot_def)
  have "\<exists>s'. start_servers ref_calls ref_config s = (Inr (), s')" for s
    by (simp add: start_servers_def start_server_def on_world_def ref_calls_def bindM_def print_line_def)
  then obtain s' where "start_servers ref_calls ref_config (ref_boot\<lparr>io_world := w\<rparr>) = (Inr (), s')" by blast
  with run quiet show ?thesis
    by (simp add: main_start_def Let_def ref_load value_or_exit_def on_world_def bindM_def ref_boot_def ref_calls_def ref_config_def)
qed

theorem server_start_witness:
  "\<exists>E' c s'. main_start ref_host ref_env ref_files ref_yaml ref_calls 5 ''openevent'' [''c''] ref_boot = (Inr (E', c), s') \<and>
     reachable E' (c, []) \<and> length (io_servers s') = 2"
proof -
  from ref_main_start obtain E' c s' where
    run: "main_start ref_host ref_env ref_files ref_yaml ref_calls 5 ''openevent'' [''c''] ref_boot = (Inr (E', c), s')" by blast
  have w: "ref_fresh = snd (pthread_sigmask ref_calls (io_world ref_boot))" by (simp add: ref_calls_def ref_boot_def)
  have new: "IsNewStorageRoot ref_host ref_fresh (storage_path ref_config)"
    by (simp add: IsNewStorageRoot_def IsEmptyDirectory_def ref_fresh_def ref_config_def)
  from server_start [OF ref_env_laws ref_host_laws ref_initial_serialized run w]
  have "reachable E' (c, [])" "length (io_servers s') = 2" using new ref_load by (auto simp: ref_boot_def)
  with run show ?thesis by blast
qed

end
