(* ===== verification/Read_Snapshot.thy ===== *)
theory Read_Snapshot
  imports Prelude
begin

text \<open>
  The handles of snapshots (\<^verbatim>\<open>ReadSnapshot\<close> in \<^verbatim>\<open>src/storage/unified_storage.cpp\<close>): move-only
  objects that release the snapshot of the database they hold. The handles live at addresses; a handle with a
  null pointer holds nothing. Snapshots are identified by their addresses, the owner by its.
\<close>

section \<open>Handles\<close>

record read_snapshot =
  hd_owner :: "nat option"
  hd_snapshot :: "nat option"

text \<open>\<open>hs_released\<close> are the calls of \<^verbatim>\<open>ReleaseSnapshot\<close>, \<open>hs_issued\<close> the snapshots the database has returned.\<close>

record handles =
  hs_live :: "nat \<rightharpoonup> read_snapshot"
  hs_released :: "nat list"
  hs_issued :: "nat list"

definition null_handle :: read_snapshot where
  "null_handle = \<lparr>hd_owner = None, hd_snapshot = None\<rparr>"

definition Reset :: "nat \<Rightarrow> handles \<Rightarrow> handles" where
  "Reset p h =
     (case hs_live h p of
        None \<Rightarrow> h
      | Some r \<Rightarrow>
          h\<lparr>hs_live := (hs_live h)(p \<mapsto> null_handle),
            hs_released := (case (hd_owner r, hd_snapshot r) of (Some _, Some s) \<Rightarrow> hs_released h @ [s] | _ \<Rightarrow> hs_released h)\<rparr>)"

definition default_handle :: "nat \<Rightarrow> handles \<Rightarrow> handles" where
  "default_handle p h = h\<lparr>hs_live := (hs_live h)(p \<mapsto> null_handle)\<rparr>"

definition make_handle :: "nat \<Rightarrow> nat \<Rightarrow> nat \<Rightarrow> handles \<Rightarrow> handles" where
  "make_handle p storage s h =
     h\<lparr>hs_live := (hs_live h)(p \<mapsto> \<lparr>hd_owner = Some storage, hd_snapshot = Some s\<rparr>), hs_issued := hs_issued h @ [s]\<rparr>"

text \<open>\<^verbatim>\<open>std::exchange\<close> takes both pointers from the other handle and leaves null pointers.\<close>

definition take_over :: "nat \<Rightarrow> nat \<Rightarrow> handles \<Rightarrow> handles" where
  "take_over p q h =
     (case hs_live h q of None \<Rightarrow> h | Some r \<Rightarrow> h\<lparr>hs_live := (hs_live h)(q \<mapsto> null_handle, p \<mapsto> r)\<rparr>)"

definition move_construct :: "nat \<Rightarrow> nat \<Rightarrow> handles \<Rightarrow> handles" where
  "move_construct p q h = take_over p q h"

definition move_assign :: "nat \<Rightarrow> nat \<Rightarrow> handles \<Rightarrow> handles" where
  "move_assign p q h = (if p \<noteq> q then take_over p q (Reset p h) else h)"

definition destroy_handle :: "nat \<Rightarrow> handles \<Rightarrow> handles" where
  "destroy_handle p h = (let h' = Reset p h in h'\<lparr>hs_live := (hs_live h')(p := None)\<rparr>)"

section \<open>Programs over handles\<close>

text \<open>Any sequence of operations on living handles; a new snapshot is one the database has not returned
  before, and a constructor runs at an address without a handle.\<close>

inductive handle_step :: "handles \<Rightarrow> handles \<Rightarrow> bool" where
  step_default: "hs_live h p = None \<Longrightarrow> handle_step h (default_handle p h)"
| step_make: "hs_live h p = None \<Longrightarrow> s \<notin> set (hs_issued h) \<Longrightarrow> handle_step h (make_handle p storage s h)"
| step_move_construct: "hs_live h p = None \<Longrightarrow> hs_live h q \<noteq> None \<Longrightarrow> handle_step h (move_construct p q h)"
| step_move_assign: "hs_live h p \<noteq> None \<Longrightarrow> hs_live h q \<noteq> None \<Longrightarrow> handle_step h (move_assign p q h)"
| step_destroy: "hs_live h p \<noteq> None \<Longrightarrow> handle_step h (destroy_handle p h)"

definition no_handles :: handles where
  "no_handles = \<lparr>hs_live = Map.empty, hs_released = [], hs_issued = []\<rparr>"

text \<open>What a handle holds, and the invariant on the assignment of snapshots to handles: no two handles hold the
  same one, and the ones that were returned are the held and the released ones, without overlap or repetition.\<close>

definition held :: "handles \<Rightarrow> nat \<rightharpoonup> nat" where
  "held h p = Option.bind (hs_live h p) hd_snapshot"

definition shared_out :: "(nat \<rightharpoonup> nat) \<Rightarrow> nat list \<Rightarrow> nat list \<Rightarrow> bool" where
  "shared_out K rs is \<longleftrightarrow> distinct rs \<and> inj_on K (dom K) \<and> ran K \<inter> set rs = {} \<and> set is = set rs \<union> ran K"

lemma ran_remove: "inj_on K (dom K) \<Longrightarrow> K p = Some s \<Longrightarrow> ran (K(p := None)) = ran K - {s}"
  by (auto simp: ran_def inj_on_def dom_def split: if_splits) (metis option.inject)

lemma shared_out_drop:
  assumes "shared_out K rs is" and "K p = Some s"
  shows "shared_out (K(p := None)) (rs @ [s]) is"
proof -
  from assms have "s \<in> ran K" by (auto simp: ran_def)
  with assms show ?thesis
    by (auto simp: shared_out_def ran_remove inj_on_def dom_def)
qed

lemma shared_out_add:
  assumes "shared_out K rs is" and "K p = None" and "s \<notin> set is"
  shows "shared_out (K(p \<mapsto> s)) rs (is @ [s])"
proof -
  have ran: "ran (K(p \<mapsto> s)) = insert s (ran K)" using assms(2) by simp
  from assms have s: "s \<notin> ran K" by (auto simp: shared_out_def)
  have "inj_on (K(p \<mapsto> s)) (insert p (dom K))"
    using assms(1,2) s unfolding shared_out_def inj_on_def ran_def by auto
  with assms(1,3) ran show ?thesis by (auto simp: shared_out_def)
qed

lemma shared_out_move:
  assumes ok: "shared_out K rs is" and p: "K p = None" and "p \<noteq> q"
  shows "shared_out (K(q := None, p := K q)) rs is"
proof -
  let ?K = "K(q := None, p := K q)" and ?f = "\<lambda>x. if x = p then q else x"
  have "ran ?K = ran K"
  proof (intro equalityI subsetI)
    fix s assume "s \<in> ran ?K"
    then obtain x where "?K x = Some s" by (auto simp: ran_def)
    then have "K (?f x) = Some s" by (simp split: if_splits)
    then show "s \<in> ran K" by (rule ranI)
  next
    fix s assume "s \<in> ran K"
    then obtain x where "K x = Some s" by (auto simp: ran_def)
    with p have "?K (if x = q then p else x) = Some s" by auto
    then show "s \<in> ran ?K" by (rule ranI)
  qed
  moreover have "inj_on ?K (dom ?K)"
  proof (rule inj_onI)
    fix x y assume x: "x \<in> dom ?K" and y: "y \<in> dom ?K" and eq: "?K x = ?K y"
    have K: "z \<noteq> q \<and> ?K z = K (?f z) \<and> ?f z \<in> dom K" if "z \<in> dom ?K" for z
      using domD [OF that] assms(3) by (cases "z = p"; cases "z = q") auto
    have "K (?f x) = K (?f y)" using K [OF x] K [OF y] eq by metis
    then have "?f x = ?f y" using ok K [OF x] K [OF y] by (simp add: shared_out_def inj_on_def)
    then show "x = y" using K [OF x] K [OF y] by (simp split: if_splits)
  qed
  ultimately show ?thesis using ok by (simp add: shared_out_def)
qed

definition handles_ok :: "handles \<Rightarrow> bool" where
  "handles_ok h \<longleftrightarrow> shared_out (held h) (hs_released h) (hs_issued h) \<and>
     (\<forall>p r. hs_live h p = Some r \<longrightarrow> (hd_owner r = None \<longleftrightarrow> hd_snapshot r = None))"

lemma held_upd [simp]:
  "held (h\<lparr>hs_live := L\<rparr>) = (\<lambda>p. Option.bind (L p) hd_snapshot)"
  "held (h\<lparr>hs_released := rs\<rparr>) = held h" "held (h\<lparr>hs_issued := is\<rparr>) = held h"
  by (auto simp: held_def fun_eq_iff)

lemma Reset_effect:
  assumes ok: "handles_ok h" and p: "hs_live h p = Some r"
  shows "handles_ok (Reset p h)" and "hs_live (Reset p h) = (hs_live h)(p \<mapsto> null_handle)" and "hs_issued (Reset p h) = hs_issued h"
proof -
  have K: "held (h\<lparr>hs_live := (hs_live h)(p \<mapsto> null_handle)\<rparr>) = (held h)(p := None)"
    by (auto simp: held_def null_handle_def fun_eq_iff)
  have held: "held h p = hd_snapshot r" using p by (simp add: held_def)
  have "handles_ok (Reset p h)"
  proof (cases "hd_snapshot r")
    case None
    with ok p held K fun_upd_triv [of "held h" p] show ?thesis
      by (auto simp: handles_ok_def Reset_def null_handle_def split: option.split)
  next
    case (Some s)
    with ok p obtain w where "hd_owner r = Some w" by (fastforce simp: handles_ok_def)
    with ok p held K Some shared_out_drop [of "held h" _ _ p s] show ?thesis
      by (auto simp: handles_ok_def Reset_def null_handle_def)
  qed
  then show "handles_ok (Reset p h)" and "hs_live (Reset p h) = (hs_live h)(p \<mapsto> null_handle)" and "hs_issued (Reset p h) = hs_issued h"
    using p by (simp_all add: Reset_def split: option.split)
qed

lemma take_over_ok:
  assumes ok: "handles_ok h" and "held h p = None" and "hs_live h q \<noteq> None" and "p \<noteq> q"
  shows "handles_ok (take_over p q h)"
proof -
  from assms(3) obtain r where r: "hs_live h q = Some r" by blast
  have "held (take_over p q h) = (held h)(q := None, p := held h q)"
    using r assms(4) by (auto simp: take_over_def held_def null_handle_def fun_eq_iff)
  with shared_out_move [of "held h" _ _ p q] assms(2,4) ok r show ?thesis
    by (auto simp: handles_ok_def take_over_def null_handle_def split: if_splits)
qed

lemma handle_step_ok: "handle_step h h' \<Longrightarrow> handles_ok h \<Longrightarrow> handles_ok h'"
proof (induction rule: handle_step.induct)
  case (step_default h p)
  then have "held (default_handle p h) = held h" by (auto simp: default_handle_def held_def null_handle_def fun_eq_iff)
  with step_default show ?case by (auto simp: handles_ok_def default_handle_def null_handle_def)
next
  case (step_make h p s storage)
  then have "held (make_handle p storage s h) = (held h)(p \<mapsto> s)" "held h p = None"
    by (auto simp: make_handle_def held_def fun_eq_iff)
  with step_make shared_out_add [of "held h" _ _ p s] show ?case by (auto simp: handles_ok_def make_handle_def)
next
  case (step_move_construct h p q)
  then have "held h p = None" "p \<noteq> q" by (auto simp: held_def)
  with step_move_construct show ?case by (simp add: move_construct_def take_over_ok)
next
  case (step_move_assign h p q)
  then obtain r where r: "hs_live h p = Some r" by blast
  note reset = Reset_effect [OF step_move_assign(3) r]
  have "held (Reset p h) p = None" using reset(2) by (simp add: held_def null_handle_def)
  moreover have "p \<noteq> q \<Longrightarrow> hs_live (Reset p h) q \<noteq> None" using reset(2) step_move_assign(2) by simp
  ultimately show ?case using reset(1) step_move_assign(3) by (simp add: move_assign_def take_over_ok)
next
  case (step_destroy h p)
  then obtain r where r: "hs_live h p = Some r" by blast
  note reset = Reset_effect [OF step_destroy(2) r]
  have "held (destroy_handle p h) = held (Reset p h)"
    using reset(2) by (auto simp: destroy_handle_def Let_def held_def null_handle_def fun_eq_iff)
  with reset(1) show ?case by (auto simp: handles_ok_def destroy_handle_def Let_def)
qed

lemma handles_reachable: "handle_step\<^sup>*\<^sup>* no_handles h \<Longrightarrow> handles_ok h"
proof (induction rule: rtranclp_induct)
  case base
  have "held no_handles = Map.empty" by (simp add: held_def no_handles_def fun_eq_iff)
  then show ?case by (simp add: handles_ok_def shared_out_def) (simp add: no_handles_def)
qed (rule handle_step_ok)

section \<open>Properties\<close>

text \<open>
  C38: However the handles are created, moved and destroyed, no snapshot is released twice or while a handle holds it,
  no two handles hold the same snapshot, and once the last handle is gone every snapshot has been released.
\<close>

theorem snapshots_released_once:
  assumes "handle_step\<^sup>*\<^sup>* no_handles h"
  shows "distinct (hs_released h) \<and> inj_on (held h) (dom (held h)) \<and> ran (held h) \<inter> set (hs_released h) = {} \<and>
    (hs_live h = Map.empty \<longrightarrow> set (hs_released h) = set (hs_issued h))"
proof -
  have "shared_out (held h) (hs_released h) (hs_issued h)" using handles_reachable [OF assms] by (simp add: handles_ok_def)
  moreover have "ran (held h) = {}" if "hs_live h = Map.empty" using that by (simp add: held_def ran_def)
  ultimately show ?thesis by (auto simp: shared_out_def)
qed

text \<open>A handle is created, moved to another address, and both are destroyed.\<close>

theorem snapshots_released_once_witness:
  "\<exists>h. handle_step\<^sup>*\<^sup>* no_handles h \<and> hs_issued h = [9] \<and> hs_released h = [9] \<and> set (hs_released h) = set (hs_issued h)"
proof -
  let ?a = "make_handle 1 0 9 no_handles" let ?b = "move_construct 2 1 ?a"
  let ?c = "destroy_handle 1 ?b" let ?d = "destroy_handle 2 ?c"
  note defs = make_handle_def move_construct_def take_over_def destroy_handle_def Reset_def null_handle_def no_handles_def Let_def
  have "handle_step no_handles ?a" by (rule step_make) (simp_all add: no_handles_def)
  moreover have "handle_step ?a ?b" by (rule step_move_construct) (simp_all add: defs)
  moreover have "handle_step ?b ?c" by (rule step_destroy) (simp add: defs)
  moreover have "handle_step ?c ?d" by (rule step_destroy) (simp add: defs)
  ultimately have run: "handle_step\<^sup>*\<^sup>* no_handles ?d" by (meson rtranclp.rtrancl_refl rtranclp.rtrancl_into_rtrancl)
  have "hs_live ?d = Map.empty" "hs_issued ?d = [9]" "hs_released ?d = [9]" by (auto simp: defs fun_eq_iff)
  with snapshots_released_once [OF run] run show ?thesis by blast
qed

end
