(* ===== verification/Stored_Events.thy ===== *)
theory Stored_Events
  imports Stored_Reads
begin

text \<open>
  The messages the server has stored pass the checks a scan applies to them. What a message must satisfy is an
  invariant of the abstract log: object keys are well formed, and a message of the server itself announces a channel
  or a change of its members. With \<open>json_laws\<close> the announcements read back, so that a scan never reports corruption.
\<close>

section \<open>Announcements\<close>

definition same_text :: "channel_info \<Rightarrow> channel_info \<Rightarrow> bool" where
  "same_text a b \<longleftrightarrow> ch_name a = ch_name b \<and> ch_protocol a = ch_protocol b \<and> ch_description a = ch_description b"

definition announces :: "channel_info \<Rightarrow> string \<Rightarrow> bool" where
  "announces ch payload \<longleftrightarrow>
     (\<exists>kind m. kind \<in> {''system.member_added'', ''system.member_removed''} \<and> m \<noteq> 0 \<and> payload = MemberChangedPayload kind m) \<or>
     (\<exists>ch' p. same_text ch' ch \<and> ch_creator ch' = Some p \<and> p \<in> set (ch_members ch') \<and> 0 \<notin> set (ch_members ch') \<and>
        payload = ChannelInitializedPayload ch')"

definition event_ok :: "event_log \<Rightarrow> event_message \<Rightarrow> bool" where
  "event_ok l msg \<longleftrightarrow> msg_uuid msg \<noteq> 0 \<and> msg_channel_id msg \<noteq> 0 \<and> 0 \<notin> set (msg_recipients msg) \<and>
     length (msg_object_keys msg) \<le> kMaxObjectKeys \<and> list_all valid_object_key (msg_object_keys msg) \<and>
     (msg_principal msg = 0 \<longrightarrow> msg_recipients msg = [] \<and> msg_object_keys msg = [] \<and>
        (\<exists>ch. lg_channels l (msg_channel_id msg) = Some ch \<and> announces ch (msg_payload msg)))"

definition events_ok :: "event_log \<Rightarrow> bool" where
  "events_ok l \<longleftrightarrow> (\<forall>s msg. lg_messages l s = Some msg \<longrightarrow> s \<noteq> 0 \<longrightarrow> event_ok l msg)"

lemma announces_members:
  "m \<noteq> 0 \<Longrightarrow> announces ch (MemberChangedPayload ''system.member_added'' m)"
  "m \<noteq> 0 \<Longrightarrow> announces ch (MemberChangedPayload ''system.member_removed'' m)"
  unfolding announces_def by blast+

lemma announces_created:
  "\<not> invalid_channel_parameters q \<Longrightarrow> announces (new_channel q i) (ChannelInitializedPayload (new_channel q i))"
  unfolding announces_def
  by (intro disjI2 exI [of _ "new_channel q i"] exI [of _ "cc_principal q"])
    (simp add: same_text_def new_channel_def initial_members_def invalid_channel_parameters_def)

section \<open>An invariant of the log\<close>

text \<open>Channels stay, with their texts.\<close>

definition texts_kept :: "event_log \<Rightarrow> event_log \<Rightarrow> bool" where
  "texts_kept l l' \<longleftrightarrow>
     (\<forall>i ch. lg_channels l i = Some ch \<longrightarrow> (\<exists>ch'. lg_channels l' i = Some ch' \<and> same_text ch ch'))"

lemma texts_kept_refl [simp]: "lg_channels l' = lg_channels l \<Longrightarrow> texts_kept l l'"
  by (simp add: texts_kept_def same_text_def)

lemma announces_same: "announces ch payload \<Longrightarrow> same_text ch ch' \<Longrightarrow> announces ch' payload"
  unfolding announces_def same_text_def by auto

lemma event_ok_kept:
  assumes "event_ok l msg" and "texts_kept l l'"
  shows "event_ok l' msg"
proof -
  have "\<exists>ch'. lg_channels l' i = Some ch' \<and> announces ch' payload"
    if "lg_channels l i = Some ch" "announces ch payload" for i ch payload
    using assms(2) that announces_same unfolding texts_kept_def by blast
  with assms(1) show ?thesis unfolding event_ok_def by blast
qed

lemma events_ok_kept:
  assumes "events_ok l" and "texts_kept l l'" and "lg_messages l' = lg_messages l"
  shows "events_ok l'"
  using assms event_ok_kept [OF _ assms(2)] by (simp add: events_ok_def)

lemma events_ok_append:
  assumes "events_ok l" and "texts_kept l l'" and "lg_messages l' = (lg_messages l)(s \<mapsto> msg)" and "event_ok l' msg"
  shows "events_ok l'"
  using assms event_ok_kept [OF _ assms(2)] by (simp add: events_ok_def)

lemma publish_event_ok:
  assumes "publish_effect E q now l l'" and "records_valid l"
  shows "event_ok l' (request_message q now)"
proof -
  have "valid_object_key k" if "k \<in> set (pr_object_keys q)" for k
    using assms that by (fastforce simp: publish_effect_def publish_allowed_def list_all_iff records_valid_def valid_object_def
        valid_object_key_def)
  with assms(1) show ?thesis
    by (auto simp: publish_effect_def publish_allowed_def event_ok_def request_message_def publish_message_def
        channel_accepts_def authentic_def list_all_iff)
qed

lemma record_channel_events:
  assumes "events_ok l" and "counters_free l" and "ch_channel_id ch \<noteq> 0" and "announces ch payload"
    and kept: "\<And>ch0. lg_channels l (ch_channel_id ch) = Some ch0 \<Longrightarrow> same_text ch0 ch"
  shows "events_ok (record_channel ch payload now l)"
proof (rule events_ok_append [OF assms(1)])
  show "texts_kept l (record_channel ch payload now l)"
    using kept by (auto simp: texts_kept_def record_channel_def same_text_def)
  show "event_ok (record_channel ch payload now l) (channel_message (lg_max_seq l) (lg_next_uuid l) ch payload now)"
    using assms(2-4) by (simp add: event_ok_def channel_message_def empty_message_def record_channel_def counters_free_def
        kMaxObjectKeys_def)
qed (simp add: record_channel_def append_message_def)

lemma log_next_events:
  assumes "log_next E l l'" and ok: "events_ok l" and "log_ok l" and "records_valid l"
  shows "events_ok l'"
  using assms(1)
proof cases
  case (log_publish q now)
  from publish_event_ok [OF this assms(4)] have "event_ok l' (request_message q now)" .
  with log_publish ok show ?thesis
    by (intro events_ok_append [OF ok, of l' "msg_seq (request_message q now)" "request_message q now"])
      (simp_all add: publish_effect_def append_message_def)
next
  case (log_create q now ch)
  let ?l = "record_channel ch (ChannelInitializedPayload ch) now l"
  have new: "lg_channels l (lg_next_channel_id l) = None" "lg_next_channel_id l \<noteq> 0"
    using assms(3) unfolding log_ok_def channels_ok_def by (metis less_irrefl not_None_eq)+
  from log_create have q: "\<not> invalid_channel_parameters q" "counters_free l" and ch: "ch = new_channel q (lg_next_channel_id l)"
    by (simp_all add: create_effect_def)
  have "ch_channel_id ch = lg_next_channel_id l" by (simp add: ch new_channel_def)
  with q new have "events_ok ?l" by (intro record_channel_events [OF ok]) (simp_all add: ch announces_created)
  moreover have "l' = ?l\<lparr>lg_next_channel_id := lg_next_channel_id l + 1\<rparr>" using log_create by (simp only: create_effect_def)
  ultimately show ?thesis using events_ok_kept [of ?l l'] by simp
next
  case (log_add prin token i target now)
  then obtain ch where ch: "owned_channel l prin token i ch" "counters_free l" "target \<noteq> 0"
    and l': "l' = record_channel (ch\<lparr>ch_members := ch_members ch @ [target]\<rparr>)
      (MemberChangedPayload ''system.member_added'' target) now l" unfolding add_effect_def by blast
  show ?thesis unfolding l' using ch
    by (intro record_channel_events [OF ok]) (simp_all add: owned_channel_def same_text_def announces_members)
next
  case (log_remove prin token i target now)
  then obtain ch where ch: "owned_channel l prin token i ch"
    and l': "if target \<in> set (ch_members ch) then counters_free l \<and> l' = record_channel
      (ch\<lparr>ch_members := remove1 target (ch_members ch)\<rparr>) (MemberChangedPayload ''system.member_removed'' target) now l
      else l' = l" unfolding remove_effect_def by blast
  have "channel_ok ch" using ch assms(3) by (auto simp: owned_channel_def log_ok_def channels_ok_def)
  then have target: "target \<in> set (ch_members ch) \<Longrightarrow> target \<noteq> 0" by (auto simp: channel_ok_def)
  have "events_ok (record_channel (ch\<lparr>ch_members := remove1 target (ch_members ch)\<rparr>)
      (MemberChangedPayload ''system.member_removed'' target) now l)"
    if "target \<in> set (ch_members ch)" "counters_free l"
    using ch target [OF that(1)] that(2)
    by (intro record_channel_events [OF ok]) (simp_all add: owned_channel_def same_text_def announces_members)
  with l' ok show ?thesis by (cases "target \<in> set (ch_members ch)") simp_all
qed (use ok in \<open>auto intro!: events_ok_kept [OF ok] simp: allocate_effect_def prepare_effect_def commit_effect_def set_token_def\<close>)

lemma reachable_events:
  assumes laws: "env_laws E" and "reachable E x"
  shows "events_ok (log_at E (fst x))"
  using assms(2)
proof induction
  case (reach_start ms b d)
  then show ?case by (auto simp: events_ok_def log_of_def initial_contents_def)
next
  case (reach_step x y)
  have "log_ok (log_at E (fst x))" "records_valid (log_at E (fst x))"
    using reachable_sound [OF laws reach_step(1)] by (simp_all add: sound_def)
  from log_next_events [OF server_step_log [OF laws reach_step(3)] reach_step(4) this] show ?case .
qed

section \<open>A scan accepts them\<close>

text \<open>The texts of the channels are UTF-8, as protobuf ensures for the requests they come from.\<close>

definition utf8_channels :: "event_log \<Rightarrow> bool" where
  "utf8_channels l \<longleftrightarrow> (\<forall>i ch. lg_channels l i = Some ch \<longrightarrow> utf8 (ch_name ch) \<and> utf8 (ch_protocol ch) \<and> utf8 (ch_description ch))"

lemma announcement_valid:
  assumes "json_laws P" and "event_ok l msg" and "utf8_channels l" and "msg_principal msg = 0"
  shows "ValidChannelSystemMessage P msg"
proof -
  from assms(2,4) obtain ch where plain: "msg_recipients msg = []" "msg_object_keys msg = []"
    and ch: "lg_channels l (msg_channel_id msg) = Some ch" "announces ch (msg_payload msg)" by (auto simp: event_ok_def)
  from assms(3) ch(1) have texts: "utf8 (ch_name ch)" "utf8 (ch_protocol ch)" "utf8 (ch_description ch)"
    unfolding utf8_channels_def by blast+
  from ch(2) consider kind m where "kind \<in> {''system.member_added'', ''system.member_removed''}" "m \<noteq> 0"
      "msg_payload msg = MemberChangedPayload kind m"
    | ch' p where "same_text ch' ch" "ch_creator ch' = Some p" "p \<in> set (ch_members ch')" "0 \<notin> set (ch_members ch')"
      "msg_payload msg = ChannelInitializedPayload ch'" unfolding announces_def by blast
  then show ?thesis
  proof cases
    case 1
    from member_event_valid [OF assms(1) 1(1,2) plain 1(3)] show ?thesis .
  next
    case 2
    then have "p \<noteq> 0" "ch_members ch' \<noteq> []" by auto
    with 2 texts plain show ?thesis by (intro channel_event_valid [OF assms(1), of ch' p]) (auto simp: same_text_def)
  qed
qed

lemma DecodeStoredMessage_answered:
  assumes json: "json_laws P" and "sound P m" and "events_ok (log_of P m)" and "utf8_channels (log_of P m)"
    and msg: "lg_messages (log_of P m) s = Some msg" and "message_ParseFromString P b = Some msg"
  shows "DecodeStoredMessage P s b = Inr msg"
proof -
  have seq: "msg_seq msg = s" using assms(2) msg by (auto simp: sound_def log_ok_def messages_ok_def)
  show ?thesis
  proof (cases "s = 0")
    case True
    with assms(2) msg obtain ms where "msg = InitializationMessage ms" by (auto simp: sound_def)
    with InitializationMessage_valid [OF json] True assms(6) show ?thesis
      by (auto simp: DecodeStoredMessage_def InitializationMessage_def empty_message_def)
  next
    case False
    with assms(3) msg have ok: "event_ok (log_of P m) msg" by (auto simp: events_ok_def)
    with announcement_valid [OF json _ assms(4)] have "msg_principal msg = 0 \<Longrightarrow> ValidChannelSystemMessage P msg" by blast
    with ok False seq assms(6) show ?thesis by (auto simp: DecodeStoredMessage_def event_ok_def)
  qed
qed

lemma stored_message_answered:
  assumes "json_laws (proto_lib E)" and "readable E s" and "events_ok (log_in E s)" and "utf8_channels (log_in E s)"
  shows "stored_message E s q = lg_messages (log_in E s) q"
proof (cases "snap_view E s (Messages, NumericKey kMessagePrefix q)")
  case (Some b)
  have "cell_ok (proto_lib E) Messages (NumericKey kMessagePrefix q) b"
    using assms(2) Some well_encoded_cell by (auto simp: readable_def sound_def simp del: cell_ok.simps)
  then obtain msg where msg: "message_ParseFromString (proto_lib E) b = Some msg" by auto
  with Some have log: "lg_messages (log_in E s) q = Some msg" by (simp add: log_of_def)
  from DecodeStoredMessage_answered [OF assms(1) _ assms(3,4) log msg] assms(2) Some log show ?thesis
    by (simp add: stored_message_def readable_def)
qed (simp add: stored_message_def log_of_def)

lemma readable_intact:
  assumes "json_laws (proto_lib E)" and "readable E s" and "events_ok (log_in E s)" and "utf8_channels (log_in E s)"
  shows "intact E s (lg_max_seq (log_in E s))"
proof -
  have ok: "messages_ok (log_in E s)" and cells: "well_encoded (proto_lib E) (snap_view E s)"
    using assms(2) by (simp_all add: readable_def sound_def log_ok_def)
  have dom: "lg_messages (log_in E s) q \<noteq> None \<longleftrightarrow> q \<le> lg_max_seq (log_in E s)" for q
    using ok unfolding messages_ok_def by blast
  have cell: "snap_view E s (Messages, NumericKey kMessagePrefix q) \<noteq> None \<longleftrightarrow> lg_messages (log_in E s) q \<noteq> None" for q
    using well_encoded_cell [OF cells, of Messages "NumericKey kMessagePrefix q"] by (auto simp: log_of_def bind_eq_None_conv)
  have key: "\<exists>q. k = NumericKey kMessagePrefix q" if "snap_view E s (Messages, k) \<noteq> None" for k
    using that well_encoded_cell [OF cells, of Messages k] by auto
  have "snap_view E s (Messages, k) \<noteq> None \<and> prefix kMessagePrefix k \<longleftrightarrow>
      (\<exists>q \<le> lg_max_seq (log_in E s). k = NumericKey kMessagePrefix q)" for k
    using key [of k] cell dom by auto
  moreover have "stored_message E s q \<noteq> None" if "q \<le> lg_max_seq (log_in E s)" for q
    using that dom stored_message_answered [OF assms] by simp
  ultimately show ?thesis unfolding intact_def by blast
qed

text \<open>On what the server has stored a scan is the reference scan of the log.\<close>

lemma ScanMessages_answered:
  assumes "json_laws (proto_lib E)" and "readable E s" and "events_ok (log_in E s)" and "utf8_channels (log_in E s)"
    and "lg_max_seq (log_in E s) + 1 \<noteq> 0"
  shows "ScanMessages E s from_seq (lg_max_seq (log_in E s)) max_records visitor v =
    scan_spec (lg_messages (log_in E s)) visitor (records_left (lg_max_seq (log_in E s)) max_records 0 from_seq) from_seq v"
proof -
  obtain es st where it: "db_Iterate (rocks E) s Messages (NumericKey kMessagePrefix from_seq) = (es, st)" by fastforce
  have laws: "env_laws E" and "rocks_ok (snd (db_Iterate (rocks E) s Messages (NumericKey kMessagePrefix from_seq)))"
    using assms(2) by (simp_all add: readable_def answers_def)
  then have "rocks_ok st" by (simp add: it)
  moreover have "stored_message E s = lg_messages (log_in E s)" using stored_message_answered [OF assms(1-4)] by blast
  ultimately show ?thesis
    using ScanMessages_intact [OF laws assms(5) readable_intact [OF assms(1-4)] it] by simp
qed

end
