(* ===== verification/Object_Serving.thy ===== *)
theory Object_Serving
  imports Object_File_Store
begin

text \<open>
  Reading an object whose file is complete: \<^verbatim>\<open>ObjectFileStore::ReadRange\<close> returns the data, or an error of the
  operating system that is not fatal. It does not report the file as missing, truncated or damaged.
\<close>

section \<open>The steps of a read\<close>

lemma open_committed_served:
  assumes laws: "posix_laws X"
  shows "open_committed X n os = Some (Inl e, os') \<Longrightarrow> os_dir X os n = Some (RegularFile d) \<Longrightarrow> \<not> is_fatal e"
proof -
  have "open_read_loop X n os = Some (Inl x, os') \<Longrightarrow> os_dir X os n = Some (RegularFile d) \<Longrightarrow> x \<noteq> ENOENT \<and> x \<noteq> ELOOP"
    for x
  proof (induction "os_interrupts X os" arbitrary: os rule: less_induct)
    case less
    obtain r1 os1 where o: "os_openat_read X os n = (r1, os1)" by fastforce
    show ?case
    proof (cases "r1 = Inl EINTR")
      case True
      with o less.prems(1) have "open_read_loop X n os1 = Some (Inl x, os')" by (subst (asm) open_read_loop.simps) simp
      moreover have "os_interrupts X os1 < os_interrupts X os"
        using interruptD(5) [OF posix_lawsD(8) [OF laws]] o True by blast
      ultimately show ?thesis using less.hyps [of os1] openD(3) [OF laws o] less.prems(2) by simp
    next
      case False
      with o less.prems(1) have "r1 = Inl x" by (subst (asm) open_read_loop.simps) simp
      with o openD(5) [OF laws _ less.prems(2)] show ?thesis by blast
    qed
  qed
  then show "open_committed X n os = Some (Inl e, os') \<Longrightarrow> os_dir X os n = Some (RegularFile d) \<Longrightarrow> \<not> is_fatal e"
    by (auto simp: open_committed_def Let_def split: option.splits sum.splits if_splits)
qed

lemma stat_committed_served:
  assumes laws: "posix_laws X" and "stat_committed X n fd expected os = (Inl e, os')" and "os_fds X os fd = Some n"
    and "os_dir X os n = Some (RegularFile d)" and "length d = unat expected"
  shows "\<not> is_fatal e"
proof (cases "os_fstat X os fd")
  case (Pair r os1)
  show ?thesis
  proof (cases r)
    case (Inr f)
    obtain reg sz where f: "f = (reg, sz)" by (cases f)
    have "reg \<and> sz = int (length d)"
      using posix_lawsD(4) [OF laws] Pair Inr f assms(3,4) unfolding fstat_law_def by (fastforce split: dir_entry.splits)
    with Pair Inr f assms(2,5) show ?thesis by (simp add: stat_committed_def)
  qed (use Pair assms(2) in \<open>auto simp: stat_committed_def\<close>)
qed

lemma pread_loop_served:
  assumes laws: "posix_laws X"
  shows "os_fds X os fd = Some n \<Longrightarrow> os_dir X os n = Some (RegularFile d) \<Longrightarrow> offset + count \<le> length d \<Longrightarrow>
    pread_loop X final fd count offset data os = Some (Inl e, os') \<Longrightarrow> \<not> is_fatal e"
proof (induction "count - length data + os_interrupts X os" arbitrary: data os rule: less_induct)
  case less
  show ?case
  proof (cases "length data < count")
    case True
    obtain r1 os1 where w: "os_pread X os fd (count - length data) (offset + length data) = (r1, os1)" by fastforce
    have q: "os_dir X os1 = os_dir X os" "os_fds X os1 = os_fds X os" using quietD(4) [OF laws w] by simp_all
    note ret = less.prems(4) [unfolded pread_loop_step [OF True w]]
    have ints: "r1 = Inl EINTR \<Longrightarrow> os_interrupts X os1 < os_interrupts X os" "os_interrupts X os1 \<le> os_interrupts X os"
      using interruptD(3,4) [OF posix_lawsD(8) [OF laws]] w by blast+
    show ?thesis
    proof (cases r1)
      case (Inl x)
      then show ?thesis using ret q less.prems(1-3) less.hyps [of data os1] ints(1) by (cases "x = EINTR") auto
    next
      case (Inr bs)
      have "bs = [] \<longrightarrow> count - length data = 0 \<or> length d \<le> offset + length data"
        using posix_lawsD(3) [OF laws] w Inr less.prems(1,2) unfolding pread_law_def by blast
      with True less.prems(3) have bs: "bs \<noteq> []" by auto
      then have "0 < length bs" by simp
      then have "count - length (data @ bs) + os_interrupts X os1 < count - length data + os_interrupts X os"
        using ints(2) True unfolding length_append by linarith
      from less.hyps [OF this] show ?thesis using bs ret q less.prems(1-3) Inr by simp
    qed
  qed (use less.prems(4) in \<open>simp add: pread_loop.simps\<close>)
qed

section \<open>The read\<close>

lemma ReadRange_served:
  assumes laws: "posix_laws X" and file_there: "os_dir X os (FinalName i) = Some (RegularFile d)" "length d = unat expected"
    and "i \<noteq> 0" and "expected \<noteq> 0" and "unat expected \<le> kMaxObjectBytes" and "n \<noteq> 0" and range: "offset \<le> expected"
    and run: "ReadRange X i expected offset n os = Some (Inl e, os')"
  shows "\<not> is_fatal e"
proof -
  let ?f = "FinalName i" and ?count = "unat (min n (expected - offset))"
  have "\<not> offset > expected" using range by simp
  with run assms(4-7) consider "open_committed X ?f os = Some (Inl e, os')"
    | fd os1 where "open_committed X ?f os = Some (Inr fd, os1)" "stat_committed X ?f fd expected os1 = (Inl e, os')"
    | fd os1 os2 where "open_committed X ?f os = Some (Inr fd, os1)" "stat_committed X ?f fd expected os1 = (Inr (), os2)"
      "pread_loop X ?f fd ?count (unat offset) [] os2 = Some (Inl e, os')"
    | fd os3 where "CloseFile X fd ''committed object file'' os3 = (Inl e, os')"
    by (auto simp: ReadRange_def Let_def bind_inv)
  then show ?thesis
  proof cases
    case 1
    from open_committed_served [OF laws this file_there(1)] show ?thesis .
  next
    case (2 fd os1)
    from 2(1) have "open_read_loop X ?f os = Some (Inr fd, os1)"
      by (auto simp: open_committed_def Let_def split: option.splits sum.splits if_splits)
    from open_read_loop_dir [OF laws this] file_there stat_committed_served [OF laws 2(2)] show ?thesis by simp
  next
    case (3 fd os1 os2)
    from 3(1) have "open_read_loop X ?f os = Some (Inr fd, os1)"
      by (auto simp: open_committed_def Let_def split: option.splits sum.splits if_splits)
    from open_read_loop_dir [OF laws this] have o: "os_dir X os1 = os_dir X os" "os_fds X os1 fd = Some ?f" by simp_all
    from 3(2) obtain x where "os_fstat X os1 fd = (Inr x, os2)"
      by (auto simp: stat_committed_def split: prod.splits sum.splits if_splits)
    from quietD(3) [OF laws this] o file_there(1) have s: "os_dir X os2 ?f = Some (RegularFile d)" "os_fds X os2 fd = Some ?f"
      by simp_all
    have "unat offset + ?count \<le> length d"
      using range file_there(2) by (auto simp: min_def unat_sub word_le_nat_alt)
    from pread_loop_served [OF laws s(2,1) this 3(3)] show ?thesis .
  next
    case (4 fd os3)
    then show ?thesis by (auto simp: CloseFile_def split: prod.splits sum.splits)
  qed
qed

end
