(* ===== verification/Subscription_Stream.thy ===== *)
theory Subscription_Stream
  imports Grpc_Services
begin

text \<open>
  A subscription stream next to the running server: commits, the refresh thread, the registry and the
  stream interleave. Whatever the interleaving, the stream is ordered, has no gaps and shows nothing the
  subscriber could not read.
\<close>

section \<open>The stream beside the server\<close>

type_synonym ('db, 'snap, 'os) live = "('db, 'snap, 'os) sub_system \<times> event_service \<times> ('db, 'snap, 'os) stream"

text \<open>A reader that asked in \<open>c\<close> goes on in \<open>c'\<close>: it was turned away on entry, or its wait is
  over.\<close>

definition goes_on :: "('db, 'snap, 'os) core \<Rightarrow> ('db, 'snap, 'os) core \<Rightarrow> bool" where
  "goes_on c c' \<longleftrightarrow> fatal_error_triggered c \<or> acquire_ready (commit_generation c) c'"

text \<open>What a commit writes is what some step of the server writes to the same database.\<close>

definition server_commit :: "('db, 'snap, 'os) env \<Rightarrow> kv \<Rightarrow> kv \<Rightarrow> bool" where
  "server_commit E m m' \<longleftrightarrow> (\<exists>c w c' w'. server_step E (c, w) (c', w') \<and> contents E c = m \<and> contents E c' = m')"

text \<open>\<open>is_cancelled\<close> is what \<^verbatim>\<open>IsCancelled\<close> returns: true after a cancellation by the server, and
  possibly because of the client.\<close>

inductive live_step :: "('db, 'snap, 'os) env \<Rightarrow> subscribe_request \<Rightarrow> nat \<Rightarrow> ('db, 'snap, 'os) live \<Rightarrow>
    ('db, 'snap, 'os) live \<Rightarrow> bool" for E q ctxt where
  live_core: "sub_step E x y \<Longrightarrow> contents E (ss_core y) = contents E (ss_core x) \<or>
      server_commit E (contents E (ss_core x)) (contents E (ss_core y)) \<and> roomy (log_at E (ss_core x)) \<Longrightarrow>
    live_step E q ctxt (x, v, st) (y, v, st)"
| live_register: "str_pc st = Unstarted \<Longrightarrow> RegisterSubscription ctxt v = (True, v') \<Longrightarrow>
    live_step E q ctxt (x, v, st) (x, v', st\<lparr>str_pc := StartWait (ss_core x)\<rparr>)"
| live_refuse: "str_pc st = Unstarted \<Longrightarrow> RegisterSubscription ctxt v = (False, v') \<Longrightarrow>
    live_step E q ctxt (x, v, st) (x, v', st\<lparr>str_pc := Ended (UNAVAILABLE, ''server is shutting down'')\<rparr>)"
| live_start: "str_pc st = StartWait c \<Longrightarrow> goes_on c (ss_core x) \<Longrightarrow>
    RunSubscription_start E q c (ss_core x) st = (c', st') \<Longrightarrow>
    live_step E q ctxt (x, v, st) (x\<lparr>ss_core := c'\<rparr>, v, st')"
| live_cancel: "str_pc st = LoopHead \<Longrightarrow> live_step E q ctxt (x, v, st) (x, v, st\<lparr>str_pc := Ended (OK, [])\<rparr>)"
| live_head: "str_pc st = LoopHead \<Longrightarrow> ctxt \<notin> cancelled v \<Longrightarrow>
    live_step E q ctxt (x, v, st) (x, v, st\<lparr>str_pc := BatchWait (ss_core x)\<rparr>)"
| live_batch: "str_pc st = BatchWait c \<Longrightarrow> goes_on c (ss_core x) \<Longrightarrow>
    RunSubscription_batch E q writes c (ss_core x) st = (c', st') \<Longrightarrow>
    live_step E q ctxt (x, v, st) (x\<lparr>ss_core := c'\<rparr>, v, st')"
| live_wait: "str_pc st = Idle version \<Longrightarrow> (ctxt \<in> cancelled v \<longrightarrow> is_cancelled) \<Longrightarrow>
    live_step E q ctxt (x, v, st) (x, v, RunSubscription_wait is_cancelled version (ss_core x) st)"
| live_leave: "str_pc st = Ended g \<Longrightarrow> live_step E q ctxt (x, v, st) (x, UnregisterSubscription ctxt v, st)"
| live_stop: "live_step E q ctxt (x, v, st) (x, StopSubscriptions v, st)"

section \<open>What has been served\<close>

text \<open>The messages of consecutive ranges, each filtered by what the subscriber was entitled to and asked
  for in the log it was read from; all of these logs belong to the given set, the logs the server has had, and have
  grown into the present one.\<close>

definition asked_for :: "subscribe_request \<Rightarrow> event_log \<Rightarrow> event_message \<Rightarrow> bool" where
  "asked_for q l = wanted l (sq_principal q) (sq_only_my_recipient q) (sq_channels q)"

definition source_log :: "event_log set \<Rightarrow> event_log \<Rightarrow> event_log \<Rightarrow> bool" where
  "source_log M l L \<longleftrightarrow> l \<in> M \<and> log_ok l \<and> extends l L"

inductive served :: "event_log set \<Rightarrow> subscribe_request \<Rightarrow> event_log \<Rightarrow> u64 \<Rightarrow> u64 \<Rightarrow> event_message list \<Rightarrow> bool" for M q L where
  served_nothing: "served M q L a a []"
| served_batch: "served M q L a b ms \<Longrightarrow> b \<le> c \<Longrightarrow> source_log M l L \<Longrightarrow> unat c \<le> unat (lg_max_seq l) + 1 \<Longrightarrow>
    served M q L a c (ms @ filter (asked_for q l) (messages_between l b c))"

lemma source_log_mono: "source_log M l L \<Longrightarrow> extends L L' \<Longrightarrow> source_log M l L'"
  by (auto simp: source_log_def intro: extends_trans)

lemma served_mono: "served M q L a c ms \<Longrightarrow> extends L L' \<Longrightarrow> served M q L' a c ms"
proof (induction rule: served.induct)
  case (served_batch a b ms c l)
  from served_batch.IH [OF served_batch.prems] served_batch.hyps(2) source_log_mono [OF served_batch.hyps(3) served_batch.prems]
    served_batch.hyps(4)
  show ?case by (rule served.served_batch)
qed (rule served_nothing)

lemma served_le: "served M q L a c ms \<Longrightarrow> a \<le> c"
  by (induction rule: served.induct) auto

text \<open>A range of a well-formed log.\<close>

lemma messages_between_log:
  assumes "log_ok l" and "unat c \<le> unat (lg_max_seq l) + 1"
  shows "m \<in> set (messages_between l b c) \<longleftrightarrow> b \<le> msg_seq m \<and> msg_seq m < c \<and> lg_messages l (msg_seq m) = Some m"
    and "sorted_wrt (<) (map msg_seq (messages_between l b c))"
proof -
  have dom: "dom (lg_messages l) = {s. s \<le> lg_max_seq l}"
    and seq: "\<And>s m. lg_messages l s = Some m \<Longrightarrow> msg_seq m = s"
    using assms(1) by (auto simp: log_ok_def messages_ok_def)
  have small: "n < 2 ^ 64" if "n < unat c" for n
    using that unsigned_less [where ?'a = nat, of c] by simp
  have at: "\<exists>m. lg_messages l (of_nat n) = Some m \<and> msg_seq m = of_nat n" if "n < unat c" for n
  proof -
    have "(of_nat n :: u64) \<le> lg_max_seq l"
      using that assms(2) small [OF that] by (simp add: word_le_nat_alt unat_of_nat_u64)
    then have "of_nat n \<in> dom (lg_messages l)" unfolding dom by simp
    with seq show ?thesis by blast
  qed
  show "m \<in> set (messages_between l b c) \<longleftrightarrow> b \<le> msg_seq m \<and> msg_seq m < c \<and> lg_messages l (msg_seq m) = Some m"
  proof
    assume "m \<in> set (messages_between l b c)"
    then obtain n where n: "unat b \<le> n" "n < unat c" "m = the (lg_messages l (of_nat n))"
      by (auto simp: messages_between_def)
    with at [OF n(2)] have "lg_messages l (msg_seq m) = Some m" "msg_seq m = of_nat n" by auto
    with n small [OF n(2)] show "b \<le> msg_seq m \<and> msg_seq m < c \<and> lg_messages l (msg_seq m) = Some m"
      by (simp add: word_le_nat_alt word_less_nat_alt unat_of_nat_u64)
  next
    assume r: "b \<le> msg_seq m \<and> msg_seq m < c \<and> lg_messages l (msg_seq m) = Some m"
    then have "unat (msg_seq m) \<in> {unat b..<unat c}" by (simp add: word_le_nat_alt word_less_nat_alt)
    moreover have "m = the (lg_messages l (of_nat (unat (msg_seq m))))" using r by simp
    ultimately show "m \<in> set (messages_between l b c)" unfolding messages_between_def set_map set_upt by (rule rev_image_eqI)
  qed
  have "map msg_seq (messages_between l b c) = map of_nat [unat b..<unat c]"
    unfolding messages_between_def map_map comp_def
  proof (intro map_cong refl)
    fix n assume "n \<in> set [unat b..<unat c]"
    with at [of n] show "msg_seq (the (lg_messages l (of_nat n))) = of_nat n" by auto
  qed
  moreover have "sorted_wrt (\<lambda>i j. (of_nat i :: u64) < of_nat j) [unat b..<unat c]"
  proof (rule sorted_wrt_mono_rel [of _ "(<)"])
    fix i j assume "i \<in> set [unat b..<unat c]" "j \<in> set [unat b..<unat c]" "i < j"
    with small [of i] small [of j] show "(of_nat i :: u64) < of_nat j" by (simp add: word_less_nat_alt unat_of_nat_u64)
  qed simp
  ultimately show "sorted_wrt (<) (map msg_seq (messages_between l b c))" by (simp add: sorted_wrt_map)
qed

lemma served_log:
  assumes "served M q L a c ms"
  shows "sorted_wrt (<) (map msg_seq ms)"
    and "m \<in> set ms \<Longrightarrow> a \<le> msg_seq m \<and> msg_seq m < c \<and> lg_messages L (msg_seq m) = Some m \<and>
      (\<exists>l. source_log M l L \<and> lg_messages l (msg_seq m) = Some m \<and> asked_for q l m)"
    and "a \<le> s \<Longrightarrow> s < c \<Longrightarrow> \<exists>m. lg_messages L s = Some m \<and> (m \<in> set ms \<or> (\<exists>l. source_log M l L \<and> lg_messages l s = Some m \<and> \<not> asked_for q l m))"
proof -
  have "sorted_wrt (<) (map msg_seq ms) \<and>
    (\<forall>m \<in> set ms. a \<le> msg_seq m \<and> msg_seq m < c \<and> lg_messages L (msg_seq m) = Some m \<and>
      (\<exists>l. source_log M l L \<and> lg_messages l (msg_seq m) = Some m \<and> asked_for q l m)) \<and>
    (\<forall>s. a \<le> s \<longrightarrow> s < c \<longrightarrow> (\<exists>m. lg_messages L s = Some m \<and> (m \<in> set ms \<or> (\<exists>l. source_log M l L \<and> lg_messages l s = Some m \<and> \<not> asked_for q l m))))"
    using assms
  proof induction
    case (served_batch a b ms c l)
    have ok: "log_ok l" and up: "lg_messages l \<subseteq>\<^sub>m lg_messages L"
      using served_batch.hyps(3) by (simp_all add: source_log_def extends_def)
    note between = messages_between_log [OF ok served_batch.hyps(4)]
    have kept: "lg_messages L s = Some m" if "lg_messages l s = Some m" for s m
      using up that by (metis domI map_le_def)
    let ?new = "filter (asked_for q l) (messages_between l b c)"
    have old: "msg_seq m < b" if "m \<in> set ms" for m using served_batch.IH that by blast
    have new: "b \<le> msg_seq m" "msg_seq m < c" "lg_messages L (msg_seq m) = Some m" if "m \<in> set ?new" for m
      using that between(1) [of m b] kept by auto
    have "sorted_wrt (<) (map msg_seq ?new)"
      using between(2) by (simp add: sorted_wrt_map sorted_wrt_filter)
    then have "sorted_wrt (<) (map msg_seq (ms @ ?new))"
      using served_batch.IH old new(1) by (auto simp: sorted_wrt_append intro: less_le_trans)
    moreover have "a \<le> msg_seq m \<and> msg_seq m < c \<and> lg_messages L (msg_seq m) = Some m \<and>
        (\<exists>l. source_log M l L \<and> lg_messages l (msg_seq m) = Some m \<and> asked_for q l m)" if "m \<in> set (ms @ ?new)" for m
    proof (cases "m \<in> set ms")
      case True
      with served_batch.IH served_batch.hyps(2) show ?thesis by (meson less_le_trans)
    next
      case False
      with that have "m \<in> set ?new" by simp
      with new [OF this] between(1) [of m b] served_le [OF served_batch.hyps(1)] served_batch.hyps(3) show ?thesis by auto
    qed
    moreover have "\<exists>m. lg_messages L s = Some m \<and> (m \<in> set (ms @ ?new) \<or> (\<exists>l. source_log M l L \<and> lg_messages l s = Some m \<and> \<not> asked_for q l m))"
      if s: "a \<le> s" "s < c" for s
    proof (cases "s < b")
      case True
      with served_batch.IH s(1) obtain m where "lg_messages L s = Some m"
        "m \<in> set ms \<or> (\<exists>l. source_log M l L \<and> lg_messages l s = Some m \<and> \<not> asked_for q l m)" by blast
      then show ?thesis by auto
    next
      case False
      have "s \<le> lg_max_seq l" using s(2) served_batch.hyps(4) by (simp add: word_le_nat_alt word_less_nat_alt)
      then obtain m where m: "lg_messages l s = Some m" "msg_seq m = s"
        using ok unfolding log_ok_def messages_ok_def by (metis (mono_tags, lifting) domD mem_Collect_eq)
      with False s(2) between(1) [of m b] have "m \<in> set (messages_between l b c)" by simp
      with kept [OF m(1)] m(1) served_batch.hyps(3) show ?thesis by auto
    qed
    ultimately show ?case by blast
  qed (simp add: leD)
  then show "sorted_wrt (<) (map msg_seq ms)"
    and "m \<in> set ms \<Longrightarrow> a \<le> msg_seq m \<and> msg_seq m < c \<and> lg_messages L (msg_seq m) = Some m \<and>
      (\<exists>l. source_log M l L \<and> lg_messages l (msg_seq m) = Some m \<and> asked_for q l m)"
    and "a \<le> s \<Longrightarrow> s < c \<Longrightarrow> \<exists>m. lg_messages L s = Some m \<and> (m \<in> set ms \<or> (\<exists>l. source_log M l L \<and> lg_messages l s = Some m \<and> \<not> asked_for q l m))"
    by blast+
qed

section \<open>The snapshots grow\<close>

lemma live_core_log:
  assumes "env_laws E" and "log_ok (log_at E (ss_core x))"
    and "contents E (ss_core y) = contents E (ss_core x) \<or>
      server_commit E (contents E (ss_core x)) (contents E (ss_core y)) \<and> roomy (log_at E (ss_core x))"
  shows "log_ok (log_at E (ss_core y))" and "extends (log_at E (ss_core x)) (log_at E (ss_core y))"
proof -
  have "log_ok (log_at E (ss_core y)) \<and> extends (log_at E (ss_core x)) (log_at E (ss_core y))"
    using assms(3)
  proof
    assume "server_commit E (contents E (ss_core x)) (contents E (ss_core y)) \<and> roomy (log_at E (ss_core x))"
    then obtain c w c' w' where step: "server_step E (c, w) (c', w')" and same: "contents E c = contents E (ss_core x)"
      "contents E c' = contents E (ss_core y)" and room: "roomy (log_at E (ss_core x))" unfolding server_commit_def by blast
    from server_step_log [OF assms(1) step] same have "log_next E (log_at E (ss_core x)) (log_at E (ss_core y))" by simp
    with log_next_ok [OF this] log_next_extends [OF this] assms(2) room show ?thesis by blast
  qed (use assms(2) in simp)
  then show "log_ok (log_at E (ss_core y))" and "extends (log_at E (ss_core x)) (log_at E (ss_core y))" by blast+
qed

text \<open>The shared snapshot is not ahead of the one the refresh thread has just created, which is not ahead
  of the database; all of them are well formed.\<close>

definition snapshots_ok :: "event_log set \<Rightarrow> ('db, 'snap, 'os) env \<Rightarrow> ('db, 'snap, 'os) sub_system \<Rightarrow> bool" where
  "snapshots_ok M E x \<longleftrightarrow> log_ok (log_at E (ss_core x)) \<and>
     (\<forall>s. subscription_snapshot (ss_core x) = Some s \<longrightarrow> source_log M (log_in E s) (log_at E (ss_core x))) \<and>
     (\<forall>g s'. ss_refresh x = Created g (Inr s') \<longrightarrow> source_log M (log_in E s') (log_at E (ss_core x)) \<and>
        (\<forall>s. subscription_snapshot (ss_core x) = Some s \<longrightarrow> lg_max_seq (log_in E s) \<le> lg_max_seq (log_in E s')))"

text \<open>The stream is not ahead of the shared snapshot.\<close>

definition behind :: "('db, 'snap, 'os) env \<Rightarrow> u64 \<Rightarrow> ('db, 'snap, 'os) sub_system \<Rightarrow> bool" where
  "behind E n x \<longleftrightarrow> (\<exists>s. subscription_snapshot (ss_core x) = Some s \<and> unat n \<le> unat (lg_max_seq (log_in E s)) + 1)"

lemma Commit_snapshot: "Commit E b c = (r, c') \<Longrightarrow> subscription_snapshot c' = subscription_snapshot (c :: ('db, 'snap, 'os) core)"
  by (auto simp: Commit_def Let_def bind_inv split: prod.splits sum.splits)

lemma source_log_refl: "log_ok l \<Longrightarrow> l \<in> M \<Longrightarrow> source_log M l l"
  by (simp add: source_log_def)

lemma sub_step_snapshots:
  assumes laws: "env_laws E" and step: "sub_step E x y" and ok: "snapshots_ok M E x"
    and log: "contents E (ss_core y) = contents E (ss_core x) \<or>
      server_commit E (contents E (ss_core x)) (contents E (ss_core y)) \<and> roomy (log_at E (ss_core x))"
    and known: "log_at E (ss_core x) \<in> M"
  shows "snapshots_ok M E y" and "behind E n x \<Longrightarrow> behind E n y"
proof -
  have ok_y: "log_ok (log_at E (ss_core y))" and ext: "extends (log_at E (ss_core x)) (log_at E (ss_core y))"
    using live_core_log [OF laws _ log] ok by (auto simp: snapshots_ok_def)
  have up: "source_log M l (log_at E (ss_core x)) \<Longrightarrow> source_log M l (log_at E (ss_core y))" for l
    by (rule source_log_mono [OF _ ext])
  have kept: "snapshots_ok M E y \<and> (behind E n x \<longrightarrow> behind E n y)"
    if "subscription_snapshot (ss_core y) = subscription_snapshot (ss_core x)"
      "\<forall>g s. ss_refresh y = Created g (Inr s) \<longrightarrow> ss_refresh x = Created g (Inr s)"
    using that ok ok_y up unfolding snapshots_ok_def behind_def by metis
  from step have "snapshots_ok M E y \<and> (behind E n x \<longrightarrow> behind E n y)"
  proof cases
    case (create g)
    have "subscription_snapshot (ss_core y) = subscription_snapshot (ss_core x)" using create by simp
    moreover have "lg_max_seq (log_in E s) \<le> lg_max_seq (log_at E (ss_core x))"
      if "subscription_snapshot (ss_core x) = Some s" for s
      using ok that unfolding snapshots_ok_def source_log_def extends_def by blast
    ultimately show ?thesis
      using ok create source_log_refl [OF _ known] CreateSnapshot_view [OF laws]
      by (auto simp: snapshots_ok_def behind_def refresh_create_def)
  next
    case (store g r pc c)
    show ?thesis
    proof (cases "\<exists>s. r = Inr s \<and> \<not> fatal_error_triggered (ss_core x)")
      case True
      then obtain s where s: "r = Inr s" "\<not> fatal_error_triggered (ss_core x)" by blast
      then have new: "subscription_snapshot (ss_core y) = Some s" "ss_refresh y \<in> {Stopped, Waiting}"
        using store by (auto simp: refresh_store_def Let_def split: if_splits)
      have s_ok: "source_log M (log_in E s) (log_at E (ss_core x))"
        and le: "\<And>s0. subscription_snapshot (ss_core x) = Some s0 \<Longrightarrow> lg_max_seq (log_in E s0) \<le> lg_max_seq (log_in E s)"
        using ok store(2) s(1) unfolding snapshots_ok_def by blast+
      have "snapshots_ok M E y" using new ok_y up [OF s_ok] by (auto simp: snapshots_ok_def)
      moreover have "behind E n y" if "behind E n x"
        using that new(1) le unfolding behind_def by (fastforce simp: word_le_nat_alt)
      ultimately show ?thesis by blast
    next
      case False
      with store have "subscription_snapshot (ss_core y) = subscription_snapshot (ss_core x)"
        "ss_refresh y \<in> {Stopped, Waiting} \<union> range Failing"
        by (auto simp: refresh_store_def Let_def split: if_splits sum.splits)
      then show ?thesis by (intro kept) auto
    qed
  qed (rule kept; auto simp: stop_thread_def FatalStorageError_def refresh_wake_def dest: Commit_snapshot)+
  then show "snapshots_ok M E y" and "behind E n x \<Longrightarrow> behind E n y" by blast+
qed

section \<open>One batch\<close>

lemma acquired_shared: "AcquireSubscriptionSnapshot c c' = Inr (s, version) \<Longrightarrow> subscription_snapshot c' = Some s"
  by (auto simp: AcquireSubscriptionSnapshot_def acquire_return_def bind_inv split: if_splits option.splits)

lemma end_with_core:
  assumes "end_with E s c st = (c', st')"
  shows "d_db c' = d_db c" and "subscription_snapshot c' = subscription_snapshot c" and "st' = st\<lparr>str_pc := Ended (ToGrpc s)\<rparr>"
  using assms by (auto simp: end_with_def ToGrpcStatus_def HandleRpcStatus_def FatalStorageError_def Let_def)

lemma write_messages_sent:
  "write_messages writes ms sent = (done', sent') \<Longrightarrow>
     \<exists>part. prefix part ms \<and> sent' = sent @ part \<and> (done' \<longrightarrow> part = ms)"
proof (induction ms arbitrary: sent)
  case (Cons m ms)
  show ?case
  proof (cases "writes (length sent)")
    case True
    with Cons.prems have "write_messages writes ms (sent @ [m]) = (done', sent')" by simp
    from Cons.IH [OF this] obtain part where "prefix part ms" "sent' = sent @ m # part" "done' \<longrightarrow> part = ms" by auto
    then show ?thesis by (intro exI [of _ "m # part"]) simp
  next
    case False
    with Cons.prems show ?thesis by (intro exI [of _ "[]"]) auto
  qed
qed simp

lemma FetchVisible_forward:
  assumes laws: "env_laws E" and scan: "max_scan_records E \<noteq> 0" and room: "lg_max_seq (log_in E s) + 1 \<noteq> 0"
    and run: "FetchVisible E s prin from_seq 100 only channels = Inr r"
    and valid: "ValidateReadableChannels E s prin channels = Inr u"
    and start: "unat from_seq \<le> unat (lg_max_seq (log_in E s)) + 1"
  shows "from_seq \<le> fr_next_seq r" and "unat (fr_next_seq r) \<le> unat (lg_max_seq (log_in E s)) + 1"
    and "fr_messages r = filter (wanted (log_in E s) prin only channels) (messages_between (log_in E s) from_seq (fr_next_seq r))"
    and "fr_last_seq r = lg_max_seq (log_in E s)"
proof -
  let ?l = "log_in E s"
  have lim: "check_limit 100 = Inr ()" by (simp add: check_limit_def)
  note promise = FetchVisible_promise [OF laws lim valid run room, unfolded page_promise_def Let_def]
  show "fr_messages r = filter (wanted ?l prin only channels) (messages_between ?l from_seq (fr_next_seq r))"
    "fr_last_seq r = lg_max_seq ?l"
    using promise by blast+
  have top: "unat (lg_max_seq ?l + 1) = unat (lg_max_seq ?l) + 1" using unat_Suc_word [OF room] by simp
  have "fr_next_seq r \<le> lg_max_seq ?l + 1" using promise by blast
  then show "unat (fr_next_seq r) \<le> unat (lg_max_seq ?l) + 1" unfolding word_le_nat_alt top .
  show "from_seq \<le> fr_next_seq r"
  proof (cases "from_seq \<le> lg_max_seq ?l")
    case True
    with promise scan show ?thesis by (simp add: less_imp_le)
  next
    case False
    then have "fr_next_seq r = lg_max_seq ?l + 1"
      using run counter_log(1) [OF laws] by (auto simp: FetchVisible_def bind_inv not_le)
    with start top show ?thesis by (simp add: word_le_nat_alt)
  qed
qed

lemma word_add_1_nonzero: "b + 1 \<noteq> 0 \<Longrightarrow> a \<le> b \<Longrightarrow> a + 1 \<noteq> (0 :: u64)"
  by (metis eq_neg_iff_add_eq_0 word_order.extremum_unique)

lemma batch_promise:
  assumes laws: "env_laws E" and scan: "max_scan_records E \<noteq> 0" and ok: "snapshots_ok M E x"
    and room: "lg_max_seq (log_at E (ss_core x)) + 1 \<noteq> 0"
    and run: "FetchSubscriptionBatch E (sq_principal q) (sq_token q) n 100 (sq_only_my_recipient q) (sq_channels q) c
      (ss_core x) = Inr (batch, version)"
    and behind: "behind E n x"
  shows "\<exists>l. source_log M l (log_at E (ss_core x)) \<and> n \<le> fr_next_seq batch \<and>
    unat (fr_next_seq batch) \<le> unat (lg_max_seq l) + 1 \<and>
    fr_messages batch = filter (asked_for q l) (messages_between l n (fr_next_seq batch)) \<and>
    behind E (fr_next_seq batch) x"
proof -
  from run obtain s where acq: "AcquireSubscriptionSnapshot c (ss_core x) = Inr (s, version)"
    and valid: "ValidateReadableChannels E s (sq_principal q) (sq_channels q) = Inr ()"
    and visible: "FetchVisible E s (sq_principal q) n 100 (sq_only_my_recipient q) (sq_channels q) = Inr batch"
    by (auto simp: FetchSubscriptionBatch_def bind_inv)
  note shared = acquired_shared [OF acq]
  have src: "source_log M (log_in E s) (log_at E (ss_core x))" using ok shared by (simp add: snapshots_ok_def)
  then have le: "lg_max_seq (log_in E s) \<le> lg_max_seq (log_at E (ss_core x))" by (simp add: source_log_def extends_def)
  have room': "lg_max_seq (log_in E s) + 1 \<noteq> 0" by (rule word_add_1_nonzero [OF room le])
  have n: "unat n \<le> unat (lg_max_seq (log_in E s)) + 1" using behind shared by (simp add: behind_def)
  note fwd = FetchVisible_forward [OF laws scan room' visible valid n]
  from fwd(2) shared have "behind E (fr_next_seq batch) x" by (simp add: behind_def)
  with src fwd show ?thesis unfolding asked_for_def by blast
qed

section \<open>The invariant\<close>

text \<open>A batch that was cut short by a failing write leaves \<open>extra\<close> messages after the served ones.\<close>

definition cut_short :: "event_log set \<Rightarrow> subscribe_request \<Rightarrow> event_log \<Rightarrow> u64 \<Rightarrow> event_message list \<Rightarrow> bool" where
  "cut_short M q L n extra \<longleftrightarrow> (\<exists>l c. source_log M l L \<and> n \<le> c \<and> unat c \<le> unat (lg_max_seq l) + 1 \<and>
     prefix extra (filter (asked_for q l) (messages_between l n c)))"

fun idle_pc :: "('db, 'snap, 'os) stream_pc \<Rightarrow> bool" where
  "idle_pc Unstarted = True" | "idle_pc (StartWait c) = True" | "idle_pc (Ended g) = True" | "idle_pc _ = False"

definition stream_ok :: "event_log set \<Rightarrow> ('db, 'snap, 'os) env \<Rightarrow> subscribe_request \<Rightarrow> ('db, 'snap, 'os) sub_system \<Rightarrow>
    ('db, 'snap, 'os) stream \<Rightarrow> bool" where
  "stream_ok M E q x st \<longleftrightarrow>
     (if str_accepted st
      then behind E (str_next st) x \<and> str_pc st \<notin> {Unstarted} \<union> range StartWait \<and>
        (\<exists>ms extra. served M q (log_at E (ss_core x)) (sq_from_seq q) (str_next st) ms \<and> str_sent st = ms @ extra \<and>
           (extra = [] \<or> cut_short M q (log_at E (ss_core x)) (str_next st) extra \<and> str_pc st \<in> range Ended))
      else str_sent st = [] \<and> idle_pc (str_pc st))"

lemma stream_ok_mono:
  assumes "stream_ok M E q x st" and "extends (log_at E (ss_core x)) (log_at E (ss_core y))"
    and "\<And>n. behind E n x \<Longrightarrow> behind E n y"
  shows "stream_ok M E q y st"
proof -
  have "cut_short M q (log_at E (ss_core y)) n extra" if "cut_short M q (log_at E (ss_core x)) n extra" for n extra
    using that source_log_mono [OF _ assms(2)] unfolding cut_short_def by blast
  moreover have "served M q (log_at E (ss_core y)) a c ms" if "served M q (log_at E (ss_core x)) a c ms" for a c ms
    by (rule served_mono [OF that assms(2)])
  ultimately show ?thesis
    using assms(1) assms(3) [of "str_next st"] unfolding stream_ok_def by (cases "str_accepted st") (simp_all, blast)
qed

lemma stream_ok_pc:
  assumes "stream_ok M E q x st" and "str_pc st \<notin> range Ended" and "pc \<notin> {Unstarted} \<union> range StartWait"
    and "\<not> str_accepted st \<Longrightarrow> idle_pc pc"
  shows "stream_ok M E q x (st\<lparr>str_pc := pc\<rparr>)"
  using assms by (auto simp: stream_ok_def)

text \<open>The core as it is after the stream has reported a status.\<close>

lemma same_snapshots:
  assumes "d_db c' = d_db (ss_core x)" and "subscription_snapshot c' = subscription_snapshot (ss_core x)"
  shows "snapshots_ok M E (x\<lparr>ss_core := c'\<rparr>) = snapshots_ok M E x" and "behind E n (x\<lparr>ss_core := c'\<rparr>) = behind E n x"
    and "stream_ok M E q (x\<lparr>ss_core := c'\<rparr>) st = stream_ok M E q x st"
  using assms by (simp_all add: snapshots_ok_def behind_def stream_ok_def)

lemma stream_start_ok:
  assumes laws: "env_laws E" and ok: "stream_ok M E q x st" and pc: "str_pc st = StartWait c"
    and run: "RunSubscription_start E q c (ss_core x) st = (c', st')"
  shows "stream_ok M E q x st'" and "d_db c' = d_db (ss_core x)" and "subscription_snapshot c' = subscription_snapshot (ss_core x)"
proof -
  have fresh: "\<not> str_accepted st" "str_sent st = []" using ok pc by (auto simp: stream_ok_def split: if_splits)
  have "stream_ok M E q x st' \<and> d_db c' = d_db (ss_core x) \<and> subscription_snapshot c' = subscription_snapshot (ss_core x)"
  proof (cases "GetSubscriptionMaxSeq E (sq_principal q) (sq_token q) (sq_channels q) c (ss_core x)")
    case (Inl s)
    with run have "end_with E s (ss_core x) st = (c', st')" by (simp add: RunSubscription_start_def)
    from end_with_core [OF this] fresh show ?thesis by (simp add: stream_ok_def)
  next
    case (Inr max_seq)
    then obtain s where s: "subscription_snapshot (ss_core x) = Some s" "GetMaxSeq E s = Inr max_seq"
      by (auto simp: GetSubscriptionMaxSeq_def bind_inv dest: acquired_shared)
    have max_seq: "max_seq = lg_max_seq (log_in E s)" using counter_log(1) [OF laws s(2)] by simp
    show ?thesis
    proof (cases "sq_from_seq q > max_seq \<and> sq_from_seq q - max_seq > 1")
      case True
      with run Inr fresh show ?thesis by (auto simp: RunSubscription_start_def stream_ok_def)
    next
      case False
      have "unat (sq_from_seq q) \<le> unat max_seq + 1"
      proof (cases "sq_from_seq q > max_seq")
        case True
        then have "unat (sq_from_seq q - max_seq) = unat (sq_from_seq q) - unat max_seq"
          by (simp add: unat_sub less_imp_le)
        with False True show ?thesis by (simp add: word_less_nat_alt)
      qed (simp add: word_less_nat_alt)
      with s(1) have "behind E (sq_from_seq q) x" by (simp add: behind_def max_seq)
      moreover have "c' = ss_core x" "st' = st\<lparr>str_pc := LoopHead, str_next := sq_from_seq q, str_accepted := True\<rparr>"
        using run Inr False by (auto simp: RunSubscription_start_def)
      ultimately show ?thesis using fresh served_nothing [of M q "log_at E (ss_core x)" "sq_from_seq q"]
        by (auto simp: stream_ok_def)
    qed
  qed
  then show "stream_ok M E q x st'" and "d_db c' = d_db (ss_core x)"
    and "subscription_snapshot c' = subscription_snapshot (ss_core x)" by blast+
qed

lemma stream_batch_ok:
  assumes laws: "env_laws E" and scan: "max_scan_records E \<noteq> 0" and snaps: "snapshots_ok M E x"
    and room: "lg_max_seq (log_at E (ss_core x)) + 1 \<noteq> 0"
    and ok: "stream_ok M E q x st" and pc: "str_pc st = BatchWait c"
    and run: "RunSubscription_batch E q writes c (ss_core x) st = (c', st')"
  shows "stream_ok M E q x st'" and "d_db c' = d_db (ss_core x)" and "subscription_snapshot c' = subscription_snapshot (ss_core x)"
proof -
  let ?L = "log_at E (ss_core x)"
  have acc: "str_accepted st" and behind: "behind E (str_next st) x"
    and served: "served M q ?L (sq_from_seq q) (str_next st) (str_sent st)"
    using ok pc by (auto simp: stream_ok_def split: if_splits)
  have "stream_ok M E q x st' \<and> d_db c' = d_db (ss_core x) \<and> subscription_snapshot c' = subscription_snapshot (ss_core x)"
  proof (cases "FetchSubscriptionBatch E (sq_principal q) (sq_token q) (str_next st) 100 (sq_only_my_recipient q)
      (sq_channels q) c (ss_core x)")
    case (Inl s)
    with run have "end_with E s (ss_core x) st = (c', st')" by (simp add: RunSubscription_batch_def)
    from end_with_core [OF this] acc behind served show ?thesis by (auto simp: stream_ok_def)
  next
    case (Inr r)
    then obtain batch version where r: "r = (batch, version)" by fastforce
    let ?n = "fr_next_seq batch"
    from batch_promise [OF laws scan snaps room _ behind] Inr r obtain l where l: "source_log M l ?L" "str_next st \<le> ?n"
      "unat ?n \<le> unat (lg_max_seq l) + 1" "behind E ?n x"
      and msgs: "fr_messages batch = filter (asked_for q l) (messages_between l (str_next st) ?n)" by blast
    have more: "served M q ?L (sq_from_seq q) ?n (str_sent st @ fr_messages batch)"
      unfolding msgs by (rule served_batch [OF served l(2,1,3)])
    obtain done' sent where w: "write_messages writes (fr_messages batch) (str_sent st) = (done', sent)" by fastforce
    from write_messages_sent [OF w] obtain part where part: "prefix part (fr_messages batch)" "sent = str_sent st @ part"
      "done' \<Longrightarrow> part = fr_messages batch" by blast
    show ?thesis
    proof (cases done')
      case True
      with run Inr r w have "c' = ss_core x" "st' = st\<lparr>str_pc := (if ?n > fr_last_seq batch then Idle version else LoopHead),
          str_next := ?n, str_sent := sent\<rparr>" by (simp_all add: RunSubscription_batch_def)
      with True part more acc l(4) show ?thesis by (auto simp: stream_ok_def)
    next
      case False
      have "cut_short M q ?L (str_next st) part" using part(1) msgs l unfolding cut_short_def by auto
      moreover have "c' = ss_core x" "st' = st\<lparr>str_pc := Ended (OK, []), str_sent := sent\<rparr>"
        using run Inr r w False by (simp_all add: RunSubscription_batch_def)
      ultimately show ?thesis using part(2) served acc behind by (auto simp: stream_ok_def)
    qed
  qed
  then show "stream_ok M E q x st'" and "d_db c' = d_db (ss_core x)"
    and "subscription_snapshot c' = subscription_snapshot (ss_core x)" by blast+
qed

section \<open>Reachable states\<close>

fun running_pc :: "('db, 'snap, 'os) stream_pc \<Rightarrow> bool" where
  "running_pc Unstarted = False" | "running_pc (Ended g) = False" | "running_pc _ = True"

definition registry_ok :: "nat \<Rightarrow> event_service \<Rightarrow> ('db, 'snap, 'os) stream \<Rightarrow> bool" where
  "registry_ok ctxt v st \<longleftrightarrow> (subscriptions_stopping v \<longrightarrow> subscriptions v \<subseteq> cancelled v) \<and>
     (running_pc (str_pc st) \<longrightarrow> ctxt \<in> subscriptions v)"

definition live_start_state :: "('db, 'snap, 'os) env \<Rightarrow> ('db, 'os) disk \<Rightarrow> ('db, 'snap, 'os) live" where
  "live_start_state E storage =
     (sub_init E storage, \<lparr>subscriptions = {}, subscriptions_stopping = False, cancelled = {}\<rparr>, new_stream)"

lemma live_step_registry:
  assumes "live_step E q ctxt (x, v, st) (y, v', st')" and "registry_ok ctxt v st"
  shows "registry_ok ctxt v' st'"
  using assms(1)
proof cases
  case (live_start c c')
  then have "running_pc (str_pc st)" by simp
  with assms(2) live_start show ?thesis by (simp add: registry_ok_def)
next
  case (live_batch c writes c')
  then have "running_pc (str_pc st)" by simp
  with assms(2) live_batch show ?thesis by (simp add: registry_ok_def)
next
  case (live_wait version is_cancelled)
  then have "running_pc (str_pc st)" by simp
  with assms(2) live_wait show ?thesis by (simp add: registry_ok_def)
qed (use assms(2) in \<open>auto simp: registry_ok_def RegisterSubscription_def UnregisterSubscription_def StopSubscriptions_def
    split: if_splits\<close>)

lemma live_step_log:
  assumes "live_step E q ctxt (x, v, st) (y, v', st')" and "env_laws E" and "snapshots_ok M E x"
    and "log_at E (ss_core x) \<in> M"
  shows "snapshots_ok M E y" and "extends (log_at E (ss_core x)) (log_at E (ss_core y))"
proof -
  have fin: "snapshots_ok M E (x\<lparr>ss_core := c'\<rparr>) \<and> extends (log_at E (ss_core x)) (log_at E (ss_core (x\<lparr>ss_core := c'\<rparr>)))"
    if "d_db c' = d_db (ss_core x)" "subscription_snapshot c' = subscription_snapshot (ss_core x)" for c'
    using same_snapshots(1) [OF that] that assms(3) by simp
  from assms(1) have "snapshots_ok M E y \<and> extends (log_at E (ss_core x)) (log_at E (ss_core y))"
  proof cases
    case live_core
    then show ?thesis
      using sub_step_snapshots(1) [OF assms(2) live_core(3) assms(3) live_core(4) assms(4)]
        live_core_log(2) [OF assms(2) _ live_core(4)] assms(3) by (auto simp: snapshots_ok_def)
  next
    case (live_start c c')
    have "d_db c' = d_db (ss_core x) \<and> subscription_snapshot c' = subscription_snapshot (ss_core x)"
      using live_start(5) by (auto simp: RunSubscription_start_def dest: end_with_core split: sum.splits if_splits)
    with fin live_start show ?thesis by simp
  next
    case (live_batch c writes c')
    have "d_db c' = d_db (ss_core x) \<and> subscription_snapshot c' = subscription_snapshot (ss_core x)"
      using live_batch(5) by (auto simp: RunSubscription_batch_def dest: end_with_core split: sum.splits prod.splits bool.splits)
    with fin live_batch show ?thesis by simp
  qed (use assms(3) in simp_all)
  then show "snapshots_ok M E y" and "extends (log_at E (ss_core x)) (log_at E (ss_core y))" by blast+
qed

lemma live_step_stream:
  assumes step: "live_step E q ctxt (x, v, st) (y, v', st')" and laws: "env_laws E" and scan: "max_scan_records E \<noteq> 0"
    and snaps: "snapshots_ok M E x" and room: "lg_max_seq (log_at E (ss_core x)) + 1 \<noteq> 0" and ok: "stream_ok M E q x st"
    and known: "log_at E (ss_core x) \<in> M"
  shows "stream_ok M E q y st'"
  using step
proof cases
  case live_core
  have "extends (log_at E (ss_core x)) (log_at E (ss_core y))" by (rule live_step_log(2) [OF step laws snaps known])
  with stream_ok_mono [OF ok] sub_step_snapshots(2) [OF laws live_core(3) snaps live_core(4) known] live_core show ?thesis by blast
next
  case (live_start c c')
  note start = stream_start_ok [OF laws ok live_start(3,5)]
  with same_snapshots(3) [OF start(2,3)] live_start show ?thesis by simp
next
  case (live_batch c writes c')
  note batch = stream_batch_ok [OF laws scan snaps room ok live_batch(3,5)]
  with same_snapshots(3) [OF batch(2,3)] live_batch show ?thesis by simp
next
  case (live_wait version is_cancelled)
  then show ?thesis using ok stream_ok_pc [OF ok] by (auto simp: RunSubscription_wait_def stream_ok_def split: if_splits)
qed (use ok in \<open>auto simp: stream_ok_def split: if_splits\<close>)

text \<open>The logs the server has had on the way to a state: those of the states that are reached and from which it is
  reached.\<close>

definition past_logs :: "('db, 'snap, 'os) env \<Rightarrow> subscribe_request \<Rightarrow> nat \<Rightarrow> ('db, 'os) disk \<Rightarrow> ('db, 'snap, 'os) live \<Rightarrow>
    event_log set" where
  "past_logs E q ctxt storage z = {log_at E (ss_core (fst y)) | y.
     (live_step E q ctxt)\<^sup>*\<^sup>* (live_start_state E storage) y \<and> (live_step E q ctxt)\<^sup>*\<^sup>* y z}"

lemma past_logsI:
  "(live_step E q ctxt)\<^sup>*\<^sup>* (live_start_state E storage) (x, v, st) \<Longrightarrow> (live_step E q ctxt)\<^sup>*\<^sup>* (x, v, st) z \<Longrightarrow>
   log_at E (ss_core x) \<in> past_logs E q ctxt storage z"
  unfolding past_logs_def by force

lemma live_initial:
  assumes laws: "env_laws E" and "log_ok (log_at E storage)" and known: "log_at E storage \<in> M"
  shows "snapshots_ok M E (sub_init E storage)"
proof -
  have "log_at E (ss_core (sub_init E storage)) = log_at E storage" by (simp add: sub_init_def)
  moreover have "log_in E s = log_at E storage" if "subscription_snapshot (ss_core (sub_init E storage)) = Some s" for s
    using that CreateSnapshot_view [OF laws, of "d_db storage"]
    by (auto simp: sub_init_def OpenEventCore_def Let_def FatalStorageError_def split: sum.splits if_splits)
  moreover have "ss_refresh (sub_init E storage) \<noteq> Created g r" for g r by (simp add: sub_init_def refresh_start_def)
  ultimately show ?thesis using assms(2) source_log_refl [OF _ known] by (simp add: snapshots_ok_def)
qed

lemma live_reachable_to:
  assumes "(live_step E q ctxt)\<^sup>*\<^sup>* (live_start_state E storage) (x, v, st)" and "(live_step E q ctxt)\<^sup>*\<^sup>* (x, v, st) z"
    and laws: "env_laws E" and scan: "max_scan_records E \<noteq> 0" and start: "log_ok (log_at E storage)"
  shows "snapshots_ok (past_logs E q ctxt storage z) E x \<and> registry_ok ctxt v st \<and>
    (lg_max_seq (log_at E (ss_core x)) + 1 \<noteq> 0 \<longrightarrow> stream_ok (past_logs E q ctxt storage z) E q x st)"
  using assms(1,2)
proof (induction "(x, v, st)" arbitrary: x v st rule: rtranclp_induct)
  case base
  then have x: "x = sub_init E storage" "v = \<lparr>subscriptions = {}, subscriptions_stopping = False, cancelled = {}\<rparr>"
    "st = new_stream" by (simp_all add: live_start_state_def)
  have "log_at E storage \<in> past_logs E q ctxt storage z"
    using past_logsI [OF _ base(2)] base(1) by (simp add: x sub_init_def)
  from live_initial [OF laws start this] x show ?case by (simp add: registry_ok_def stream_ok_def new_stream_def)
next
  case (step y x v st)
  let ?M = "past_logs E q ctxt storage z"
  obtain x0 v0 st0 where y: "y = (x0, v0, st0)" by (cases y) auto
  have this_step: "live_step E q ctxt (x0, v0, st0) (x, v, st)" using step(2) y by simp
  have on: "(live_step E q ctxt)\<^sup>*\<^sup>* (x0, v0, st0) z" by (rule converse_rtranclp_into_rtranclp [OF this_step step(4)])
  with step y have IH: "snapshots_ok ?M E x0" "registry_ok ctxt v0 st0"
    "lg_max_seq (log_at E (ss_core x0)) + 1 \<noteq> 0 \<Longrightarrow> stream_ok ?M E q x0 st0" by auto
  have known: "log_at E (ss_core x0) \<in> ?M" using past_logsI [OF _ on] step(1) y by simp
  note log = live_step_log [OF this_step laws IH(1) known]
  have "lg_max_seq (log_at E (ss_core x0)) + 1 \<noteq> 0" if "lg_max_seq (log_at E (ss_core x)) + 1 \<noteq> 0"
    using word_add_1_nonzero [OF that] log(2) by (simp add: extends_def)
  with live_step_stream [OF this_step laws scan IH(1) _ _ known] IH(3) log(1) live_step_registry [OF this_step IH(2)]
  show ?case by blast
qed

lemmas live_reachable = live_reachable_to [OF _ rtranclp.rtrancl_refl]

end
