(* ===== verification/Stream_Properties.thy ===== *)
theory Stream_Properties
  imports Subscription_Stream
begin

text \<open>
  The properties of the remote procedure calls and of subscription streams.
\<close>

section \<open>Reading the reference log\<close>

abbreviation ref_first :: event_message where
  "ref_first \<equiv> InitializationMessage 5"

definition only_first :: "ref_db \<Rightarrow> bool" where
  "only_first db \<longleftrightarrow> GetMaxSeq ref_env db = Inr 0 \<and>
     ref_entries db Messages (NumericKey kMessagePrefix 0) = [(NumericKey kMessagePrefix 0, put_message ref_first)]"

lemma ref_first_fits: "message_fits ref_first"
  by (simp add: message_fits_def fits_def InitializationMessage_def empty_message_def)

lemma ref_first_valid: "ValidInitializationMessage ref_proto ref_first"
  by (rule InitializationMessage_valid [OF ref_json_laws])

lemma ref_first_decodes: "DecodeStoredMessage ref_proto 0 (put_message ref_first) = Inr ref_first"
proof -
  have "msg_seq ref_first = 0" "msg_object_keys ref_first = []"
    by (simp_all add: InitializationMessage_def empty_message_def)
  with ref_first_valid whole_put(1) [OF ref_first_fits] show ?thesis by (simp add: DecodeStoredMessage_def)
qed

lemma ref_fetch_first:
  assumes "only_first db"
  shows "FetchVisible ref_env db prin 0 100 False [] = Inr \<lparr>fr_messages = [ref_first], fr_last_seq = 0, fr_next_seq = 1\<rparr>"
proof -
  have ch: "msg_channel_id ref_first = 0" by (simp add: InitializationMessage_def empty_message_def)
  have visit: "fetch_visitor ref_env db prin 100 False [] \<lparr>pg_messages = [], pg_response_bytes = 0,
      pg_readable_channels = (\<lambda>_. None)\<rparr> ref_first =
      (Inr kContinue, \<lparr>pg_messages = [ref_first], pg_response_bytes = of_nat (length (put_message ref_first)),
        pg_readable_channels = [0 \<mapsto> True]\<rparr>)"
    by (simp add: fetch_visitor_def channel_readable_def LoadChannel_def ch CanRead_def SystemChannel_def page_add_def Let_def)
  have key: "DecodeNumericKey (NumericKey kMessagePrefix 0) kMessagePrefix ''message'' = Inr 0"
    by simp
  show ?thesis
    using assms visit key ref_first_decodes
    by (simp add: FetchVisible_def only_first_def ScanMessages_def Let_def iter_status_def past_last_def)
qed

lemma ref_with_token_first: "only_first ref_with_token"
proof -
  have "map_of ref_initial_db (Meta, kMaxSeqKey) = Some (EncodeUint64 0)"
    unfolding ref_initial_db_def ref_write_contents InitializationBatch_def using ref_initial_serialized by simp
  moreover have "ref_entries ref_with_token Messages (NumericKey kMessagePrefix 0) =
      [(NumericKey kMessagePrefix 0, put_message ref_first)]"
    using ref_initial_serialized
    by (simp add: ref_entries_def ref_keys_def ref_with_token_def ref_initial_db_def InitializationBatch_def)
  ultimately show ?thesis
    by (simp add: only_first_def GetMaxSeq_def GetRequiredUint64_def ref_lookup_def ref_with_token_def)
qed

definition ref_live_storage :: "(ref_db, ref_os) disk" where
  "ref_live_storage = \<lparr>d_db = ref_with_token, d_os = d_os (ref_core [])\<rparr>"

definition ref_subscribe :: subscribe_request where
  "ref_subscribe = \<lparr>sq_principal = 7, sq_token = ref_token, sq_from_seq = 0, sq_only_my_recipient = False, sq_channels = []\<rparr>"

lemma ref_live_log: "log_ok (log_at ref_env ref_live_storage)"
proof -
  obtain c where "reachable ref_env (c, [])" "d_db c = ref_with_token" using ref_reach_token by blast
  with reachable_ok [OF ref_env_laws] show ?thesis by (fastforce simp: server_ok_def ref_live_storage_def)
qed

lemma ref_live_run:
  "\<exists>x v st. (live_step ref_env ref_subscribe 1)\<^sup>*\<^sup>* (live_start_state ref_env ref_live_storage) (x, v, st) \<and>
     lg_max_seq (log_at ref_env (ss_core x)) = 0 \<and> str_accepted st \<and> str_next st = 1 \<and> str_sent st = [ref_first]"
proof -
  let ?x = "sub_init ref_env ref_live_storage" and ?v = "\<lparr>subscriptions = {1}, subscriptions_stopping = False, cancelled = {}\<rparr>"
  let ?c = "ss_core ?x" and ?st = "new_stream :: (ref_db, ref_db, ref_os) stream"
  let ?st1 = "?st\<lparr>str_pc := StartWait ?c\<rparr>"
  let ?st2 = "?st1\<lparr>str_pc := LoopHead, str_next := 0, str_accepted := True\<rparr>"
  let ?st3 = "?st2\<lparr>str_pc := BatchWait ?c\<rparr>"
  let ?st4 = "?st3\<lparr>str_pc := Idle 1, str_next := 1, str_sent := [ref_first]\<rparr>"
  have c: "\<not> fatal_error_triggered ?c" "subscription_snapshot ?c = Some ref_with_token" "subscription_snapshot_version ?c = 1"
    "commit_generation ?c = 0" "status_ok (subscription_snapshot_status ?c)" "subscription_snapshot_generation ?c = 0"
    by (simp_all add: sub_init_def OpenEventCore_def ref_live_storage_def status_ok_def status_Ok_def)
  have acq: "AcquireSubscriptionSnapshot ?c ?c = Inr (ref_with_token, 1)"
    using c by (simp add: AcquireSubscriptionSnapshot_def acquire_enter_def acquire_return_def)
  have goes: "goes_on ?c ?c" using c by (simp add: goes_on_def acquire_ready_def)
  have max_seq: "GetMaxSeq ref_env ref_with_token = Inr 0" using ref_with_token_first by (simp add: only_first_def)
  have start: "RunSubscription_start ref_env ref_subscribe ?c ?c ?st1 = (?c, ?st2)"
    using c acq ref_with_token_reads(1) max_seq
    by (simp add: RunSubscription_start_def GetSubscriptionMaxSeq_def ref_subscribe_def ValidateReadableChannels_def)
  have batch: "RunSubscription_batch ref_env ref_subscribe (\<lambda>_. True) ?c ?c ?st3 = (?c, ?st4)"
    using acq ref_with_token_reads(1) ref_fetch_first [OF ref_with_token_first]
    by (simp add: RunSubscription_batch_def FetchSubscriptionBatch_def ref_subscribe_def ValidateReadableChannels_def new_stream_def)
  let ?R = "live_step ref_env ref_subscribe 1"
  have s1: "?R (live_start_state ref_env ref_live_storage) (?x, ?v, ?st1)"
    unfolding live_start_state_def by (rule live_register) (simp_all add: new_stream_def RegisterSubscription_def)
  have s2: "?R (?x, ?v, ?st1) (?x, ?v, ?st2)" using live_start [OF _ goes start, of 1 ?v] by simp
  have s3: "?R (?x, ?v, ?st2) (?x, ?v, ?st3)" using live_head [of ?st2 1 ?v ref_env ref_subscribe ?x] by simp
  have s4: "?R (?x, ?v, ?st3) (?x, ?v, ?st4)" using live_batch [OF _ goes batch, of 1 ?v] by simp
  have "?R\<^sup>*\<^sup>* (live_start_state ref_env ref_live_storage) (?x, ?v, ?st4)"
    using s1 s2 s3 s4 by (meson converse_rtranclp_into_rtranclp rtranclp.rtrancl_refl)
  moreover have "lg_max_seq (log_at ref_env ?c) = 0"
    using counter_log(1) [OF ref_env_laws max_seq] by (simp add: sub_init_def ref_live_storage_def)
  ultimately show ?thesis by (intro exI conjI) (assumption | simp)+
qed

section \<open>Streams after a fatal error\<close>

lemma subscribe_unavailable:
  assumes "fatal_error_triggered c"
  shows "RunSubscription_start E q c c' st = (c', st\<lparr>str_pc := Ended (ToGrpc unavailable)\<rparr>)"
    and "RunSubscription_batch E q writes c c' st = (c', st\<lparr>str_pc := Ended (ToGrpc unavailable)\<rparr>)"
proof -
  have "EnsureAvailable c = (Inl unavailable, c)" using assms by (simp add: EnsureAvailable_def unavailable_def)
  then show "RunSubscription_start E q c c' st = (c', st\<lparr>str_pc := Ended (ToGrpc unavailable)\<rparr>)"
    "RunSubscription_batch E q writes c c' st = (c', st\<lparr>str_pc := Ended (ToGrpc unavailable)\<rparr>)"
    by (simp_all add: RunSubscription_start_def RunSubscription_batch_def GetSubscriptionMaxSeq_def FetchSubscriptionBatch_def
        AcquireSubscriptionSnapshot_def acquire_enter_def end_with_def unavailable_report)
qed

text \<open>The core is in the fatal state, and so it was when the stream asked for the snapshot it waits for.\<close>

definition asked_after_fatal :: "('db, 'snap, 'os) sub_system \<Rightarrow> ('db, 'snap, 'os) stream \<Rightarrow> bool" where
  "asked_after_fatal x st \<longleftrightarrow> fatal_error_triggered (ss_core x) \<and>
     (\<forall>c. str_pc st \<in> {StartWait c, BatchWait c} \<longrightarrow> fatal_error_triggered c)"

lemma sub_step_latched: "sub_step E x y \<Longrightarrow> fatal_error_triggered (ss_core x) \<Longrightarrow> fatal_error_triggered (ss_core y)"
  by (cases rule: sub_step.cases)
    (auto simp: Commit_def Let_def bind_inv FatalStorageError_def stop_thread_def refresh_store_def split: prod.splits sum.splits)

lemma latched_stream_silent:
  assumes "(live_step E q ctxt)\<^sup>*\<^sup>* (x, v, st) (y, v', st')" and "asked_after_fatal x st"
  shows "asked_after_fatal y st' \<and> str_sent st' = str_sent st"
  using assms
proof (induction "(y, v', st')" arbitrary: y v' st' rule: rtranclp_induct)
  case (step z y v' st')
  obtain x1 v1 st1 where z: "z = (x1, v1, st1)" by (cases z) auto
  with step have IH: "asked_after_fatal x1 st1" "str_sent st1 = str_sent st" by auto
  from step(2) have "asked_after_fatal y st' \<and> str_sent st' = str_sent st1"
    unfolding z
  proof cases
    case live_core
    with IH(1) sub_step_latched show ?thesis by (auto simp: asked_after_fatal_def)
  next
    case (live_start c c')
    with IH(1) subscribe_unavailable(1) [of c E q "ss_core x1" st1] show ?thesis by (auto simp: asked_after_fatal_def)
  next
    case (live_batch c writes c')
    with IH(1) subscribe_unavailable(2) [of c E q writes "ss_core x1" st1] show ?thesis by (auto simp: asked_after_fatal_def)
  qed (use IH(1) in \<open>auto simp: asked_after_fatal_def RunSubscription_wait_def\<close>)
  with IH(2) show ?case by simp
qed simp

section \<open>Properties\<close>

text \<open>
  C24: A subscription stream is ordered, without gaps and without leaks, however it interleaves with commits,
  snapshot refreshes and shutdown: the messages sent have strictly increasing sequence numbers from the
  requested one on, and each is the message of the log under that number. A message was sent only if at some moment of
  this very run, when the log already held it, the subscriber could read it and had asked for it; and a number
  below the next one was passed over only if at some such moment its message was not readable or not asked for. So a
  message that the subscriber could read ever since it was published is not passed over, and one it could never read
  is not sent.
\<close>

theorem stream_ordered_complete:
  assumes laws: "env_laws E" and scan: "max_scan_records E \<noteq> 0" and start: "log_ok (log_at E storage)"
    and reach: "(live_step E q ctxt)\<^sup>*\<^sup>* (live_start_state E storage) (x, v, st)"
    and room: "lg_max_seq (log_at E (ss_core x)) + 1 \<noteq> 0"
  shows "let L = log_at E (ss_core x); past = past_logs E q ctxt storage (x, v, st) in
    sorted_wrt (<) (map msg_seq (str_sent st)) \<and>
    (\<forall>m \<in> set (str_sent st). sq_from_seq q \<le> msg_seq m \<and> lg_messages L (msg_seq m) = Some m \<and>
       (\<exists>l \<in> past. lg_messages l (msg_seq m) = Some m \<and> asked_for q l m)) \<and>
    (str_accepted st \<longrightarrow> (\<forall>s. sq_from_seq q \<le> s \<and> s < str_next st \<longrightarrow>
       (\<exists>m. lg_messages L s = Some m \<and>
          (m \<in> set (str_sent st) \<or> (\<exists>l \<in> past. lg_messages l s = Some m \<and> \<not> asked_for q l m)))))"
proof -
  let ?L = "log_at E (ss_core x)" and ?M = "past_logs E q ctxt storage (x, v, st)"
  have ok: "stream_ok ?M E q x st" using live_reachable [OF reach laws scan start] room by blast
  show ?thesis
  proof (cases "str_accepted st")
    case False
    with ok show ?thesis by (simp add: stream_ok_def)
  next
    case True
    with ok obtain ms extra where ms: "served ?M q ?L (sq_from_seq q) (str_next st) ms" "str_sent st = ms @ extra"
      and extra: "extra = [] \<or> cut_short ?M q ?L (str_next st) extra" unfolding stream_ok_def by auto
    have "\<exists>n ms'. served ?M q ?L (sq_from_seq q) n ms' \<and> prefix (str_sent st) ms'"
    proof (cases "extra = []")
      case True
      with ms show ?thesis by auto
    next
      case False
      with extra obtain l c where l: "source_log ?M l ?L" "str_next st \<le> c" "unat c \<le> unat (lg_max_seq l) + 1"
        "prefix extra (filter (asked_for q l) (messages_between l (str_next st) c))" unfolding cut_short_def by blast
      have "prefix (str_sent st) (ms @ filter (asked_for q l) (messages_between l (str_next st) c))" using ms(2) l(4) by simp
      with served_batch [OF ms(1) l(2,1,3)] show ?thesis by blast
    qed
    then obtain n ms' where all: "served ?M q ?L (sq_from_seq q) n ms'" and pre: "prefix (str_sent st) ms'" by blast
    from pre have sub: "set (str_sent st) \<subseteq> set ms'" by (rule set_mono_prefix)
    have "sorted_wrt (<) (map msg_seq (str_sent st))"
      using served_log(1) [OF all] pre by (auto simp: prefix_def sorted_wrt_append)
    then show ?thesis
      using served_log(2) [OF all] served_log(3) [OF ms(1)] sub ms(2) unfolding Let_def source_log_def by fastforce
  qed
qed

theorem stream_ordered_complete_witness:
  "\<exists>x v st. (live_step ref_env ref_subscribe 1)\<^sup>*\<^sup>* (live_start_state ref_env ref_live_storage) (x, v, st) \<and>
     str_sent st = [ref_first] \<and> lg_messages (log_at ref_env (ss_core x)) (msg_seq ref_first) = Some ref_first"
proof -
  obtain x v st where run: "(live_step ref_env ref_subscribe 1)\<^sup>*\<^sup>* (live_start_state ref_env ref_live_storage) (x, v, st)"
    and x: "lg_max_seq (log_at ref_env (ss_core x)) = 0" "str_sent st = [ref_first]" using ref_live_run by blast
  have scan: "max_scan_records ref_env \<noteq> 0" by simp
  have room: "lg_max_seq (log_at ref_env (ss_core x)) + 1 \<noteq> 0" by (simp only: x(1)) simp
  from stream_ordered_complete [OF ref_env_laws scan ref_live_log run room] run x(2) show ?thesis
    unfolding Let_def by auto
qed

text \<open>
  C30: After a fatal error the server does nothing more: every remote procedure call is answered with the same
  \<^verbatim>\<open>UNAVAILABLE\<close> status and leaves the whole state of the core as it is. This holds for a subscription at its start and
  at each of its batches; a stream that is already running sends nothing more, however it goes on, apart from
  a batch for which it had asked before the error.
\<close>

theorem fatal_state_latched:
  assumes "fatal_error_triggered c"
  shows "EventServiceImpl_GetStatus E prin token c = (Inl (ToGrpc unavailable), c) \<and>
    EventServiceImpl_AllocateUuids E count c = (Inl (ToGrpc unavailable), c) \<and>
    EventServiceImpl_GetSeqByUuid E uuid c = (Inl (ToGrpc unavailable), c) \<and>
    EventServiceImpl_Publish E pq now rpc1 rpc2 c = (Inl (ToGrpc unavailable), c) \<and>
    EventServiceImpl_PublishAutoSeq E aq now rpc1 rpc2 c = (Inl (ToGrpc unavailable), c) \<and>
    EventServiceImpl_Fetch E fq c = (Inl (ToGrpc unavailable), c) \<and>
    ObjectStorageServiceImpl_WriteObject E wq c = Some (Inl (ToGrpc unavailable), c) \<and>
    ObjectStorageServiceImpl_GetObjectMetadata E i token c = (Inl (ToGrpc unavailable), c) \<and>
    ObjectStorageServiceImpl_BatchGetObjectMetadata E ks c = (Inl (ToGrpc unavailable), c) \<and>
    ObjectStorageServiceImpl_ReadObject E i token offset n c = Some (Inl (ToGrpc unavailable), c) \<and>
    ChannelServiceImpl_CreateChannel E cq now c = (Inl (ToGrpc unavailable), c) \<and>
    ChannelServiceImpl_GetChannel E prin token i c = (Inl (ToGrpc unavailable), c) \<and>
    ChannelServiceImpl_ListChannels E prin token flt c = (Inl (ToGrpc unavailable), c) \<and>
    ChannelServiceImpl_AddMember E prin token i target now c = (Inl (ToGrpc unavailable), c) \<and>
    ChannelServiceImpl_RemoveMember E prin token i target now c = (Inl (ToGrpc unavailable), c) \<and>
    AdminServiceImpl_AddToken E prin c = Some (Inl (ToGrpc unavailable), c) \<and>
    AdminServiceImpl_DeleteToken E prin token c = (Inl (ToGrpc unavailable), c) \<and>
    AdminServiceImpl_ListMessages E from_seq limit c = (Inl (ToGrpc unavailable), c) \<and>
    RunSubscription_start E sq c c' st = (c', st\<lparr>str_pc := Ended (ToGrpc unavailable)\<rparr>) \<and>
    RunSubscription_batch E sq writes c c' st = (c', st\<lparr>str_pc := Ended (ToGrpc unavailable)\<rparr>) \<and>
    (\<forall>x v st1 y v' st2. ss_core x = c \<and> (\<forall>d. str_pc st1 \<in> {StartWait d, BatchWait d} \<longrightarrow> fatal_error_triggered d) \<and>
       (live_step E sq ctxt)\<^sup>*\<^sup>* (x, v, st1) (y, v', st2) \<longrightarrow> str_sent st2 = str_sent st1)"
proof -
  have "str_sent st2 = str_sent st1" if "ss_core x = c" "\<forall>d. str_pc st1 \<in> {StartWait d, BatchWait d} \<longrightarrow> fatal_error_triggered d"
    "(live_step E sq ctxt)\<^sup>*\<^sup>* (x, v, st1) (y, v', st2)" for x v st1 y v' st2
    using latched_stream_silent [OF that(3)] that(1,2) assms by (auto simp: asked_after_fatal_def)
  then show ?thesis by (intro conjI latched_calls [OF assms] subscribe_unavailable [OF assms]) blast
qed

theorem fatal_state_latched_witness:
  "fst (EventServiceImpl_AllocateUuids ref_env 2 ((ref_core ref_state)\<lparr>fatal_error_triggered := True\<rparr>)) =
     Inl (UNAVAILABLE, ''server is shutting down due to a fatal storage error'')"
proof -
  let ?c = "(ref_core ref_state)\<lparr>fatal_error_triggered := True\<rparr>"
  have "fatal_error_triggered ?c" by simp
  from fatal_state_latched [OF this, of ref_env] show ?thesis
    by (simp add: unavailable_def ToGrpc_def status_ok_def mk_status_def)
qed

end
