(* ===== verification/Service_Properties.thy ===== *)
theory Service_Properties
  imports Stream_Properties
begin

text \<open>
  What the callers of the services can rely on: pages of messages, channels, listings and tokens.
\<close>

section \<open>Pages of messages\<close>

text \<open>
  C34: A page of messages that is returned to an authenticated caller contains, in order, exactly the messages the
  caller may see and asked for among those from the requested sequence number up to the one to continue with;
  it respects the limit, the call changes nothing, and it makes progress as long as there are messages.
\<close>

theorem fetch_page_exact:
  assumes "env_laws E" and "Fetch E q c = (Inr r, c')" and "lg_max_seq (log_at E c) + 1 \<noteq> 0"
  shows "c' = c \<and> authentic (log_at E c) (fq_principal q) (fq_token q) \<and>
    fr_messages r = filter (wanted (log_at E c) (fq_principal q) (fq_only_my_recipient q) (fq_channels q))
      (messages_between (log_at E c) (fq_from_seq q) (fr_next_seq r)) \<and>
    fr_last_seq r = lg_max_seq (log_at E c) \<and> fr_next_seq r \<le> lg_max_seq (log_at E c) + 1 \<and>
    length (fr_messages r) \<le> unat (fq_limit q) \<and>
    (fq_from_seq q \<le> lg_max_seq (log_at E c) \<and> max_scan_records E \<noteq> 0 \<longrightarrow> fq_from_seq q < fr_next_seq r)"
  using Fetch_result [OF assms] unfolding page_promise_def Let_def by blast

definition ref_fetch :: fetch_request where
  "ref_fetch = \<lparr>fq_principal = 7, fq_token = ref_token, fq_from_seq = 0, fq_limit = 100, fq_only_my_recipient = False,
     fq_channels = []\<rparr>"

lemma ref_fetch_run:
  "Fetch ref_env ref_fetch (ref_core ref_with_token) =
     (Inr \<lparr>fr_messages = [ref_first], fr_last_seq = 0, fr_next_seq = 1\<rparr>, ref_core ref_with_token)"
  using ref_with_token_reads(1) ref_fetch_first [OF ref_with_token_first]
  by (simp add: Fetch_def ref_fetch_def check_limit_def ValidateReadableChannels_def CreateLinearizedSnapshot_def bindM_def)

theorem fetch_page_exact_witness:
  "\<exists>r. Fetch ref_env ref_fetch (ref_core ref_with_token) = (Inr r, ref_core ref_with_token) \<and> fr_messages r = [ref_first] \<and>
     fq_from_seq ref_fetch < fr_next_seq r"
proof -
  have "GetMaxSeq ref_env ref_with_token = Inr 0" using ref_with_token_first by (simp add: only_first_def)
  from counter_log(1) [OF ref_env_laws this] have "lg_max_seq (log_at ref_env (ref_core ref_with_token)) = 0" by simp
  then have "lg_max_seq (log_at ref_env (ref_core ref_with_token)) + 1 \<noteq> 0" by simp
  from fetch_page_exact [OF ref_env_laws ref_fetch_run this] ref_fetch_run show ?thesis by (simp add: ref_fetch_def)
qed

section \<open>Channels\<close>

lemma GetChannelInfo_result:
  assumes laws: "env_laws E" and run: "GetChannelInfo E prin token i c = (Inr ch, c')"
  shows "c' = c" and "authentic (log_at E c) prin token" and "channel_in (log_at E c) i = Some ch" and "CanRead ch prin"
proof -
  from run obtain s where snap: "CreateSnapshot E (d_db c) = Inr s" and auth: "Authenticate E s prin token = Inr ()"
    and load: "LoadChannel E s i = Inr (Some ch)" and "CanRead ch prin" "c' = c"
    by (cases "fatal_error_triggered c")
      (auto simp: GetChannelInfo_def CreateLinearizedSnapshot_def bind_inv split: option.splits if_splits)
  then show "c' = c" and "CanRead ch prin" by simp_all
  from Authenticate_log [OF laws auth] LoadChannel_log(1) [OF laws load] CreateSnapshot_view [OF laws snap]
  show "authentic (log_at E c) prin token" and "channel_in (log_at E c) i = Some ch" by simp_all
qed

lemma ListChannelInfos_result:
  assumes laws: "env_laws E" and run: "ListChannelInfos E prin token filt c = (Inr chs, c')"
  shows "c' = c" and "authentic (log_at E c) prin token"
    and "\<exists>channels. chs = (if filt = CHANNEL_FILTER_ALL then [SystemChannel] else []) @ filter (listed filt prin) channels \<and>
      sorted_wrt (<) (map ch_channel_id channels) \<and>
      (\<forall>ch. ch \<in> set channels \<longleftrightarrow> lg_channels (log_at E c) (ch_channel_id ch) = Some ch)"
proof -
  from run obtain s channels where snap: "CreateSnapshot E (d_db c) = Inr s" and auth: "Authenticate E s prin token = Inr ()"
    and list: "ListChannels E s = Inr channels" and "c' = c"
    and chs: "chs = (if filt = CHANNEL_FILTER_ALL then [SystemChannel] else []) @ filter (listed filt prin) channels"
    by (cases "fatal_error_triggered c")
      (auto simp: ListChannelInfos_def CreateLinearizedSnapshot_def bind_inv)
  then show "c' = c" by simp
  have view: "log_in E s = log_at E c" using CreateSnapshot_view [OF laws snap] by simp
  from Authenticate_log [OF laws auth] show "authentic (log_at E c) prin token" by (simp add: view)
  from chs ListChannels_result [OF laws list]
  show "\<exists>channels. chs = (if filt = CHANNEL_FILTER_ALL then [SystemChannel] else []) @ filter (listed filt prin) channels \<and>
      sorted_wrt (<) (map ch_channel_id channels) \<and>
      (\<forall>ch. ch \<in> set channels \<longleftrightarrow> lg_channels (log_at E c) (ch_channel_id ch) = Some ch)" unfolding view by blast
qed

text \<open>
  C35: A channel that has been created is new, has its creator as a member and the requested members without
  repetitions, and is what a later lookup returns; after the creator has added a member, a lookup returns the
  channel with this member at the end.
\<close>

theorem channel_round_trip:
  assumes "env_laws E" and "log_ok (log_at E c)" and "CreateChannel E q now c = (Inr ch, c1)"
  shows "lg_channels (log_at E c) (ch_channel_id ch) = None \<and> ch_creator ch = Some (cc_principal q) \<and>
    set (ch_members ch) = insert (cc_principal q) (set (cc_members q)) \<and> distinct (ch_members ch) \<and>
    (\<forall>prin token r c2. GetChannelInfo E prin token (ch_channel_id ch) c1 = (Inr r, c2) \<longrightarrow> r = ch \<and> c2 = c1 \<and> CanRead ch prin) \<and>
    (\<forall>prin token target t c2 prin' token' r c3. AddMember E prin token (ch_channel_id ch) target t c1 = (Inr (), c2) \<and>
       GetChannelInfo E prin' token' (ch_channel_id ch) c2 = (Inr r, c3) \<longrightarrow>
       prin = cc_principal q \<and> r = ch\<lparr>ch_members := ch_members ch @ [target]\<rparr>)"
proof -
  let ?l = "log_at E c" and ?i = "ch_channel_id ch"
  have channels: "channels_ok ?l" using assms(2) by (simp add: log_ok_def)
  then have nonzero: "lg_next_channel_id ?l \<noteq> 0" by (simp add: channels_ok_def)
  have eff: "create_effect q now ch ?l (log_at E c1)"
    using create_channel.committed(1) [of E "(q, now)" c ch c1] assms(1,3) by simp
  then have ch: "ch = new_channel q (lg_next_channel_id ?l)" and stored: "lg_channels (log_at E c1) ?i = Some ch"
    by (simp_all add: create_effect_def record_channel_def append_message_def)
  have i: "?i = lg_next_channel_id ?l" by (simp add: ch new_channel_def)
  have fresh: "lg_channels ?l ?i = None" using channels unfolding i channels_ok_def by (metis not_None_eq order.irrefl)
  have shape: "ch_creator ch = Some (cc_principal q)" "set (ch_members ch) = insert (cc_principal q) (set (cc_members q))"
    "distinct (ch_members ch)" by (simp_all add: ch new_channel_def initial_members_def)
  have got: "\<forall>prin token r c2. GetChannelInfo E prin token ?i c1 = (Inr r, c2) \<longrightarrow> r = ch \<and> c2 = c1 \<and> CanRead ch prin"
    using GetChannelInfo_result(1,3,4) [OF assms(1)] stored i nonzero unfolding channel_in_def by (metis option.inject)
  have added: "\<forall>prin token target t c2 prin' token' r c3. AddMember E prin token ?i target t c1 = (Inr (), c2) \<and>
       GetChannelInfo E prin' token' ?i c2 = (Inr r, c3) \<longrightarrow>
       prin = cc_principal q \<and> r = ch\<lparr>ch_members := ch_members ch @ [target]\<rparr>"
  proof (intro allI impI)
    fix prin token target t c2 prin' token' r c3
    assume run: "AddMember E prin token ?i target t c1 = (Inr (), c2) \<and> GetChannelInfo E prin' token' ?i c2 = (Inr r, c3)"
    then have "add_effect prin token ?i target t (log_at E c1) (log_at E c2)"
      using add_member.committed(1) [of E "(prin, token, ?i, target, t)" c1 "()" c2] assms(1) by simp
    then have "prin = cc_principal q" "lg_channels (log_at E c2) ?i = Some (ch\<lparr>ch_members := ch_members ch @ [target]\<rparr>)"
      using stored shape(1) by (auto simp: add_effect_def owned_channel_def record_channel_def append_message_def)
    with GetChannelInfo_result(3) [OF assms(1)] run i nonzero
    show "prin = cc_principal q \<and> r = ch\<lparr>ch_members := ch_members ch @ [target]\<rparr>" unfolding channel_in_def by (metis option.inject)
  qed
  show ?thesis by (intro conjI fresh shape got added)
qed

text \<open>The counter of channels wraps: once the last number is given to a channel, the storage is refused by the
  validation of the next start.\<close>

lemma last_channel_breaks_validation:
  assumes laws: "env_laws E" and run: "CreateChannel E q now c = (Inr ch, c1)" and "lg_next_channel_id (log_at E c) = - 1"
  shows "Validate E (d_db c1) \<noteq> Inr u"
proof
  assume "Validate E (d_db c1) = Inr u"
  then obtain s v where snap: "CreateSnapshot E (d_db c1) = Inr s" and v: "GetNextChannelId E s = Inr v" "v \<noteq> 0"
    by (auto simp: Validate_def bind_inv)
  have "create_effect q now ch (log_at E c) (log_at E c1)"
    using create_channel.committed(1) [of E "(q, now)" c ch c1] laws run by simp
  with assms(3) have "lg_next_channel_id (log_at E c1) = 0" by (auto simp: create_effect_def record_channel_def append_message_def)
  with counter_log(3) [OF laws v(1)] CreateSnapshot_view [OF laws snap] v(2) show False by simp
qed

section \<open>Runs of the reference environment\<close>

definition ref_create :: create_channel_request where
  "ref_create = \<lparr>cc_principal = 7, cc_token = ref_token, cc_name = ''c'', cc_visibility = VISIBILITY_PRIVATE, cc_protocol = [],
     cc_description = [], cc_members = [8]\<rparr>"

lemma ref_new_channel: "new_channel ref_create 1 = ref_channel"
  by (simp add: new_channel_def ref_create_def ref_channel_def initial_members_def first_occurrences_def)

lemma ref_name_lengths: "length (to_string 7) = 1" "length (to_string 8) = 1"
  unfolding to_string_def by (subst dec_digits.simps, simp)+

lemma ref_create_batch:
  "\<exists>b. BuildChannelMutationBatch ref_env ref_with_token ref_channel (ChannelInitializedPayload ref_channel) 5 = Inr b"
proof -
  let ?m = "channel_message 0 1 ref_channel (ChannelInitializedPayload ref_channel) 5"
  have "GetMaxSeq ref_env ref_with_token = Inr 0" using ref_with_token_first by (simp add: only_first_def)
  moreover have "GetNextUuid ref_env ref_with_token = Inr 1"
    using ref_with_token_reads(3) by (simp add: GetNextUuid_def GetRequiredUint64_def ref_lookup_def)
  moreover have "length (ChannelInitializedPayload ref_channel) < 2 ^ 64"
    by (simp add: ChannelInitializedPayload_def ref_channel_def JsonString_def JsonChar_def visibility_name_def
        creator_value_def ref_name_lengths)
  then have "message_fits ?m"
    by (simp add: message_fits_def fits_def channel_message_def empty_message_def)
  ultimately show ?thesis
    by (simp add: BuildChannelMutationBatch_def Let_def PutChannel_def PutMessage_def PutUsedUuid_def SetMaxSeq_def SetNextUuid_def
        channel_message_def)
qed

lemma ref_create_run:
  "\<exists>c c1. reachable ref_env (c, []) \<and> \<not> fatal_error_triggered c \<and> d_db c = ref_with_token \<and>
     CreateChannel ref_env ref_create 5 c = (Inr ref_channel, c1)"
proof -
  obtain c where c: "reachable ref_env (c, [])" "\<not> fatal_error_triggered c" "d_db c = ref_with_token"
    using ref_reach_token by blast
  obtain b where b: "BuildChannelMutationBatch ref_env ref_with_token ref_channel (ChannelInitializedPayload ref_channel) 5 = Inr b"
    using ref_create_batch by blast
  have next_id: "GetNextChannelId ref_env ref_with_token = Inr 1"
    using ref_with_token_reads(4) by (simp add: GetNextChannelId_def GetRequiredUint64_def ref_lookup_def)
  have valid: "\<not> invalid_channel_parameters ref_create" "ValidateVisibility (cc_visibility ref_create) = Inr ()"
    "\<not> length (initial_members ref_create) > kMaxChannelMembers" "cc_principal ref_create = 7" "cc_token ref_create = ref_token"
    by (simp_all add: invalid_channel_parameters_def ref_create_def kMaxChannelMembers_def ValidateVisibility_def
        initial_members_def first_occurrences_def)
  obtain c1 where run: "CreateChannel ref_env ref_create 5 c = (Inr ref_channel, c1)"
    using c(2,3) ref_with_token_reads(1) next_id b valid
    by (simp add: CreateChannel_def ref_new_channel SetNextChannelId_def)
  with c show ?thesis by blast
qed

theorem channel_round_trip_witness:
  "\<exists>c c1. CreateChannel ref_env ref_create 5 c = (Inr ref_channel, c1) \<and> lg_channels (log_at ref_env c) 1 = None \<and>
     ch_creator ref_channel = Some 7 \<and> set (ch_members ref_channel) = {7, 8}"
proof -
  obtain c c1 where c: "reachable ref_env (c, [])" and run: "CreateChannel ref_env ref_create 5 c = (Inr ref_channel, c1)"
    using ref_create_run by blast
  have ok: "log_ok (log_at ref_env c)" using reachable_ok [OF ref_env_laws c] by (simp add: server_ok_def)
  have "ch_channel_id ref_channel = 1" by (simp add: ref_channel_def)
  with channel_round_trip [OF ref_env_laws ok run]
  have "lg_channels (log_at ref_env c) 1 = None" "ch_creator ref_channel = Some 7" "set (ch_members ref_channel) = {7, 8}"
    by (auto simp: ref_create_def)
  with run show ?thesis by blast
qed

end
