(* ===== verification/Availability.thy ===== *)
theory Availability
  imports Stored_Events Object_Serving Service_Properties
begin

text \<open>
  What the server must grant. The safety properties say that an operation that succeeds was allowed; here the
  converse: in every reachable state in which the database answers, reads and publications succeed exactly when the
  abstract log allows them. A read is never refused because of what the server itself has stored.
\<close>

section \<open>A state that can serve\<close>

definition healthy :: "('db, 'snap, 'os) env \<Rightarrow> ('db, 'snap, 'os) core \<Rightarrow> bool" where
  "healthy E c \<longleftrightarrow> \<not> fatal_error_triggered c \<and> (\<exists>s. CreateSnapshot E (d_db c) = Inr s \<and> answers E s)"

lemma healthyE:
  assumes "env_laws E" and "reachable E (c, w)" and "healthy E c"
  obtains s where "\<not> fatal_error_triggered c" "CreateSnapshot E (d_db c) = Inr s" "readable E s" "log_in E s = log_at E c"
proof -
  from assms(3) obtain s where s: "\<not> fatal_error_triggered c" "CreateSnapshot E (d_db c) = Inr s" "answers E s"
    by (auto simp: healthy_def)
  from that [OF s(1,2)] readable_snapshot [OF assms(1,2) s(2,3)] show thesis by blast
qed

text \<open>The database takes a batch and no fault is injected.\<close>

definition accepts_writes :: "('db, 'snap, 'os) env \<Rightarrow> 'db \<Rightarrow> bool" where
  "accepts_writes E db \<longleftrightarrow> InjectStorageFault (fault_injector E) kBeforeCommit = Inr () \<and>
     InjectStorageFault (fault_injector E) kAfterCommit = Inr () \<and> (\<forall>b. rocks_ok (fst (db_Write (rocks E) db b)))"

lemma CommitBatch_accepted:
  assumes "accepts_writes E (d_db c)"
  shows "\<exists>c'. CommitBatch E b c = (Inr (), c')"
proof -
  obtain st db' where w: "db_Write (rocks E) (d_db c) b = (st, db')" by fastforce
  with assms have "rocks_ok st" by (auto simp: accepts_writes_def dest!: spec [of _ b])
  with w assms show ?thesis by (simp add: CommitBatch_def Commit_def accepts_writes_def)
qed

section \<open>Checks that read the storage\<close>

lemma Authenticate_answered: "readable E s \<Longrightarrow> Authenticate E s p t = Inr () \<longleftrightarrow> authentic (log_in E s) p t"
  by (auto simp: Authenticate_def authentic_def stored_reads)

lemma valid_object_token: "valid_object i ob \<Longrightarrow> so_object_token ob \<noteq> [] \<and> i \<noteq> 0"
  by (auto simp: valid_object_def IsBase64UrlToken_def kObjectTokenEncodedBytes_def)

lemma LoadAuthorizedObject_answered:
  assumes "readable E s"
  shows "LoadAuthorizedObject E s i t c = (Inr ob, c') \<longleftrightarrow> capability (log_in E s) i t ob \<and> c' = c"
proof -
  have "posix_laws (posix_api E)" and valid: "records_valid (log_in E s)"
    using assms by (simp_all add: readable_def env_laws_def sound_def)
  moreover have "t \<noteq> [] \<and> i \<noteq> 0" if "lg_objects (log_in E s) i = Some ob'" "so_object_token ob' = t" for ob'
    using valid that valid_object_token [of i ob'] by (auto simp: records_valid_def)
  ultimately show ?thesis
    by (auto simp: LoadAuthorizedObject_def liftClassified_def committed_read.read [OF assms] capability_def
        records_valid_def bind_inv split: option.splits if_splits)
qed

lemma ValidateReadableChannels_answered:
  assumes "readable E s"
  shows "ValidateReadableChannels E s p channels = Inr () \<longleftrightarrow>
    (\<forall>i \<in> set channels. \<exists>ch. channel_in (log_in E s) i = Some ch \<and> CanRead ch p)"
proof
  assume "ValidateReadableChannels E s p channels = Inr ()"
  then show "\<forall>i \<in> set channels. \<exists>ch. channel_in (log_in E s) i = Some ch \<and> CanRead ch p"
    using ValidateReadableChannels_loop_log [of E s p channels "{}"] assms
    by (simp add: ValidateReadableChannels_def readable_def)
next
  have "ValidateReadableChannels_loop E s p channels validated = Inr ()"
    if "\<forall>i \<in> set channels. \<exists>ch. channel_in (log_in E s) i = Some ch \<and> CanRead ch p" for validated
    using that by (induction channels arbitrary: validated) (auto simp: loaded_channel_read.read [OF assms])
  then show "\<forall>i \<in> set channels. \<exists>ch. channel_in (log_in E s) i = Some ch \<and> CanRead ch p \<Longrightarrow>
    ValidateReadableChannels E s p channels = Inr ()" by (simp add: ValidateReadableChannels_def)
qed

lemma ValidateAvailableUuid_answered:
  "readable E s \<Longrightarrow> ValidateAvailableUuid E s u = Inr () \<longleftrightarrow>
   u \<noteq> 0 \<and> u < lg_next_uuid (log_in E s) \<and> lg_used (log_in E s) u = None"
  by (auto simp: ValidateAvailableUuid_def stored_reads not_le)

section \<open>Pages\<close>

lemma scan_spec_succeeds:
  assumes "\<And>v m. P m \<Longrightarrow> \<exists>act v'. visitor v m = (Inr act, v')"
  shows "(\<And>i. i < n \<Longrightarrow> \<exists>m. f (seq + of_nat i) = Some m \<and> P m) \<Longrightarrow> \<exists>r v'. scan_spec f visitor n seq v = (Inr r, v')"
proof (induction n arbitrary: seq v)
  case (Suc n)
  from Suc.prems [of 0] obtain m where m: "f seq = Some m" "P m" by auto
  from assms [OF m(2), of v] obtain act v' where vis: "visitor v m = (Inr act, v')" by blast
  have "\<exists>m. f (seq + 1 + of_nat i) = Some m \<and> P m" if "i < n" for i
    using Suc.prems [of "Suc i"] that by (simp add: add.assoc)
  from Suc.IH [OF this] obtain r w where "scan_spec f visitor n (seq + 1) v' = (Inr r, w)" by blast
  with m vis show ?case by (cases act) auto
qed simp

lemma page_add_succeeds: "\<exists>act v'. page_add E limit v m = (Inr act, v')"
  by (simp add: page_add_cases)

text \<open>Every message belongs to a channel that can be loaded.\<close>

lemma visitors_succeed:
  assumes "readable E s" and "channel_in (log_in E s) (msg_channel_id m) \<noteq> None"
  shows "\<exists>act v'. fetch_visitor E s p limit only channels v m = (Inr act, v')"
    and "\<exists>act v'. list_visitor E s limit w m = (Inr act, v')"
proof -
  from assms(2) obtain ch where ch: "channel_in (log_in E s) (msg_channel_id m) = Some ch" by auto
  have "\<exists>b. channel_readable E s p f (msg_channel_id m) = Inr b" for f
    by (auto simp: channel_readable_def loaded_channel_read.read [OF assms(1)] ch split: option.split)
  then obtain b where b: "channel_readable E s p (pg_readable_channels v) (msg_channel_id m) = Inr b" by blast
  show "\<exists>act v'. fetch_visitor E s p limit only channels v m = (Inr act, v')"
    by (simp add: fetch_visitor_def b Let_def page_add_succeeds)
  show "\<exists>act v'. list_visitor E s limit w m = (Inr act, v')"
    by (simp add: list_visitor_def loaded_channel_read.read [OF assms(1)] ch page_add_succeeds)
qed

lemma scanned_messages:
  assumes ok: "log_ok l" and last: "lg_max_seq l + 1 \<noteq> 0" and i: "i < records_left (lg_max_seq l) limit 0 from_seq"
  shows "\<exists>m. lg_messages l (from_seq + of_nat i) = Some m \<and> channel_in l (msg_channel_id m) \<noteq> None"
proof -
  have "unat from_seq + i \<le> unat (lg_max_seq l)" using i unfolding records_left_def by linarith
  moreover have "unat (lg_max_seq l) < 2 ^ 64" using unsigned_less [where ?'a = nat, of "lg_max_seq l"] by simp
  ultimately have "from_seq + of_nat i \<le> lg_max_seq l"
    using unat_add_no_wrap [of from_seq "of_nat i"] by (simp add: word_le_nat_alt unat_of_nat_u64)
  with ok have "from_seq + of_nat i \<in> dom (lg_messages l)" by (auto simp: log_ok_def messages_ok_def)
  then obtain m where m: "lg_messages l (from_seq + of_nat i) = Some m" by blast
  with ok have "msg_channel_id m = 0 \<or> msg_channel_id m \<in> dom (lg_channels l)"
    unfolding log_ok_def messages_ok_def by metis
  with m show ?thesis by (auto simp: channel_in_def)
qed

lemma pages_answered:
  assumes json: "json_laws (proto_lib E)" and "readable E s" and "events_ok (log_in E s)" and "utf8_channels (log_in E s)"
    and last: "lg_max_seq (log_in E s) + 1 \<noteq> 0"
  shows "\<exists>r. FetchVisible E s p from_seq limit only channels = Inr r" and "\<exists>r. ListAllMessages E s from_seq limit = Inr r"
proof -
  let ?l = "log_in E s"
  have ok: "log_ok ?l" using assms(2) by (simp add: readable_def sound_def)
  note scan = ScanMessages_answered [OF assms] and max_seq = max_seq_read.read [OF assms(2)]
  have "\<exists>r v'. scan_spec (lg_messages ?l) (fetch_visitor E s p limit only channels)
      (records_left (lg_max_seq ?l) (max_scan_records E) 0 from_seq) from_seq v = (Inr r, v')" for v
    by (rule scan_spec_succeeds [of "\<lambda>m. channel_in ?l (msg_channel_id m) \<noteq> None"])
      (use visitors_succeed(1) [OF assms(2)] scanned_messages [OF ok last] in blast)+
  then obtain r v' where "scan_spec (lg_messages ?l) (fetch_visitor E s p limit only channels)
      (records_left (lg_max_seq ?l) (max_scan_records E) 0 from_seq) from_seq
      \<lparr>pg_messages = [], pg_response_bytes = 0,
        pg_readable_channels = (\<lambda>i. if i \<in> set channels then Some True else None)\<rparr> = (Inr r, v')" by blast
  then show "\<exists>r. FetchVisible E s p from_seq limit only channels = Inr r"
    by (simp add: FetchVisible_def max_seq scan Let_def)
  have "\<exists>r v'. scan_spec (lg_messages ?l) (list_visitor E s limit)
      (records_left (lg_max_seq ?l) (max_scan_records E) 0 from_seq) from_seq v = (Inr r, v')" for v
    by (rule scan_spec_succeeds [of "\<lambda>m. channel_in ?l (msg_channel_id m) \<noteq> None"])
      (use visitors_succeed(2) [OF assms(2)] scanned_messages [OF ok last] in blast)+
  then obtain r v' where "scan_spec (lg_messages ?l) (list_visitor E s limit)
      (records_left (lg_max_seq ?l) (max_scan_records E) 0 from_seq) from_seq
      \<lparr>pg_messages = [], pg_response_bytes = 0, pg_known_channels = {}\<rparr> = (Inr r, v')" by blast
  then show "\<exists>r. ListAllMessages E s from_seq limit = Inr r"
    by (simp add: ListAllMessages_def max_seq scan)
qed

section \<open>Publishing\<close>

lemma BuildPublishBatch_answered:
  assumes "readable E s" and allowed: "publish_allowed E q (log_in E s)"
    and put: "PutMessage (proto_lib E) [] (request_message q now) = Inr b"
  shows "\<exists>b'. BuildPublishBatch E s (pr_principal q) (pr_channel_id q) (pr_seq q) (pr_uuid q) (pr_recipients q)
    (pr_payload q) (pr_object_keys q) now c = (Inr b', c)"
proof -
  let ?l = "log_in E s" and ?ids = "first_occurrences (map ok_object_id (pr_object_keys q))"
  have memcmp: "posix_laws (posix_api E)" using assms(1) by (simp add: readable_def env_laws_def)
  from allowed obtain ch where ch: "pr_channel_id q \<noteq> 0" "lg_channels ?l (pr_channel_id q) = Some ch"
    "CanWrite ch (pr_principal q)" "set (pr_recipients q) \<subseteq> set (ch_members ch)"
    by (auto simp: publish_allowed_def channel_accepts_def split: option.splits)
  have objects: "list_all (capability_holds E ?ids (map (lg_objects ?l) ?ids)) (pr_object_keys q)"
    using allowed memcmp
    by (fastforce simp: publish_allowed_def list_all_iff capability_holds_def map_of_zip_map)
  have "ValidateRecipients ch (pr_recipients q) = Inr ()" using ch(4) by (simp add: ValidateRecipients_Inr)
  moreover have "LoadChannel E s (pr_channel_id q) = Inr (Some ch)"
    using ch(1,2) by (simp add: loaded_channel_read.read [OF assms(1)] channel_in_def)
  moreover have "pr_uuid q \<noteq> 0" "pr_seq q \<noteq> 0" using allowed unfolding publish_allowed_def by blast+
  ultimately show ?thesis
    using ch(1,3) objects put
    by (simp add: BuildPublishBatch_def Let_def liftClassified_def objects_read.read [OF assms(1)] request_message_def
        PutUsedUuid_def SetMaxSeq_def)
qed

lemma Publish_accepted:
  assumes laws: "env_laws E" and "reachable E (c, w)" and "healthy E c" and writes: "accepts_writes E (d_db c)"
    and allowed: "publish_allowed E q (log_at E c)"
    and put: "PutMessage (proto_lib E) [] (request_message q now) = Inr b"
    and rpc: "CheckRpcActive rpc1 = Inr ()" "CheckRpcActive rpc2 = Inr ()"
  shows "\<exists>c'. Publish E q now rpc1 rpc2 c = (Inr (), c')"
proof -
  from healthyE [OF assms(1-3)] obtain s where s: "\<not> fatal_error_triggered c" "CreateSnapshot E (d_db c) = Inr s"
    and r: "readable E s" and l: "log_in E s = log_at E c" by blast
  have checks: "principals_nonzero (pr_principal q) (pr_recipients q) = Inr ()"
    "Authenticate E s (pr_principal q) (pr_token q) = Inr ()" "ValidateAvailableUuid E s (pr_uuid q) = Inr ()"
    "ValidatePayloadSize E (pr_payload q) = Inr ()" "GetMaxSeq E s = Inr (lg_max_seq (log_at E c))"
    using allowed by (simp_all add: publish_allowed_def principals_nonzero_def Authenticate_answered [OF r]
        ValidateAvailableUuid_answered [OF r] ValidatePayloadSize_Inr max_seq_read.read [OF r] l authentic_def)
  have "ok_object_token k \<noteq> []" if "k \<in> set (pr_object_keys q)" for k
    using allowed that r l valid_object_token
    by (fastforce simp: publish_allowed_def list_all_iff readable_def sound_def records_valid_def)
  then have shape: "ValidateObjectKeysShape (pr_object_keys q) = Inr ()"
    using allowed by (auto simp: ValidateObjectKeysShape_Inr publish_allowed_def list_all_iff)
  obtain b' where batch: "BuildPublishBatch E s (pr_principal q) (pr_channel_id q) (pr_seq q) (pr_uuid q) (pr_recipients q)
      (pr_payload q) (pr_object_keys q) now c = (Inr b', c)"
    using BuildPublishBatch_answered [OF r _ put] allowed l by auto
  obtain c' where "CommitBatch E b' c = (Inr (), c')" using CommitBatch_accepted [OF writes] by blast
  moreover have "pr_seq q = lg_max_seq (log_at E c) + 1" using allowed by (simp add: publish_allowed_def)
  ultimately show ?thesis using s checks shape batch rpc by (simp add: Publish_def)
qed

section \<open>Objects\<close>

lemma ReadObject_lookup:
  assumes "env_laws E" and "reachable E (c, w)" and "healthy E c"
    and cap: "capability (log_at E c) i token ob" and range: "offset \<le> so_nbytes ob" and "n \<noteq> 0"
  shows "ReadObject E i token offset n c = classifyO E (ReadObjectFile E ob offset n) c"
proof -
  from healthyE [OF assms(1-3)] obtain s where s: "\<not> fatal_error_triggered c" "CreateSnapshot E (d_db c) = Inr s"
    and r: "readable E s" and l: "log_in E s = log_at E c" by blast
  have "LoadAuthorizedObject E s i token c = (Inr ob, c)"
    using LoadAuthorizedObject_answered [OF r, of i token c ob c] cap l by simp
  with s assms(6) range show ?thesis
    by (simp add: ReadObject_def CreateLinearizedSnapshot_def bindO_def totalO_def leD)
qed

lemma ReadObjectFile_served:
  assumes laws: "env_laws E" and reach: "reachable E (c, w)" and avail: "\<not> fatal_error_triggered c"
    and cap: "capability (log_at E c) i token ob" and range: "offset \<le> so_nbytes ob" and n: "n \<noteq> 0"
  shows "\<exists>r c' d. classifyO E (ReadObjectFile E ob offset n) c = Some (r, c') \<and> \<not> fatal_error_triggered c' \<and>
    os_dir (posix_api E) (d_os c) (FinalName i) = Some (RegularFile d) \<and> length d = unat (so_nbytes ob) \<and>
    (r = Inr (take (unat n) (drop (unat offset) d)) \<or> (\<exists>e. r = Inl e \<and> \<not> is_fatal e))"
proof -
  note posix = env_lawsD(3) [OF laws]
  have ob: "lg_objects (log_at E c) i = Some ob" "so_object_id ob = i" "i \<noteq> 0" "so_nbytes ob \<noteq> 0"
    "unat (so_nbytes ob) \<le> kMaxObjectBytes" using cap by (auto simp: capability_def valid_object_def)
  have "stored_ok (log_at E c) (os_dir (posix_api E) (d_os c))"
    using reachable_ok [OF laws reach] by (simp add: server_ok_def objects_ok_def)
  with ob(1) obtain d where d: "os_dir (posix_api E) (d_os c) (FinalName i) = Some (RegularFile d)" "length d = unat (so_nbytes ob)"
    unfolding stored_ok_def by blast
  obtain r os' where run: "ReadRange (posix_api E) i (so_nbytes ob) offset n (d_os c) = Some (r, os')"
    using ReadRange_returns [OF posix_lawsD(8) [OF posix], of i "so_nbytes ob" offset n "d_os c"] by auto
  show ?thesis
  proof (cases r)
    case (Inl e)
    with run ReadRange_served [OF posix d ob(3,4,5) n range] have "\<not> is_fatal e" by blast
    with Inl run avail d show ?thesis
      by (simp add: classifyO_def ReadObjectFile_def on_os_pop_def failClassified_def ob(2))
  next
    case (Inr bs)
    with run ReadRange_data [OF posix] d have "bs = take (unat n) (drop (unat offset) d)" by fastforce
    with Inr run avail d show ?thesis by (simp add: classifyO_def ReadObjectFile_def on_os_pop_def ob(2))
  qed
qed

section \<open>Properties\<close>

text \<open>
  C8: In every reachable state in which the database answers, the lookups are decided by the abstract log alone: the
  last sequence number is given to every authenticated caller, a uuid is found exactly when it is used, a channel
  exactly when it exists and may be read, the listing of channels is given to every authenticated caller with a valid
  filter, and the metadata of an object exactly to the holder of its token.
\<close>

theorem lookups_decided:
  assumes "env_laws E" and "reachable E (c, w)" and "healthy E c"
  shows "(GetStatus E p t c = (Inr v, c') \<longleftrightarrow> authentic (log_at E c) p t \<and> v = lg_max_seq (log_at E c) \<and> c' = c) \<and>
    (GetSeqByUuid E u c = (Inr q, c') \<longleftrightarrow> lg_used (log_at E c) u = Some q \<and> c' = c) \<and>
    (GetChannelInfo E p t i c = (Inr ch, c') \<longleftrightarrow>
       authentic (log_at E c) p t \<and> channel_in (log_at E c) i = Some ch \<and> CanRead ch p \<and> c' = c) \<and>
    ((\<exists>chs. ListChannelInfos E p t filt c = (Inr chs, c)) \<longleftrightarrow> authentic (log_at E c) p t \<and>
       filt \<in> {CHANNEL_FILTER_ALL, CHANNEL_FILTER_JOINED, CHANNEL_FILTER_OWNED}) \<and>
    (GetObjectMetadata E j token c = (Inr md, c') \<longleftrightarrow>
       (\<exists>ob. capability (log_at E c) j token ob \<and> md = metadata_of ob \<and> c' = c))"
proof -
  from healthyE [OF assms] obtain s where s: "\<not> fatal_error_triggered c" "CreateSnapshot E (d_db c) = Inr s"
    and r: "readable E s" and l: "log_in E s = log_at E c" by blast
  obtain chs where chs: "ListChannels E s = Inr chs" using ListChannels_answered [OF r] by blast
  note auth = Authenticate_answered [OF r, unfolded l] and reads = stored_reads [OF r, unfolded l]
  have "GetStatus E p t c = (Inr v, c') \<longleftrightarrow> authentic (log_at E c) p t \<and> v = lg_max_seq (log_at E c) \<and> c' = c"
    using s by (auto simp: GetStatus_def CreateLinearizedSnapshot_def bind_inv auth reads)
  moreover have "GetSeqByUuid E u c = (Inr q, c') \<longleftrightarrow> lg_used (log_at E c) u = Some q \<and> c' = c"
    using s by (auto simp: GetSeqByUuid_def CreateLinearizedSnapshot_def bind_inv reads split: option.splits)
  moreover have "GetChannelInfo E p t i c = (Inr ch, c') \<longleftrightarrow>
      authentic (log_at E c) p t \<and> channel_in (log_at E c) i = Some ch \<and> CanRead ch p \<and> c' = c"
    using s by (auto simp: GetChannelInfo_def CreateLinearizedSnapshot_def bind_inv auth reads split: option.splits if_splits)
  moreover have "(\<exists>chs. ListChannelInfos E p t filt c = (Inr chs, c)) \<longleftrightarrow> authentic (log_at E c) p t \<and>
      filt \<in> {CHANNEL_FILTER_ALL, CHANNEL_FILTER_JOINED, CHANNEL_FILTER_OWNED}"
    using s chs by (auto simp: ListChannelInfos_def CreateLinearizedSnapshot_def bind_inv auth ValidateFilter_def)
  moreover have "GetObjectMetadata E j token c = (Inr md, c') \<longleftrightarrow>
      (\<exists>ob. capability (log_at E c) j token ob \<and> md = metadata_of ob \<and> c' = c)"
    using s LoadAuthorizedObject_answered [OF r, unfolded l]
    by (auto simp: GetObjectMetadata_def CreateLinearizedSnapshot_def bind_inv)
  ultimately show ?thesis by blast
qed

text \<open>
  C6: In every reachable state in which the database answers and takes writes, a message that can be serialized is
  published if and only if the log allows it: nothing else can refuse a call that is still active.
\<close>

theorem publish_decided:
  assumes "env_laws E" and "reachable E (c, w)" and "healthy E c" and "accepts_writes E (d_db c)"
    and "message_SerializeToString (proto_lib E) (request_message q now) \<noteq> None"
    and "CheckRpcActive rpc1 = Inr ()" and "CheckRpcActive rpc2 = Inr ()"
  shows "(\<exists>c'. Publish E q now rpc1 rpc2 c = (Inr (), c')) \<longleftrightarrow> publish_allowed E q (log_at E c)"
proof
  assume "\<exists>c'. Publish E q now rpc1 rpc2 c = (Inr (), c')"
  then show "publish_allowed E q (log_at E c)"
    using publish.committed(1) [of E "(q, now, rpc1, rpc2)"] assms(1) by (auto simp: publish_effect_def)
next
  assume "publish_allowed E q (log_at E c)"
  moreover from assms(5) obtain b where "PutMessage (proto_lib E) [] (request_message q now) = Inr b"
    by (auto simp: PutMessage_def)
  ultimately show "\<exists>c'. Publish E q now rpc1 rpc2 c = (Inr (), c')" by (intro Publish_accepted [OF assms(1-4) _ _ assms(6,7)])
qed

text \<open>
  C7: In every reachable state in which the database answers, and while sequence numbers remain, a page of messages is
  given to every caller who is authenticated, asks for a valid number of messages and names only channels it may
  read: no message the server has stored is rejected as corrupt.
\<close>

theorem pages_available:
  assumes "env_laws E" and "json_laws (proto_lib E)" and "reachable E (c, w)" and "healthy E c"
    and "utf8_channels (log_at E c)" and "lg_max_seq (log_at E c) + 1 \<noteq> 0"
  shows "((\<exists>r. Fetch E q c = (Inr r, c)) \<longleftrightarrow> 0 < fq_limit q \<and> fq_limit q \<le> 1000 \<and>
      authentic (log_at E c) (fq_principal q) (fq_token q) \<and>
      (\<forall>i \<in> set (fq_channels q). \<exists>ch. channel_in (log_at E c) i = Some ch \<and> CanRead ch (fq_principal q))) \<and>
    ((\<exists>r. ListMessages E from_seq limit c = (Inr r, c)) \<longleftrightarrow> 0 < limit \<and> limit \<le> 1000)"
proof -
  from healthyE [OF assms(1,3,4)] obtain s where s: "\<not> fatal_error_triggered c" "CreateSnapshot E (d_db c) = Inr s"
    and r: "readable E s" and l: "log_in E s = log_at E c" by blast
  have "events_ok (log_in E s)" using reachable_events [OF assms(1,3)] l by simp
  note pages = pages_answered [OF assms(2) r this, unfolded l, OF assms(5,6)]
  have lim: "check_limit n = Inr () \<longleftrightarrow> 0 < n \<and> n \<le> 1000" for n
    by (auto simp: check_limit_def word_neq_0_conv)
  have "(\<exists>r. Fetch E q c = (Inr r, c)) \<longleftrightarrow> 0 < fq_limit q \<and> fq_limit q \<le> 1000 \<and>
      authentic (log_at E c) (fq_principal q) (fq_token q) \<and>
      (\<forall>i \<in> set (fq_channels q). \<exists>ch. channel_in (log_at E c) i = Some ch \<and> CanRead ch (fq_principal q))"
    using s pages(1) by (auto simp: Fetch_def CreateLinearizedSnapshot_def bind_inv lim Authenticate_answered [OF r]
        ValidateReadableChannels_answered [OF r] l)
  moreover have "(\<exists>r. ListMessages E from_seq limit c = (Inr r, c)) \<longleftrightarrow> 0 < limit \<and> limit \<le> 1000"
    using s pages(2) by (auto simp: ListMessages_def CreateLinearizedSnapshot_def bind_inv lim)
  ultimately show ?thesis by blast
qed

text \<open>
  C9: In every reachable state in which the database answers, a read of a committed object by the holder of its token,
  within its size, returns the requested range of its file or an error of the operating system that is not fatal: the
  object is never reported as lost, and the server keeps running.
\<close>

theorem committed_object_served:
  assumes "env_laws E" and "reachable E (c, w)" and "healthy E c" and "capability (log_at E c) i token ob"
    and "offset \<le> so_nbytes ob" and "n \<noteq> 0"
  shows "\<exists>r c' d. ReadObject E i token offset n c = Some (r, c') \<and> \<not> fatal_error_triggered c' \<and>
    os_dir (posix_api E) (d_os c) (FinalName i) = Some (RegularFile d) \<and> length d = unat (so_nbytes ob) \<and>
    (r = Inr (take (unat n) (drop (unat offset) d)) \<or> (\<exists>e. r = Inl e \<and> \<not> is_fatal e))"
  using ReadObjectFile_served [OF assms(1,2) _ assms(4-6)] assms(3)
  unfolding ReadObject_lookup [OF assms] healthy_def by blast

section \<open>A run of the reference environment\<close>

lemma ref_answers: "answers ref_env s"
  by (auto simp: answers_def answered_def ref_lookup_def list_all_iff split: option.split)

lemma ref_healthy: "\<not> fatal_error_triggered c \<Longrightarrow> healthy ref_env c"
  by (simp add: healthy_def ref_answers)

lemma ref_accepts_writes: "accepts_writes ref_env db"
  by (simp add: accepts_writes_def InjectStorageFault_def)

text \<open>A channel has been created and a uuid allocated.\<close>

definition ref_ready :: "event_log \<Rightarrow> bool" where
  "ref_ready l \<longleftrightarrow> authentic l 7 ref_token \<and> lg_channels l = [1 \<mapsto> ref_channel] \<and> lg_max_seq l = 1 \<and> lg_next_uuid l = 3 \<and>
     lg_used l 2 = None"

lemma ref_with_token_log:
  assumes "reachable ref_env (c, [])" and "d_db c = ref_with_token"
  shows "lg_channels (log_at ref_env c) = Map.empty" and "lg_max_seq (log_at ref_env c) = 0"
    and "lg_next_uuid (log_at ref_env c) = 1" and "lg_next_channel_id (log_at ref_env c) = 1"
    and "authentic (log_at ref_env c) 7 ref_token" and "roomy (log_at ref_env c)"
proof -
  show "lg_next_uuid (log_at ref_env c) = 1" and id: "lg_next_channel_id (log_at ref_env c) = 1"
    using ref_with_token_reads(3,4) assms(2) by (simp_all add: log_of_def counter_at_def be64.dec_enc)
  have "log_ok (log_at ref_env c)" using reachable_ok [OF ref_env_laws assms(1)] by (simp add: server_ok_def)
  then have "\<forall>i ch. lg_channels (log_at ref_env c) i = Some ch \<longrightarrow> i \<noteq> 0 \<and> i < 1"
    unfolding log_ok_def channels_ok_def id by blast
  then show "lg_channels (log_at ref_env c) = Map.empty" by (auto simp: fun_eq_iff word_less_1 intro!: not_Some_eq [THEN iffD1])
  show "lg_max_seq (log_at ref_env c) = 0"
    using counter_log(1) [OF ref_env_laws, of ref_with_token 0] ref_with_token_first assms(2) by (simp add: only_first_def)
  show "authentic (log_at ref_env c) 7 ref_token"
    using Authenticate_log [OF ref_env_laws ref_with_token_reads(1)] assms(2) by simp
  show "roomy (log_at ref_env c)" using ref_roomy [OF ref_with_token_reads(3,4,5)] assms(2) by simp
qed

lemma ref_reach_created:
  "\<exists>c. reachable ref_env (c, []) \<and> \<not> fatal_error_triggered c \<and> roomy (log_at ref_env c) \<and>
     authentic (log_at ref_env c) 7 ref_token \<and> lg_channels (log_at ref_env c) = [1 \<mapsto> ref_channel] \<and>
     lg_max_seq (log_at ref_env c) = 1 \<and> lg_next_uuid (log_at ref_env c) = 2"
proof -
  obtain c c1 where c: "reachable ref_env (c, [])" "\<not> fatal_error_triggered c" "d_db c = ref_with_token"
    and run: "CreateChannel ref_env ref_create 5 c = (Inr ref_channel, c1)" using ref_create_run by blast
  note l0 = ref_with_token_log [OF c(1,3)]
  have eff: "create_effect ref_create 5 ref_channel (log_at ref_env c) (log_at ref_env c1)"
    using create_channel.committed(1) [OF ref_env_laws, of "(ref_create, 5)"] run by simp
  have c1: "\<not> fatal_error_triggered c1" using create_channel.committed(4) [OF ref_env_laws, of "(ref_create, 5)"] run by simp
  have reach1: "reachable ref_env (c1, [])"
    by (rule reach_step [OF c(1) _ step_operation [OF op_create [OF run]]]) (simp add: l0(6) del: ref_env_simps)
  have l1: "log_at ref_env c1 = (record_channel ref_channel (ChannelInitializedPayload ref_channel) 5 (log_at ref_env c))
      \<lparr>lg_next_channel_id := lg_next_channel_id (log_at ref_env c) + 1\<rparr>" using eff by (simp only: create_effect_def)
  have f1: "lg_channels (log_at ref_env c1) = [1 \<mapsto> ref_channel]" "lg_max_seq (log_at ref_env c1) = 1"
    "lg_next_uuid (log_at ref_env c1) = 2" "lg_next_channel_id (log_at ref_env c1) = 2"
    "lg_next_object_id (log_at ref_env c1) = lg_next_object_id (log_at ref_env c)"
    "lg_tokens (log_at ref_env c1) = lg_tokens (log_at ref_env c)"
    unfolding l1 using l0(1-4) by (simp_all add: record_channel_def append_message_def channel_message_def ref_channel_def
        del: ref_env_simps)
  have "roomy (log_at ref_env c1)" using l0(6) f1(3-5) by (simp add: roomy_def kMaxUuidBatch_def del: ref_env_simps)
  moreover have "authentic (log_at ref_env c1) 7 ref_token" using l0(5) f1(6) by (simp add: authentic_def del: ref_env_simps)
  ultimately show ?thesis using reach1 c1 f1(1-3) by blast
qed

lemma fresh_uuid: "log_ok l \<Longrightarrow> lg_used l (lg_next_uuid l) = None"
  by (auto simp: log_ok_def uuids_ok_def)

lemma ref_reach_ready:
  "\<exists>c. reachable ref_env (c, []) \<and> \<not> fatal_error_triggered c \<and> ref_ready (log_at ref_env c) \<and> roomy (log_at ref_env c)"
proof -
  obtain c where c: "reachable ref_env (c, [])" "\<not> fatal_error_triggered c" and room: "roomy (log_at ref_env c)"
    and l: "authentic (log_at ref_env c) 7 ref_token" "lg_channels (log_at ref_env c) = [1 \<mapsto> ref_channel]"
     "lg_max_seq (log_at ref_env c) = 1" "lg_next_uuid (log_at ref_env c) = 2" using ref_reach_created by blast
  have "GetNextUuid ref_env (d_db c) = Inr 2"
    using next_uuid_read.read_in_state [OF ref_env_laws c(1) ref_CreateSnapshot ref_answers] l(4) by simp
  with c(2) obtain c2 where alloc: "AllocateUuids ref_env 1 c = (Inr [2], c2)"
    by (simp add: AllocateUuids_def kMaxUuidBatch_def SetNextUuid_def)
  have l2: "log_at ref_env c2 = (log_at ref_env c)\<lparr>lg_next_uuid := 3\<rparr>" "\<not> fatal_error_triggered c2"
    using allocate.committed(1,4) [OF ref_env_laws alloc] l(4) by (simp_all add: allocate_effect_def del: ref_env_simps)
  have "reachable ref_env (c2, [])"
    by (rule reach_step [OF c(1) _ step_operation [OF op_allocate [OF alloc]]]) (simp add: room del: ref_env_simps)
  moreover have "log_ok (log_at ref_env c)" using reachable_ok [OF ref_env_laws c(1)] by (simp add: server_ok_def)
  from fresh_uuid [OF this, unfolded l(4)] have "ref_ready (log_at ref_env c2)"
    unfolding ref_ready_def l2(1) using l by (simp add: authentic_def del: ref_env_simps)
  moreover have "roomy (log_at ref_env c2)"
    unfolding l2(1) using room l(4) by (simp add: roomy_def kMaxUuidBatch_def del: ref_env_simps)
  ultimately show ?thesis using l2(2) by blast
qed

theorem lookups_decided_witness:
  "\<exists>c. reachable ref_env (c, []) \<and> GetStatus ref_env 7 ref_token c = (Inr 1, c) \<and>
     GetChannelInfo ref_env 7 ref_token 1 c = (Inr ref_channel, c)"
proof -
  obtain c where c: "reachable ref_env (c, [])" "\<not> fatal_error_triggered c" "ref_ready (log_at ref_env c)"
    using ref_reach_ready by blast
  have "CanRead ref_channel 7" by (simp add: CanRead_def IsMember_def ref_channel_def)
  with lookups_decided [OF ref_env_laws c(1) ref_healthy [OF c(2)], where p = 7 and t = ref_token and v = 1 and c' = c
      and i = 1 and ch = ref_channel] c(1,3)
  show ?thesis by (auto simp: ref_ready_def channel_in_def simp del: ref_env_simps)
qed

definition ref_greeting :: publish_request where
  "ref_greeting = \<lparr>pr_principal = 7, pr_token = ref_token, pr_channel_id = 1, pr_seq = 2, pr_uuid = 2, pr_recipients = [8],
     pr_payload = ''hi'', pr_object_keys = []\<rparr>"

lemma ref_greeting_allowed: "ref_ready l \<Longrightarrow> publish_allowed ref_env ref_greeting l"
  by (simp add: ref_ready_def publish_allowed_def ref_greeting_def channel_accepts_def ref_channel_def CanWrite_def IsMember_def)

lemma ref_greeting_fits: "message_SerializeToString (proto_lib ref_env) (request_message ref_greeting now) \<noteq> None"
  by (simp add: message_fits_def fits_def request_message_def publish_message_def ref_greeting_def)

theorem publish_decided_witness:
  "\<exists>c c'. reachable ref_env (c, []) \<and> Publish ref_env ref_greeting 9 None None c = (Inr (), c')"
proof -
  obtain c where c: "reachable ref_env (c, [])" "\<not> fatal_error_triggered c" "ref_ready (log_at ref_env c)"
    using ref_reach_ready by blast
  from publish_decided [OF ref_env_laws c(1) ref_healthy [OF c(2)] ref_accepts_writes ref_greeting_fits, of None None]
    ref_greeting_allowed [OF c(3)] c(1) show ?thesis by (auto simp: CheckRpcActive_def)
qed

lemma ref_greeting_published:
  assumes "reachable ref_env (c, [])" and "\<not> fatal_error_triggered c" and "ref_ready (log_at ref_env c)"
  shows "\<exists>c'. Publish ref_env ref_greeting 9 None None c = (Inr (), c')"
proof -
  from ref_greeting_fits [of 9] obtain b where "PutMessage (proto_lib ref_env) [] (request_message ref_greeting 9) = Inr b"
    by (auto simp: PutMessage_def)
  from Publish_accepted [OF ref_env_laws assms(1) ref_healthy [OF assms(2)] ref_accepts_writes
      ref_greeting_allowed [OF assms(3)] this, of None None]
  show ?thesis by (simp add: CheckRpcActive_def)
qed

lemma ref_listing:
  assumes "reachable ref_env (c, [])" and "\<not> fatal_error_triggered c" and "ref_ready (log_at ref_env c)"
  shows "\<exists>chs. ListChannelInfos ref_env 7 ref_token CHANNEL_FILTER_OWNED c = (Inr chs, c)"
proof -
  from healthyE [OF ref_env_laws assms(1) ref_healthy [OF assms(2)]] obtain s where s: "CreateSnapshot ref_env (d_db c) = Inr s"
    and r: "readable ref_env s" and l: "log_in ref_env s = log_at ref_env c" by blast
  have "Authenticate ref_env s 7 ref_token = Inr ()"
    using Authenticate_answered [OF r, unfolded l] assms(3) by (simp add: ref_ready_def del: ref_env_simps)
  moreover obtain chs where "ListChannels ref_env s = Inr chs" using ListChannels_answered [OF r] by blast
  ultimately show ?thesis
    using s assms(2) by (simp add: ListChannelInfos_def CreateLinearizedSnapshot_def ValidateFilter_def)
qed

theorem pages_available_witness:
  "\<exists>c r. reachable ref_env (c, []) \<and> Fetch ref_env \<lparr>fq_principal = 7, fq_token = ref_token, fq_from_seq = 0, fq_limit = 10,
     fq_only_my_recipient = False, fq_channels = [1]\<rparr> c = (Inr r, c)"
proof -
  obtain c where c: "reachable ref_env (c, [])" "\<not> fatal_error_triggered c" "ref_ready (log_at ref_env c)"
    using ref_reach_ready by blast
  have "utf8_channels (log_at ref_env c)" using c(3) by (simp add: utf8_channels_def ref_ready_def ref_channel_def del: ref_env_simps)
  moreover have "lg_max_seq (log_at ref_env c) + 1 \<noteq> 0" using c(3) by (simp add: ref_ready_def del: ref_env_simps)
  moreover have "CanRead ref_channel 7" by (simp add: CanRead_def IsMember_def ref_channel_def)
  ultimately show ?thesis
    using pages_available [OF ref_env_laws ref_env_json c(1) ref_healthy [OF c(2)], of "\<lparr>fq_principal = 7, fq_token = ref_token,
      fq_from_seq = 0, fq_limit = 10, fq_only_my_recipient = False, fq_channels = [1]\<rparr>"] c(1,3)
    by (auto simp: ref_ready_def channel_in_def simp del: ref_env_simps)
qed

theorem committed_object_served_witness:
  "\<exists>c r c' d. reachable ref_env (c, []) \<and> ReadObject ref_env 1 ref_object_token 1 2 c = Some (r, c') \<and>
     \<not> fatal_error_triggered c' \<and> ro_dir (d_os c) (FinalName 1) = Some (RegularFile d) \<and> length d = 3"
proof -
  obtain c where c: "reachable ref_env (c, [])" "\<not> fatal_error_triggered c"
    "lg_objects (log_at ref_env c) 1 = Some (ref_stored ref_token)" using ref_reach_committed by blast
  have "valid_object 1 (ref_stored ref_token)"
    using reachable_sound [OF ref_env_laws c(1)] c(3) unfolding sound_def records_valid_def by auto
  then have "capability (log_at ref_env c) 1 ref_object_token (ref_stored ref_token)"
    using c(3) by (simp add: capability_def ref_stored_def object_of_def del: ref_env_simps)
  moreover have "so_nbytes (ref_stored ref_token) = 3" by (simp add: ref_stored_def object_of_def ref_write_request_def)
  moreover have "os_dir (posix_api ref_env) = ro_dir" by (simp add: ref_posix_def)
  ultimately show ?thesis
    using committed_object_served [OF ref_env_laws c(1) ref_healthy [OF c(2)], of 1 ref_object_token "ref_stored ref_token" 1 2] c(1)
    by fastforce
qed

end
