(* ===== verification/Log_Properties.thy ===== *)
theory Log_Properties
  imports Availability
begin

text \<open>
  Properties of the log as its users see it: a uuid is published at most once in the whole life of the server, and the
  listing of channels is what the caller may see.
\<close>

section \<open>At most once\<close>

definition published :: "('db, 'snap, 'os) env \<Rightarrow> u64 \<Rightarrow> ('db, 'snap, 'os) core \<Rightarrow> ('db, 'snap, 'os) core \<Rightarrow> bool" where
  "published E u c c' \<longleftrightarrow> (\<exists>q now rpc1 rpc2. pr_uuid q = u \<and> Publish E q now rpc1 rpc2 c = (Inr (), c')) \<or>
     (\<exists>p now rpc1 rpc2 seq. pa_uuid p = u \<and> PublishAutoSeq E p now rpc1 rpc2 c = (Inr seq, c'))"

lemma published_log:
  assumes "env_laws E" and "published E u c c'"
  shows "lg_used (log_at E c) u = None" and "lg_used (log_at E c') u \<noteq> None"
proof -
  from assms(2) obtain q now where "pr_uuid q = u" "publish_effect E q now (log_at E c) (log_at E c')"
  proof (unfold published_def, elim disjE exE conjE)
    fix q now rpc1 rpc2 assume "pr_uuid q = u" "Publish E q now rpc1 rpc2 c = (Inr (), c')"
    with that publish.committed(1) [of E "(q, now, rpc1, rpc2)" c "()" c'] assms(1) show thesis by simp
  next
    fix p now rpc1 rpc2 seq assume "pa_uuid p = u" "PublishAutoSeq E p now rpc1 rpc2 c = (Inr seq, c')"
    with that [of "with_seq p seq" now] publish_auto.committed(1) [of E "(p, now, rpc1, rpc2)" c seq c'] assms(1) show thesis
      by (simp add: with_seq_def)
  qed
  then show "lg_used (log_at E c) u = None" and "lg_used (log_at E c') u \<noteq> None"
    by (auto simp: publish_effect_def publish_allowed_def append_message_def request_message_def publish_message_def)
qed

text \<open>
  C12: At most once, for good: after a publication with a uuid has succeeded, with or without an explicit sequence
  number, no publication with the same uuid succeeds, whatever operations, crashes, failed starts and restarts come
  in between; the calls may also be ones that passed the check of the availability before a fatal error.
\<close>

theorem publish_uuid_at_most_once:
  assumes laws: "env_laws E" and first: "published E u c0 c1" and "d_db c = d_db c1"
    and reach: "reachable E (c, w)" and run: "server_run E (c, w) (c', w')" and "d_db c2 = d_db c'"
  shows "\<not> published E u c2 c3"
proof
  assume "published E u c2 c3"
  from published_log(1) [OF laws this] assms(6) have "lg_used (log_at E c') u = None" by simp
  moreover have "lg_used (log_at E c) u \<noteq> None" using published_log(2) [OF laws first] assms(3) by simp
  moreover have "lg_used (log_at E c) \<subseteq>\<^sub>m lg_used (log_at E c')"
    using server_run_persists [OF laws run reach] by (simp add: persists_def extends_def)
  ultimately show False by (metis domIff map_le_def)
qed

lemma ref_greeting_uuid: "pr_uuid ref_greeting = 2"
  by (simp add: ref_greeting_def)

text \<open>The greeting is published, uuids are allocated, and the uuid of the greeting is refused.\<close>

theorem publish_uuid_at_most_once_witness:
  "\<exists>c0 c c'. Publish ref_env ref_greeting 9 None None c0 = (Inr (), c) \<and> server_run ref_env (c, []) (c', []) \<and>
     AllocateUuids ref_env 1 c = (Inr [3], c') \<and> fst (Publish ref_env ref_greeting 9 None None c') \<noteq> Inr ()"
proof -
  obtain c0 where c0: "reachable ref_env (c0, [])" "\<not> fatal_error_triggered c0" "ref_ready (log_at ref_env c0)"
    "roomy (log_at ref_env c0)" using ref_reach_ready by blast
  obtain c where pub: "Publish ref_env ref_greeting 9 None None c0 = (Inr (), c)"
    using ref_greeting_published [OF c0(1-3)] by blast
  have reach: "reachable ref_env (c, [])"
    by (rule reach_step [OF c0(1) _ step_operation [OF op_publish [OF pub]]]) (simp add: c0(4) del: ref_env_simps)
  have eff: "publish_effect ref_env ref_greeting 9 (log_at ref_env c0) (log_at ref_env c)" and up: "\<not> fatal_error_triggered c"
    using publish.committed(1,4) [OF ref_env_laws, of "(ref_greeting, 9, None, None)" c0 "()" c] pub by simp_all
  have log: "lg_next_uuid (log_at ref_env c) = 3" "roomy (log_at ref_env c)"
    using eff c0(3,4) by (simp_all add: publish_effect_def append_message_def ref_ready_def roomy_def del: ref_env_simps)
  have "GetNextUuid ref_env (d_db c) = Inr 3"
    using next_uuid_read.read_in_state [OF ref_env_laws reach ref_CreateSnapshot ref_answers] log(1) by simp
  with up obtain c' where alloc: "AllocateUuids ref_env 1 c = (Inr [3], c')"
    by (simp add: AllocateUuids_def kMaxUuidBatch_def SetNextUuid_def)
  have run: "server_run ref_env (c, []) (c', [])"
    by (rule run_step [OF run_stay _ step_operation [OF op_allocate [OF alloc]]]) (simp add: log(2) del: ref_env_simps)
  have first: "published ref_env 2 c0 c" unfolding published_def using pub by (force simp: ref_greeting_def)
  from publish_uuid_at_most_once [OF ref_env_laws first refl reach run refl] have "\<not> published ref_env 2 c' c3" for c3 .
  then have "fst (Publish ref_env ref_greeting 9 None None c') \<noteq> Inr ()"
    unfolding published_def by (metis prod.collapse ref_greeting_uuid)
  with pub run alloc show ?thesis by blast
qed

section \<open>The listing of channels\<close>

text \<open>
  C36: The listing of channels has exactly the stored channels that are public or protected or have the caller as a
  member, restricted to those the caller is a member of or has created if that was asked for, each once, in the
  order of their numbers, preceded by the system channel if all channels were asked for.
\<close>

theorem list_channels_complete:
  assumes "env_laws E" and "log_ok (log_at E c)" and "ListChannelInfos E prin token filt c = (Inr chs, c')"
  shows "c' = c \<and> authentic (log_at E c) prin token \<and> sorted_wrt (<) (map ch_channel_id chs) \<and>
    set chs = {ch. lg_channels (log_at E c) (ch_channel_id ch) = Some ch \<and>
        (ch_visibility ch \<in> {VISIBILITY_PUBLIC, VISIBILITY_PROTECTED} \<or> prin \<in> set (ch_members ch)) \<and>
        (filt = CHANNEL_FILTER_JOINED \<longrightarrow> prin \<in> set (ch_members ch)) \<and>
        (filt = CHANNEL_FILTER_OWNED \<longrightarrow> ch_creator ch = Some prin)} \<union>
      (if filt = CHANNEL_FILTER_ALL then {SystemChannel} else {})"
proof -
  note result = ListChannelInfos_result [OF assms(1,3)]
  from result(3) obtain channels where chs: "chs = (if filt = CHANNEL_FILTER_ALL then [SystemChannel] else []) @ filter (listed filt prin) channels"
    and sorted: "sorted_wrt (<) (map ch_channel_id channels)"
    and mem: "\<And>ch. ch \<in> set channels \<longleftrightarrow> lg_channels (log_at E c) (ch_channel_id ch) = Some ch" by blast
  have stored: "0 < ch_channel_id ch" if "lg_channels (log_at E c) (ch_channel_id ch) = Some ch" for ch
    using assms(2) that unfolding log_ok_def channels_ok_def word_gt_0 by metis
  have "listed filt prin ch \<longleftrightarrow> (ch_visibility ch \<in> {VISIBILITY_PUBLIC, VISIBILITY_PROTECTED} \<or> prin \<in> set (ch_members ch)) \<and>
      (filt = CHANNEL_FILTER_JOINED \<longrightarrow> prin \<in> set (ch_members ch)) \<and> (filt = CHANNEL_FILTER_OWNED \<longrightarrow> ch_creator ch = Some prin)"
    if "lg_channels (log_at E c) (ch_channel_id ch) = Some ch" for ch
    using stored [OF that] by (auto simp: listed_def CanRead_def IsMember_def)
  then have "{ch \<in> set channels. listed filt prin ch} = {ch. lg_channels (log_at E c) (ch_channel_id ch) = Some ch \<and>
        (ch_visibility ch \<in> {VISIBILITY_PUBLIC, VISIBILITY_PROTECTED} \<or> prin \<in> set (ch_members ch)) \<and>
        (filt = CHANNEL_FILTER_JOINED \<longrightarrow> prin \<in> set (ch_members ch)) \<and>
        (filt = CHANNEL_FILTER_OWNED \<longrightarrow> ch_creator ch = Some prin)}" (is "_ = ?stored") using mem by blast
  moreover have "set (if filt = CHANNEL_FILTER_ALL then [SystemChannel] else []) =
    (if filt = CHANNEL_FILTER_ALL then {SystemChannel} else {})" by simp
  ultimately have "set chs = ?stored \<union> (if filt = CHANNEL_FILTER_ALL then {SystemChannel} else {})"
    unfolding chs set_append set_filter by (simp only: Un_commute)
  moreover have "sorted_wrt (<) (map ch_channel_id (filter (listed filt prin) channels))"
    using sorted by (simp add: sorted_wrt_map sorted_wrt_filter)
  then have "sorted_wrt (<) (map ch_channel_id chs)" unfolding chs using stored mem
    by (cases "filt = CHANNEL_FILTER_ALL") (simp_all add: SystemChannel_def)
  ultimately show ?thesis using result(1,2) by blast
qed

theorem list_channels_complete_witness:
  "\<exists>c chs. reachable ref_env (c, []) \<and> ListChannelInfos ref_env 7 ref_token CHANNEL_FILTER_OWNED c = (Inr chs, c) \<and>
     set chs = {ref_channel}"
proof -
  obtain c where c: "reachable ref_env (c, [])" "\<not> fatal_error_triggered c" "ref_ready (log_at ref_env c)"
    using ref_reach_ready by blast
  have ok: "log_ok (log_at ref_env c)" using reachable_ok [OF ref_env_laws c(1)] by (simp add: server_ok_def)
  from ref_listing [OF c] obtain chs where run: "ListChannelInfos ref_env 7 ref_token CHANNEL_FILTER_OWNED c = (Inr chs, c)" by blast
  have stored: "lg_channels (log_at ref_env c) (ch_channel_id ch) = Some ch \<longleftrightarrow> ch = ref_channel" for ch
  proof -
    have "lg_channels (log_at ref_env c) = [1 \<mapsto> ref_channel]" using c(3) by (simp only: ref_ready_def)
    then show ?thesis by (auto simp: ref_channel_def simp del: ref_env_simps split: if_splits)
  qed
  have "set chs = {ref_channel}"
    using list_channels_complete [OF ref_env_laws ok run, THEN conjunct2, THEN conjunct2, THEN conjunct2]
    unfolding stored by (simp add: ref_channel_def Collect_conv_if del: ref_env_simps)
  with c(1) run show ?thesis by blast
qed

end
