(* ===== verification/Stream_Liveness.thy ===== *)
theory Stream_Liveness
  imports Stream_Properties
begin

text \<open>
  Every stream ends once the registry is stopping. A stream may have to wait for a snapshot, which the refresh
  thread provides; so the end is a property of fair runs, in which the stream and the refresh thread get their
  turns. Commits, fatal errors and the other threads may take steps at any time.
\<close>

section \<open>Turns\<close>

text \<open>A turn of the refresh thread.\<close>

inductive refresh_turn :: "('db, 'snap, 'os) env \<Rightarrow> ('db, 'snap, 'os) sub_system \<Rightarrow> ('db, 'snap, 'os) sub_system \<Rightarrow> bool"
  for E where
  turn_wake: "ss_refresh x = Waiting \<Longrightarrow> refresh_turn E x (x\<lparr>ss_refresh := refresh_wake (ss_core x)\<rparr>)"
| turn_create: "ss_refresh x = Loaded g \<Longrightarrow> refresh_turn E x (x\<lparr>ss_refresh := refresh_create E g (ss_core x)\<rparr>)"
| turn_store: "ss_refresh x = Created g r \<Longrightarrow> refresh_store g r (ss_core x) = (pc, c) \<Longrightarrow>
    refresh_turn E x (x\<lparr>ss_core := c, ss_refresh := pc\<rparr>)"
| turn_fail: "ss_refresh x = Failing s \<Longrightarrow>
    refresh_turn E x (x\<lparr>ss_core := FatalStorageError E s (ss_core x), ss_refresh := Stopped\<rparr>)"

text \<open>A turn of the stream: it moves on, or makes a round of its timed wait.\<close>

definition stream_turn :: "('db, 'snap, 'os) env \<Rightarrow> subscribe_request \<Rightarrow> nat \<Rightarrow> ('db, 'snap, 'os) live \<Rightarrow>
    ('db, 'snap, 'os) live \<Rightarrow> bool" where
  "stream_turn E q ctxt z z' \<longleftrightarrow> live_step E q ctxt z z' \<and> (case z of (x, v, st) \<Rightarrow>
     snd (snd z') \<noteq> st \<or> (\<exists>version is_cancelled. str_pc st = Idle version \<and> (ctxt \<in> cancelled v \<longrightarrow> is_cancelled) \<and>
       z' = (x, v, RunSubscription_wait is_cancelled version (ss_core x) st)))"

text \<open>The stream waits for a snapshot and cannot go on.\<close>

fun stream_blocked :: "('db, 'snap, 'os) live \<Rightarrow> bool" where
  "stream_blocked (x, v, st) = (case str_pc st of
     StartWait c \<Rightarrow> \<not> goes_on c (ss_core x) | BatchWait c \<Rightarrow> \<not> goes_on c (ss_core x) | _ \<Rightarrow> False)"

definition stream_ended :: "('db, 'snap, 'os) live \<Rightarrow> bool" where
  "stream_ended z \<longleftrightarrow> str_pc (snd (snd z)) \<in> range Ended"

text \<open>An infinite run, in which nothing may happen for a while, and the two conditions of fairness: a thread that can
  take a turn from some moment on takes one.\<close>

definition live_run :: "('db, 'snap, 'os) env \<Rightarrow> subscribe_request \<Rightarrow> nat \<Rightarrow> ('db, 'os) disk \<Rightarrow>
    (nat \<Rightarrow> ('db, 'snap, 'os) live) \<Rightarrow> bool" where
  "live_run E q ctxt storage z \<longleftrightarrow> z 0 = live_start_state E storage \<and>
     (\<forall>i. z (Suc i) = z i \<or> live_step E q ctxt (z i) (z (Suc i)))"

definition fair_refresh :: "('db, 'snap, 'os) env \<Rightarrow> (nat \<Rightarrow> ('db, 'snap, 'os) live) \<Rightarrow> bool" where
  "fair_refresh E z \<longleftrightarrow> (\<forall>i. \<exists>j \<ge> i. ss_refresh (fst (z j)) = Stopped \<or> refresh_turn E (fst (z j)) (fst (z (Suc j))))"

definition fair_stream :: "('db, 'snap, 'os) env \<Rightarrow> subscribe_request \<Rightarrow> nat \<Rightarrow> (nat \<Rightarrow> ('db, 'snap, 'os) live) \<Rightarrow> bool" where
  "fair_stream E q ctxt z \<longleftrightarrow>
     (\<forall>i. \<exists>j \<ge> i. stream_blocked (z j) \<or> stream_ended (z j) \<or> stream_turn E q ctxt (z j) (z (Suc j)))"

section \<open>Generations\<close>

text \<open>What the generations of the shared snapshot, of the last attempt and of the refresh thread have to do with each
  other as long as the commit counter does not wrap.\<close>

definition gens_ok :: "('db, 'snap, 'os) sub_system \<Rightarrow> bool" where
  "gens_ok x \<longleftrightarrow>
     subscription_snapshot_generation (ss_core x) \<le> commit_generation (ss_core x) \<and>
     subscription_snapshot_attempt_generation (ss_core x) \<le> commit_generation (ss_core x) \<and>
     (\<forall>g. ss_refresh x = Loaded g \<or> (\<exists>r. ss_refresh x = Created g r) \<longrightarrow> g \<le> commit_generation (ss_core x) \<and>
        subscription_snapshot_generation (ss_core x) \<le> g \<and> subscription_snapshot_attempt_generation (ss_core x) \<le> g) \<and>
     (\<forall>g s. ss_refresh x = Created g (Inl s) \<longrightarrow> \<not> status_ok s) \<and>
     (ss_refresh x = Stopped \<longrightarrow> stop_subscription_snapshot_thread (ss_core x) \<or> fatal_error_triggered (ss_core x))"

text \<open>A change of the core that readers notice at most by being released.\<close>

definition same_gens :: "('db, 'snap, 'os) core \<Rightarrow> ('db, 'snap, 'os) core \<Rightarrow> bool" where
  "same_gens c c' \<longleftrightarrow> commit_generation c \<le> commit_generation c' \<and>
     subscription_snapshot_generation c' = subscription_snapshot_generation c \<and>
     subscription_snapshot_attempt_generation c' = subscription_snapshot_attempt_generation c \<and>
     subscription_snapshot_status c' = subscription_snapshot_status c \<and>
     (stop_subscription_snapshot_thread c \<longrightarrow> stop_subscription_snapshot_thread c') \<and>
     (fatal_error_triggered c \<longrightarrow> fatal_error_triggered c')"

lemma same_gens_refl [simp]: "same_gens c c"
  by (simp add: same_gens_def)

lemma same_gens_fatal: "same_gens c (FatalStorageError E s c)"
  by (simp add: same_gens_def FatalStorageError_def)

lemma same_gens_commit: "Commit E b c = (r, c') \<Longrightarrow> same_gens c (c' :: ('db, 'snap, 'os) core)"
  by (auto simp: Commit_def Let_def bind_inv same_gens_def split: prod.splits sum.splits)

lemma same_gens_end: "end_with E s c st = (c', st') \<Longrightarrow> same_gens c c'"
  by (auto simp: end_with_def ToGrpcStatus_def HandleRpcStatus_def same_gens_def FatalStorageError_def split: if_splits)

lemma same_gens_ok: "gens_ok x \<Longrightarrow> same_gens (ss_core x) c' \<Longrightarrow> gens_ok (x\<lparr>ss_core := c'\<rparr>)"
  by (auto simp: gens_ok_def same_gens_def)

lemma same_gens_goes_on: "goes_on c (ss_core x) \<Longrightarrow> same_gens (ss_core x) c' \<Longrightarrow> goes_on c c'"
  by (auto simp: goes_on_def acquire_ready_def same_gens_def)

text \<open>A step of the server is one of those, or a turn of the refresh thread.\<close>

lemma sub_step_cases:
  assumes "sub_step E x y" and "commit_generation (ss_core x) \<le> commit_generation (ss_core y)"
  shows "refresh_turn E x y \<or> (same_gens (ss_core x) (ss_core y) \<and> ss_refresh y = ss_refresh x)"
  using assms
proof cases
  case commit_count
  with assms(2) show ?thesis by (simp add: same_gens_def)
qed (auto intro: refresh_turn.intros dest: same_gens_commit simp: same_gens_fatal, auto simp: same_gens_def stop_thread_def)

lemma gens_ok_init: "gens_ok (sub_init E storage)"
  by (auto simp: gens_ok_def sub_init_def OpenEventCore_def refresh_start_def Let_def FatalStorageError_def
      split: sum.splits if_splits)

lemma gens_ok_turn: "refresh_turn E x y \<Longrightarrow> gens_ok x \<Longrightarrow> gens_ok y"
proof (induction rule: refresh_turn.induct)
  case (turn_create x g)
  then show ?case
    by (auto simp: gens_ok_def refresh_create_def CreateSnapshot_def status_Fatal_def WithStorageDiagnostic_def mk_status_def
        status_ok_def split: option.splits)
next
  case (turn_store x g r pc c)
  then show ?case
    by (auto simp: gens_ok_def refresh_store_def Let_def split: if_splits sum.splits)
qed (auto simp: gens_ok_def refresh_wake_def FatalStorageError_def)

lemma goes_on_turn: "refresh_turn E x y \<Longrightarrow> gens_ok x \<Longrightarrow> goes_on c (ss_core x) \<Longrightarrow> goes_on c (ss_core y)"
proof (induction rule: refresh_turn.induct)
  case (turn_store x g r pc c)
  then show ?case
    by (auto simp: gens_ok_def goes_on_def acquire_ready_def refresh_store_def Let_def split: if_splits sum.splits)
qed (auto simp: goes_on_def acquire_ready_def FatalStorageError_def)

section \<open>The refresh thread releases a reader\<close>

text \<open>How many turns of the refresh thread a reader that requires a generation may have to wait for.\<close>

fun refresh_rank :: "u64 \<Rightarrow> 'snap refresh_pc \<Rightarrow> nat" where
  "refresh_rank required Waiting = 3"
| "refresh_rank required (Loaded g) = (if required \<le> g then 2 else 5)"
| "refresh_rank required (Created g r) = (if required \<le> g then 1 else 4)"
| "refresh_rank required (Failing s) = 1"
| "refresh_rank required Stopped = 0"

definition wait_rank :: "('db, 'snap, 'os) sub_system \<Rightarrow> ('db, 'snap, 'os) core \<Rightarrow> nat" where
  "wait_rank x c = (if goes_on c (ss_core x) then 0 else 1 + refresh_rank (commit_generation c) (ss_refresh x))"

lemma wait_rank_bound: "wait_rank x c < 7"
  by (cases "ss_refresh x") (simp_all add: wait_rank_def)

lemma blocked_running: "gens_ok x \<Longrightarrow> \<not> goes_on c (ss_core x) \<Longrightarrow> ss_refresh x \<noteq> Stopped"
  by (auto simp: gens_ok_def goes_on_def acquire_ready_def)

lemma refresh_turn_releases:
  assumes "refresh_turn E x y" and "gens_ok x" and "commit_generation c \<le> commit_generation (ss_core x)"
    and "\<not> goes_on c (ss_core x)"
  shows "wait_rank y c < wait_rank x c"
  using assms
proof (induction rule: refresh_turn.induct)
  case (turn_wake x)
  then have "refresh_wake (ss_core x) = (Loaded (commit_generation (ss_core x)) :: 'b refresh_pc)"
    by (auto simp: refresh_wake_def goes_on_def acquire_ready_def)
  with turn_wake show ?case by (simp add: wait_rank_def)
next
  case (turn_store x g r pc c')
  then show ?case
    by (auto simp: wait_rank_def gens_ok_def goes_on_def acquire_ready_def refresh_store_def Let_def
        split: if_splits sum.splits)
qed (auto simp: wait_rank_def refresh_create_def goes_on_def acquire_ready_def FatalStorageError_def)

lemma wait_rank_step:
  assumes "sub_step E x y" and "commit_generation (ss_core x) \<le> commit_generation (ss_core y)" and "gens_ok x"
    and "commit_generation c \<le> commit_generation (ss_core x)"
  shows "wait_rank y c \<le> wait_rank x c"
  using sub_step_cases [OF assms(1,2)]
proof
  assume turn: "refresh_turn E x y"
  show ?thesis
  proof (cases "goes_on c (ss_core x)")
    case True
    with goes_on_turn [OF turn assms(3)] show ?thesis by (simp add: wait_rank_def)
  next
    case False
    from refresh_turn_releases [OF turn assms(3,4) this] show ?thesis by simp
  qed
next
  assume "same_gens (ss_core x) (ss_core y) \<and> ss_refresh y = ss_refresh x"
  with same_gens_goes_on show ?thesis by (auto simp: wait_rank_def)
qed

section \<open>Steps to the end of a stream\<close>

fun stream_rank :: "('db, 'snap, 'os) stream_pc \<Rightarrow> nat" where
  "stream_rank (Ended g) = 0" | "stream_rank Unstarted = 1" | "stream_rank LoopHead = 1" | "stream_rank (Idle version) = 2"
| "stream_rank (BatchWait c) = 3" | "stream_rank (StartWait c) = 3"

lemma stream_start_rank:
  assumes "RunSubscription_start E q c c0 st = (c', st')"
  shows "stream_rank (str_pc st') \<le> 1" and "same_gens c0 c'" and "\<forall>d. str_pc st' \<notin> {StartWait d, BatchWait d}"
  using assms same_gens_end [of E _ c0 st c' st']
  by (auto simp: RunSubscription_start_def dest!: end_with_core(3) split: sum.splits if_splits)

lemma stream_batch_rank:
  assumes "RunSubscription_batch E q writes c c0 st = (c', st')"
  shows "stream_rank (str_pc st') \<le> 2" and "same_gens c0 c'" and "\<forall>d. str_pc st' \<notin> {StartWait d, BatchWait d}"
  using assms same_gens_end [of E _ c0 st c' st']
  by (auto simp: RunSubscription_batch_def dest!: end_with_core(3) split: sum.splits prod.splits bool.splits if_splits)

text \<open>The generation a waiting stream requires has been counted.\<close>

definition reader_ok :: "('db, 'snap, 'os) sub_system \<Rightarrow> ('db, 'snap, 'os) stream \<Rightarrow> bool" where
  "reader_ok x st \<longleftrightarrow> (\<forall>c. str_pc st \<in> {StartWait c, BatchWait c} \<longrightarrow> commit_generation c \<le> commit_generation (ss_core x))"

lemma live_step_gens:
  assumes "live_step E q ctxt (x, v, st) (y, v', st')" and up: "commit_generation (ss_core x) \<le> commit_generation (ss_core y)"
    and gens: "gens_ok x" and reader: "reader_ok x st"
  shows "gens_ok y" and "reader_ok y st'"
proof -
  have "gens_ok y \<and> reader_ok y st'" using assms(1)
  proof cases
    case live_core
    have "gens_ok y" using sub_step_cases [OF live_core(3) up]
    proof
      assume "same_gens (ss_core x) (ss_core y) \<and> ss_refresh y = ss_refresh x"
      then show ?thesis using gens by (auto simp: gens_ok_def same_gens_def)
    qed (rule gens_ok_turn [OF _ gens])
    with live_core reader up show ?thesis by (auto simp: reader_ok_def intro: order_trans)
  next
    case (live_start c c')
    with stream_start_rank [OF live_start(5)] same_gens_ok [OF gens] show ?thesis by (simp add: reader_ok_def)
  next
    case (live_batch c writes c')
    with stream_batch_rank [OF live_batch(5)] same_gens_ok [OF gens] show ?thesis by (simp add: reader_ok_def)
  qed (use gens reader in \<open>auto simp: reader_ok_def RunSubscription_wait_def\<close>)
  then show "gens_ok y" and "reader_ok y st'" by blast+
qed

definition ending_rank :: "('db, 'snap, 'os) live \<Rightarrow> nat" where
  "ending_rank z = (case z of (x, v, st) \<Rightarrow> 7 * stream_rank (str_pc st) +
     (case str_pc st of StartWait c \<Rightarrow> wait_rank x c | BatchWait c \<Rightarrow> wait_rank x c | _ \<Rightarrow> 0))"

lemma ending_rank_less: "stream_rank (str_pc st') < stream_rank (str_pc st) \<Longrightarrow> ending_rank (y, v', st') < ending_rank (x, v, st)"
proof -
  have "(case str_pc st' of StartWait c \<Rightarrow> wait_rank y c | BatchWait c \<Rightarrow> wait_rank y c | _ \<Rightarrow> 0) < 7"
    by (simp add: wait_rank_bound split: stream_pc.split)
  moreover assume "stream_rank (str_pc st') < stream_rank (str_pc st)"
  ultimately show ?thesis unfolding ending_rank_def prod.case by linarith
qed

text \<open>Once the registry is stopping a stream only moves towards its end, and nobody else moves it away.\<close>

lemma stopping_stream_moves:
  assumes "live_step E q ctxt (x, v, st) (y, v', st')" and "subscriptions_stopping v" and "registry_ok ctxt v st" and "st' \<noteq> st"
  shows "stream_rank (str_pc st') < stream_rank (str_pc st)"
proof -
  have mine: "running_pc (str_pc st) \<Longrightarrow> ctxt \<in> cancelled v" using assms(2,3) by (auto simp: registry_ok_def)
  have refuse: "RegisterSubscription ctxt v = (False, v)" using assms(2) by (simp add: RegisterSubscription_def)
  from assms(1) show ?thesis
  proof cases
    case (live_start c c')
    with stream_start_rank(1) [OF live_start(5)] show ?thesis by simp
  next
    case (live_batch c writes c')
    with stream_batch_rank(1) [OF live_batch(5)] show ?thesis by simp
  qed (use assms(4) mine refuse in \<open>auto simp: RunSubscription_wait_def split: if_splits\<close>)
qed

lemma ending_rank_step:
  assumes step: "live_step E q ctxt (x, v, st) (y, v', st')" and stop: "subscriptions_stopping v" "registry_ok ctxt v st"
    and gens: "commit_generation (ss_core x) \<le> commit_generation (ss_core y)" "gens_ok x" "reader_ok x st"
  shows "ending_rank (y, v', st') \<le> ending_rank (x, v, st)"
proof (cases "st' = st")
  case False
  from ending_rank_less [OF stopping_stream_moves [OF step stop False]] show ?thesis by (simp add: less_imp_le)
next
  case True
  from step have "y = x \<or> sub_step E x y"
  proof cases
    case (live_start c c')
    with stream_start_rank(3) [OF live_start(5)] True show ?thesis by simp
  next
    case (live_batch c writes c')
    with stream_batch_rank(3) [OF live_batch(5)] True show ?thesis by simp
  qed simp_all
  then show ?thesis
    using wait_rank_step [OF _ gens(1,2)] gens(3) True by (auto simp: ending_rank_def reader_ok_def split: stream_pc.splits)
qed

lemma refresh_turn_progress:
  assumes "stream_blocked (x, v, st)" and "refresh_turn E x y" and "gens_ok x" and "reader_ok x st"
  shows "ending_rank (y, v', st) < ending_rank (x, v, st)"
  using assms refresh_turn_releases [OF assms(2,3)]
  by (auto simp: ending_rank_def reader_ok_def split: stream_pc.splits)

section \<open>Fair runs\<close>

lemma live_step_stopping:
  "live_step E q ctxt (x, v, st) (y, v', st') \<Longrightarrow> subscriptions_stopping v \<Longrightarrow> subscriptions_stopping v'"
  by (cases rule: live_step.cases)
    (auto simp: RegisterSubscription_def UnregisterSubscription_def StopSubscriptions_def split: if_splits)

lemma live_step_ended: "live_step E q ctxt (x, v, st) (y, v', st') \<Longrightarrow> str_pc st \<in> range Ended \<Longrightarrow> st' = st"
  by (cases rule: live_step.cases) auto

lemma live_runD: "live_run E q ctxt storage z \<Longrightarrow> z i = a \<Longrightarrow> z (Suc i) = b \<Longrightarrow> b = a \<or> live_step E q ctxt a b"
  unfolding live_run_def by metis

text \<open>A stream that has not moved is blocked as before if its rank is the same.\<close>

lemma blocked_by_rank:
  assumes "stream_blocked z" and "snd (snd z') = snd (snd z)" and "ending_rank z' = ending_rank z"
  shows "stream_blocked z'"
proof -
  obtain x v st y v' where z: "z = (x, v, st)" "z' = (y, v', st)" using assms(2) by (metis prod.collapse)
  from assms(1,3) show ?thesis by (auto simp: z ending_rank_def wait_rank_def split: stream_pc.splits)
qed

text \<open>What holds at every moment of a run.\<close>

definition live_inv :: "nat \<Rightarrow> ('db, 'snap, 'os) live \<Rightarrow> bool" where
  "live_inv ctxt z \<longleftrightarrow> (case z of (x, v, st) \<Rightarrow> gens_ok x \<and> reader_ok x st \<and> registry_ok ctxt v st)"

lemma live_run_inv:
  assumes "live_run E q ctxt storage z" and "mono (\<lambda>i. commit_generation (ss_core (fst (z i))))"
  shows "live_inv ctxt (z i)"
proof (induction i)
  case 0
  have "z 0 = live_start_state E storage" using assms(1) by (simp add: live_run_def)
  then show ?case
    by (simp add: live_inv_def live_start_state_def gens_ok_init reader_ok_def registry_ok_def new_stream_def)
next
  case (Suc i)
  obtain x v st y v' st' where z: "z i = (x, v, st)" "z (Suc i) = (y, v', st')" by (metis prod.exhaust)
  have up: "commit_generation (ss_core x) \<le> commit_generation (ss_core y)" using monoD [OF assms(2), of i "Suc i"] z by simp
  show ?case
  proof (cases "z (Suc i) = z i")
    case False
    then have step: "live_step E q ctxt (x, v, st) (y, v', st')" using live_runD [OF assms(1) z] z by metis
    with Suc z live_step_gens [OF step up] live_step_registry [OF step] show ?thesis by (simp add: live_inv_def)
  qed (use Suc in simp)
qed

lemma live_run_stopping:
  assumes "live_run E q ctxt storage z" and "subscriptions_stopping (fst (snd (z k)))" and "k \<le> j"
  shows "subscriptions_stopping (fst (snd (z j)))"
  using assms(3)
proof (induction j rule: dec_induct)
  case (step j)
  obtain x v st y v' st' where z: "z j = (x, v, st)" "z (Suc j) = (y, v', st')" by (metis prod.exhaust)
  with assms(1) live_step_stopping [of E q ctxt x v st y v' st'] step show ?case by (auto simp: live_run_def dest!: spec [of _ j])
qed (rule assms(2))

lemma live_run_ended:
  assumes "live_run E q ctxt storage z" and "stream_ended (z n)" and "n \<le> j"
  shows "stream_ended (z j)"
  using assms(3)
proof (induction j rule: dec_induct)
  case (step j)
  obtain x v st y v' st' where z: "z j = (x, v, st)" "z (Suc j) = (y, v', st')" by (metis prod.exhaust)
  with assms(1) live_step_ended [of E q ctxt x v st y v' st'] step show ?case
    by (auto simp: live_run_def stream_ended_def dest!: spec [of _ j])
qed (rule assms(2))

text \<open>While the registry is stopping, no step of the run raises the rank, and a turn of the thread that is needed lowers
  it.\<close>

lemma live_run_rank:
  assumes run: "live_run E q ctxt storage z" and counter: "mono (\<lambda>i. commit_generation (ss_core (fst (z i))))"
    and stop: "subscriptions_stopping (fst (snd (z i)))"
  shows "ending_rank (z (Suc i)) \<le> ending_rank (z i)"
    and "snd (snd (z (Suc i))) \<noteq> snd (snd (z i)) \<Longrightarrow> ending_rank (z (Suc i)) < ending_rank (z i)"
    and "stream_turn E q ctxt (z i) (z (Suc i)) \<Longrightarrow> ending_rank (z (Suc i)) < ending_rank (z i)"
    and "stream_blocked (z i) \<Longrightarrow> refresh_turn E (fst (z i)) (fst (z (Suc i))) \<Longrightarrow> ending_rank (z (Suc i)) < ending_rank (z i)"
proof -
  obtain x v st y v' st' where z: "z i = (x, v, st)" "z (Suc i) = (y, v', st')" by (metis prod.exhaust)
  have inv: "gens_ok x" "reader_ok x st" "registry_ok ctxt v st"
    using live_run_inv [OF run counter, of i] z by (simp_all add: live_inv_def)
  have stopping: "subscriptions_stopping v" using stop z by simp
  have up: "commit_generation (ss_core x) \<le> commit_generation (ss_core y)" using monoD [OF counter, of i "Suc i"] z by simp
  have step: "z (Suc i) = z i \<or> live_step E q ctxt (x, v, st) (y, v', st')" using live_runD [OF run z] z by metis
  from step ending_rank_step [OF _ stopping inv(3) up inv(1,2)] show "ending_rank (z (Suc i)) \<le> ending_rank (z i)"
    by (auto simp: z)
  have moved: "ending_rank (z (Suc i)) < ending_rank (z i)" if "st' \<noteq> st"
    using step stopping_stream_moves [OF _ stopping inv(3) that] ending_rank_less that z by fastforce
  then show "snd (snd (z (Suc i))) \<noteq> snd (snd (z i)) \<Longrightarrow> ending_rank (z (Suc i)) < ending_rank (z i)" by (simp add: z)
  show "ending_rank (z (Suc i)) < ending_rank (z i)" if turn: "stream_turn E q ctxt (z i) (z (Suc i))"
  proof (rule moved)
    have "ctxt \<in> cancelled v" if "str_pc st = Idle version" for version
      using inv(3) stopping that by (auto simp: registry_ok_def)
    moreover have "st\<lparr>str_pc := LoopHead\<rparr> \<noteq> st" if "str_pc st = Idle version" for version using that by (cases st) auto
    ultimately show "st' \<noteq> st" using turn by (auto simp: z stream_turn_def RunSubscription_wait_def)
  qed
  show "ending_rank (z (Suc i)) < ending_rank (z i)" if "stream_blocked (z i)" "refresh_turn E (fst (z i)) (fst (z (Suc i)))"
    using moved refresh_turn_progress [of x v st E y v'] that inv(1,2) z by (cases "st' = st") auto
qed

text \<open>A run whose rank no longer sinks has come to the end of the stream.\<close>

lemma steady_run_ended:
  assumes run: "live_run E q ctxt storage z" and counter: "mono (\<lambda>i. commit_generation (ss_core (fst (z i))))"
    and fair: "fair_refresh E z" "fair_stream E q ctxt z" and stop: "subscriptions_stopping (fst (snd (z i)))"
    and same: "\<And>j. i \<le> j \<Longrightarrow> ending_rank (z j) = ending_rank (z i)"
  shows "\<exists>n. stream_ended (z n)"
proof (rule ccontr)
  assume never: "\<not> ?thesis"
  note rank = live_run_rank [OF run counter live_run_stopping [OF run stop]]
  have level: "\<not> ending_rank (z (Suc j)) < ending_rank (z j)" if "i \<le> j" for j using same [of j] same [of "Suc j"] that by simp
  from fair(2) obtain j where j: "i \<le> j" and blocked: "stream_blocked (z j)"
    unfolding fair_stream_def using rank(3) level never by blast
  have still: "snd (snd (z n)) = snd (snd (z j))" if "j \<le> n" for n
    using that
  proof (induction n rule: dec_induct)
    case (step n)
    with rank(2) [of n] level [of n] j show ?case by fastforce
  qed simp
  have blocked_on: "stream_blocked (z n)" if "j \<le> n" for n
    using blocked_by_rank [OF blocked still [OF that]] same [of n] same [of j] that j by simp
  from fair(1) obtain n where n: "j \<le> n" "ss_refresh (fst (z n)) = Stopped"
    unfolding fair_refresh_def using rank(4) level blocked_on j by (meson order_trans)
  with blocked_on [OF n(1)] live_run_inv [OF run counter, of n] blocked_running show False
    by (fastforce simp: live_inv_def split: stream_pc.splits prod.splits)
qed

section \<open>Properties\<close>

text \<open>
  C29: Shutdown ends the streams: in every run in which the stream and the refresh thread get their turns, once the
  registry is stopping new streams are refused, every registered one is cancelled, and the stream ends and stays ended,
  wherever it was, also if it was waiting for a snapshot, and whatever the other threads do meanwhile.
\<close>

theorem stopped_stream_ends:
  assumes run: "live_run E q ctxt storage z" and counter: "mono (\<lambda>i. commit_generation (ss_core (fst (z i))))"
    and fair: "fair_refresh E z" "fair_stream E q ctxt z" and stop: "subscriptions_stopping (fst (snd (z k)))"
  shows "(\<exists>n. \<forall>j \<ge> n. stream_ended (z j)) \<and>
    (\<forall>j \<ge> k. subscriptions (fst (snd (z j))) \<subseteq> cancelled (fst (snd (z j))) \<and>
       RegisterSubscription new (fst (snd (z j))) = (False, fst (snd (z j))))"
proof -
  note stopping = live_run_stopping [OF run stop]
  note rank = live_run_rank [OF run counter stopping]
  have down: "ending_rank (z j) \<le> ending_rank (z i)" if "k \<le> i" "i \<le> j" for i j
    using that(2)
  proof (induction j rule: dec_induct)
    case (step j)
    with rank(1) [of j] that(1) show ?case by simp
  qed simp
  have "\<exists>n. stream_ended (z n)" if "k \<le> i" for i
    using that
  proof (induction "ending_rank (z i)" arbitrary: i rule: less_induct)
    case less
    show ?case
    proof (cases "\<exists>j \<ge> i. ending_rank (z j) < ending_rank (z i)")
      case True
      with less show ?thesis by (meson order_trans)
    next
      case False
      then have same: "ending_rank (z j) = ending_rank (z i)" if "i \<le> j" for j
        using down [OF less.prems that] that by force
      from steady_run_ended [OF run counter fair stopping [OF less.prems] same] show ?thesis .
    qed
  qed
  then obtain n where "stream_ended (z n)" by blast
  from live_run_ended [OF run this] have "\<forall>j \<ge> n. stream_ended (z j)" by blast
  moreover have "subscriptions (fst (snd (z j))) \<subseteq> cancelled (fst (snd (z j)))" if "k \<le> j" for j
    using live_run_inv [OF run counter, of j] stopping [OF that] by (auto simp: live_inv_def registry_ok_def split: prod.splits)
  moreover have "RegisterSubscription new (fst (snd (z j))) = (False, fst (snd (z j)))" if "k \<le> j" for j
    using stopping [OF that] by (simp add: RegisterSubscription_def)
  ultimately show ?thesis by blast
qed

section \<open>A fair run of the reference environment\<close>

text \<open>A commit is counted, the stream registers and waits for a snapshot that covers it, the registry is stopped, the
  refresh thread makes its pass, the stream goes on, finds that it is cancelled, and ends.\<close>

definition ref_at :: "u64 \<Rightarrow> u64 \<Rightarrow> u64 \<Rightarrow> ref_db refresh_pc \<Rightarrow> bool \<Rightarrow> kv list \<Rightarrow> (ref_db, ref_db, ref_os) sub_system" where
  "ref_at n g version = ref_sub ref_with_token n g ref_with_token version"

definition ref_registry :: "nat set \<Rightarrow> bool \<Rightarrow> event_service" where
  "ref_registry ids stopping = \<lparr>subscriptions = ids, subscriptions_stopping = stopping, cancelled = (if stopping then ids else {})\<rparr>"

definition ref_stream :: "(ref_db, ref_db, ref_os) stream_pc \<Rightarrow> bool \<Rightarrow> (ref_db, ref_db, ref_os) stream" where
  "ref_stream pc accepted = \<lparr>str_pc = pc, str_next = 0, str_sent = [], str_accepted = accepted\<rparr>"

definition ref_moments :: "(ref_db, ref_db, ref_os) live list" where
  "ref_moments =
     (let m = map_of ref_with_token; h = [m, m]; w = StartWait (ss_core (ref_at 1 0 1 Waiting False h)) in
      [(ref_at 0 0 1 Waiting False [m], ref_registry {} False, ref_stream Unstarted False),
       (ref_at 0 0 1 Waiting True h, ref_registry {} False, ref_stream Unstarted False),
       (ref_at 1 0 1 Waiting False h, ref_registry {} False, ref_stream Unstarted False),
       (ref_at 1 0 1 Waiting False h, ref_registry {1} False, ref_stream w False),
       (ref_at 1 0 1 Waiting False h, ref_registry {1} True, ref_stream w False),
       (ref_at 1 0 1 (Loaded 1) False h, ref_registry {1} True, ref_stream w False),
       (ref_at 1 0 1 (Created 1 (Inr ref_with_token)) False h, ref_registry {1} True, ref_stream w False),
       (ref_at 1 1 2 Waiting False h, ref_registry {1} True, ref_stream w False),
       (ref_at 1 1 2 Waiting False h, ref_registry {1} True, ref_stream LoopHead True),
       (ref_at 1 1 2 Waiting False h, ref_registry {1} True, ref_stream (Ended (OK, [])) True)])"

definition ref_live :: "nat \<Rightarrow> (ref_db, ref_db, ref_os) live" where
  "ref_live i = ref_moments ! min i 9"

lemma ref_live_init: "ref_live 0 = live_start_state ref_env ref_live_storage"
  by (simp add: ref_live_def ref_moments_def live_start_state_def Let_def sub_init_def OpenEventCore_def ref_live_storage_def
      refresh_start_def ref_at_def ref_sub_def ref_core_def ref_registry_def ref_stream_def new_stream_def)

lemma ref_server_steps:
  "live_step ref_env q ctxt (ref_at 0 0 1 Waiting False [m], v, st) (ref_at 0 0 1 Waiting True [m, map_of ref_with_token], v, st)"
  "live_step ref_env q ctxt (ref_at 0 0 1 Waiting True h, v, st) (ref_at 1 0 1 Waiting False h, v, st)"
  "live_step ref_env q ctxt (ref_at 1 0 1 Waiting False h, v, st) (ref_at 1 0 1 (Loaded 1) False h, v, st)"
  "live_step ref_env q ctxt (ref_at 1 0 1 (Loaded 1) False h, v, st) (ref_at 1 0 1 (Created 1 (Inr ref_with_token)) False h, v, st)"
  "live_step ref_env q ctxt (ref_at 1 0 1 (Created 1 (Inr ref_with_token)) False h, v, st) (ref_at 1 1 2 Waiting False h, v, st)"
  using ref_sub_steps(1) [of ref_with_token 0 0 ref_with_token 1 Waiting "[m]" "[]"] ref_sub_steps(2) [of ref_with_token 0 0 ref_with_token 1 Waiting h]
    ref_sub_steps(3) [of 1 0 ref_with_token ref_with_token 1 False h] ref_sub_steps(4) [of ref_with_token 1 0 ref_with_token 1 1 False h]
    ref_sub_steps(5) [of ref_with_token 1 0 ref_with_token 1 1 ref_with_token False h]
  by (auto simp: ref_at_def intro!: live_core) (simp_all add: ref_sub_def)

lemma ref_stream_starts:
  "live_step ref_env ref_subscribe 1 (ref_at 1 1 2 Waiting False h, v, ref_stream (StartWait (ss_core (ref_at 1 0 1 Waiting False h))) False)
     (ref_at 1 1 2 Waiting False h, v, ref_stream LoopHead True)"
proof -
  let ?c = "ss_core (ref_at 1 0 1 Waiting False h)" and ?x = "ref_at 1 1 2 Waiting False h"
  let ?st = "ref_stream (StartWait ?c) False"
  have goes: "goes_on ?c (ss_core ?x)" by (simp add: goes_on_def acquire_ready_def ref_at_def ref_sub_def)
  have acq: "AcquireSubscriptionSnapshot ?c (ss_core ?x) = Inr (ref_with_token, 2)" "\<not> fatal_error_triggered ?c"
    by (simp_all add: AcquireSubscriptionSnapshot_def acquire_enter_def acquire_return_def ref_at_def ref_sub_def ref_core_def
        status_ok_def status_Ok_def)
  have "GetMaxSeq ref_env ref_with_token = Inr 0" using ref_with_token_first by (simp add: only_first_def)
  then have "RunSubscription_start ref_env ref_subscribe ?c (ss_core ?x) ?st = (ss_core ?x, ref_stream LoopHead True)"
    using acq ref_with_token_reads(1)
    by (simp add: RunSubscription_start_def GetSubscriptionMaxSeq_def ref_subscribe_def ValidateReadableChannels_def ref_stream_def)
  from live_start [OF _ goes this, of 1 v] show ?thesis by (simp add: ref_stream_def)
qed

lemma ref_live_steps: "i < 9 \<Longrightarrow> live_step ref_env ref_subscribe 1 (ref_moments ! i) (ref_moments ! Suc i)"
proof -
  let ?m = "map_of ref_with_token"
  have register: "live_step ref_env ref_subscribe 1 (x, ref_registry {} False, ref_stream Unstarted False)
      (x, ref_registry {1} False, ref_stream (StartWait (ss_core x)) False)" for x
    using live_register [of "ref_stream Unstarted False" 1 "ref_registry {} False" "ref_registry {1} False" ref_env ref_subscribe x]
    by (simp add: ref_stream_def ref_registry_def RegisterSubscription_def)
  have stop: "live_step ref_env ref_subscribe 1 (x, ref_registry {1} False, st) (x, ref_registry {1} True, st)" for x st
    using live_stop [of ref_env ref_subscribe 1 x "ref_registry {1} False" st] by (simp add: ref_registry_def StopSubscriptions_def)
  have cancel: "live_step ref_env ref_subscribe 1 (x, v, ref_stream LoopHead True) (x, v, ref_stream (Ended (OK, [])) True)" for x v
    using live_cancel [of "ref_stream LoopHead True" ref_env ref_subscribe 1 x v] by (simp add: ref_stream_def)
  assume "i < 9"
  then have "i \<in> {0, 1, 2, 3, 4, 5, 6, 7, 8}" by auto
  then show ?thesis
    using ref_server_steps register stop cancel ref_stream_starts by (auto simp: ref_moments_def Let_def)
qed

lemma ref_live_fair:
  shows "live_run ref_env ref_subscribe 1 ref_live_storage ref_live" and "mono (\<lambda>i. commit_generation (ss_core (fst (ref_live i))))"
    and "fair_refresh ref_env ref_live" and "fair_stream ref_env ref_subscribe 1 ref_live"
proof -
  have step: "ref_live (Suc i) = ref_live i \<or> live_step ref_env ref_subscribe 1 (ref_live i) (ref_live (Suc i))" for i
    using ref_live_steps [of i] by (cases "i < 9") (simp_all add: ref_live_def min_def)
  with ref_live_init show "live_run ref_env ref_subscribe 1 ref_live_storage ref_live" by (simp add: live_run_def)
  let ?gen = "\<lambda>i. commit_generation (ss_core (fst (ref_live i)))"
  have gen: "?gen i = (if i < 2 then 0 else 1)" for i
  proof -
    have "\<forall>k \<in> set [0..<10]. commit_generation (ss_core (fst (ref_moments ! k))) = (if k < 2 then 0 else 1)"
      by (simp add: upt_rec ref_moments_def Let_def ref_at_def ref_sub_def)
    then show ?thesis by (auto simp: ref_live_def min_def)
  qed
  show "mono ?gen" unfolding gen by (rule monoI) auto
  have last: "ref_live j = ref_moments ! 9" if "9 \<le> j" for j using that by (simp add: ref_live_def)
  have "refresh_turn ref_env (fst (ref_moments ! 9)) (fst (ref_moments ! 9))"
    using turn_wake [of "fst (ref_moments ! 9)" ref_env]
    by (simp add: ref_moments_def Let_def ref_at_def ref_sub_def refresh_wake_def ref_core_def)
  then have "refresh_turn ref_env (fst (ref_live (max i 9))) (fst (ref_live (Suc (max i 9))))" for i by (simp add: last)
  then show "fair_refresh ref_env ref_live" unfolding fair_refresh_def by (meson max.cobounded1)
  have "stream_ended (ref_moments ! 9)" by (simp add: stream_ended_def ref_moments_def Let_def ref_stream_def)
  then have "stream_ended (ref_live (max i 9))" for i by (simp add: last)
  then show "fair_stream ref_env ref_subscribe 1 ref_live" unfolding fair_stream_def by (meson max.cobounded1)
qed

theorem stopped_stream_ends_witness:
  "\<exists>n. stream_blocked (ref_live 4) \<and> subscriptions_stopping (fst (snd (ref_live 4))) \<and> (\<forall>j \<ge> n. stream_ended (ref_live j))"
proof -
  have stop: "subscriptions_stopping (fst (snd (ref_live 4)))" by (simp add: ref_live_def ref_moments_def Let_def ref_registry_def)
  have "stream_blocked (ref_live 4)"
    by (simp add: ref_live_def ref_moments_def Let_def ref_stream_def goes_on_def acquire_ready_def ref_at_def ref_sub_def ref_core_def
        status_ok_def status_Ok_def)
  with stopped_stream_ends [OF ref_live_fair stop] stop show ?thesis by blast
qed

end
