(* ===== verification/Token_Properties.thy ===== *)
theory Token_Properties
  imports Core_Tokens
begin

text \<open>
  What a generated token is made of: the bytes the operating system has delivered, all of them, in the notation of
  credentials and of object tokens.
\<close>

section \<open>The random bytes\<close>

text \<open>The bytes that the calls of \<^verbatim>\<open>getrandom\<close> deliver, one after the other, each call asking for what is still missing and
  interrupted calls repeated.\<close>

inductive drawn :: "'os posix \<Rightarrow> nat \<Rightarrow> 'os \<Rightarrow> bytes \<Rightarrow> 'os \<Rightarrow> bool" for X where
  drawn_all: "drawn X 0 os [] os"
| drawn_some: "0 < want \<Longrightarrow> os_getrandom X os want = (Inr bs, os1) \<Longrightarrow> drawn X (want - length bs) os1 cs os2 \<Longrightarrow>
    drawn X want os (bs @ cs) os2"
| drawn_again: "0 < want \<Longrightarrow> os_getrandom X os want = (Inl EINTR, os1) \<Longrightarrow> drawn X want os1 bs os2 \<Longrightarrow> drawn X want os bs os2"

lemma fill_random_drawn:
  assumes laws: "posix_laws X"
  shows "length filled \<le> want \<Longrightarrow> fill_random X want filled os = Some (Inr bs, os') \<Longrightarrow>
    \<exists>cs. bs = filled @ cs \<and> drawn X (want - length filled) os cs os'"
proof (induction "os_interrupts X os + (want - length filled)" arbitrary: filled os rule: less_induct)
  case less
  show ?case
  proof (cases "length filled < want")
    case True
    then have more: "0 < want - length filled" by simp
    obtain r os1 where res: "os_getrandom X os (want - length filled) = (r, os1)" by fastforce
    have int: "counts_interrupt X os (r, os1)" using posix_lawsD(8) [OF laws] res unfolding interrupt_law_def by metis
    show ?thesis
    proof (cases r)
      case (Inl e)
      with less.prems(2) True res have e: "e = EINTR" and go: "fill_random X want filled os1 = Some (Inr bs, os')"
        by (auto simp: fill_random.simps [of X want filled os] Let_def split: if_splits)
      have "os_interrupts X os1 + (want - length filled) < os_interrupts X os + (want - length filled)"
        using int Inl e by (simp add: counts_interrupt_def)
      from less(1) [OF this less.prems(1) go] drawn_again [OF more res [unfolded Inl e]] show ?thesis by blast
    next
      case (Inr cs)
      with res laws more have cs: "cs \<noteq> []" "length cs \<le> want - length filled"
        unfolding posix_laws_def getrandom_law_def by metis+
      have go: "fill_random X want (filled @ cs) os1 = Some (Inr bs, os')"
        using less.prems(2) True res Inr by (simp add: fill_random.simps [of X want filled os] Let_def)
      have "os_interrupts X os1 + (want - length (filled @ cs)) < os_interrupts X os + (want - length filled)"
        using int Inr cs True by (cases cs) (auto simp: counts_interrupt_def)
      moreover have "length (filled @ cs) \<le> want" using cs(2) True by simp
      ultimately obtain ds where "bs = filled @ cs @ ds" "drawn X (want - length filled - length cs) os1 ds os'"
        using less(1) [OF _ _ go] by auto
      with drawn_some [OF more res [unfolded Inr]] show ?thesis by blast
    qed
  next
    case False
    with less.prems show ?thesis by (auto simp: fill_random.simps [of X want filled os] intro: drawn_all)
  qed
qed

section \<open>The notations as numbers\<close>

text \<open>A text read as a number whose digits are the characters of an alphabet.\<close>

definition digits_value :: "string \<Rightarrow> string \<Rightarrow> nat" where
  "digits_value alphabet t = foldl (\<lambda>n c. length alphabet * n + length (takeWhile (\<lambda>d. d \<noteq> c) alphabet)) 0 t"

lemma digits_value_append:
  "digits_value al (s @ t) = digits_value al s * length al ^ length t + digits_value al t"
proof (induction t rule: rev_induct)
  case (snoc x t)
  then show ?case by (simp add: digits_value_def append_assoc [symmetric] algebra_simps del: append_assoc)
qed (simp add: digits_value_def)

lemma be_value_append: "be_value (s @ t) = be_value s * 256 ^ length t + be_value t"
proof (induction t rule: rev_induct)
  case (snoc x t)
  then show ?case by (simp add: append_assoc [symmetric] algebra_simps del: append_assoc)
qed simp

lemma takeWhile_digit: "distinct al \<Longrightarrow> i < length al \<Longrightarrow> length (takeWhile (\<lambda>d. d \<noteq> al ! i) al) = i"
proof (induction al arbitrary: i)
  case (Cons a al)
  then show ?case by (cases i) auto
qed simp

lemma sextet_value: "length (takeWhile (\<lambda>d. d \<noteq> sextet v n) kBase64Url) = unat v div 2 ^ n mod 64"
proof -
  have "distinct kBase64Url" "length kBase64Url = 64" by code_simp+
  then show ?thesis by (simp add: sextet_def sextet_digit takeWhile_digit)
qed

lemma sextets_value:
  "digits_value kBase64Url [sextet v 18, sextet v 12, sextet v 6, sextet v 0] = unat v mod 2 ^ 24"
  "64 * digits_value kBase64Url [sextet v 18, sextet v 12, sextet v 6] + unat v mod 64 = unat v mod 2 ^ 24"
proof -
  have l: "length kBase64Url = 64" by code_simp
  have split: "w mod (2 ^ n * 64) = 2 ^ n * (w div 2 ^ n mod 64) + w mod 2 ^ n" for w n :: nat by (rule mod_mult2_eq)
  have "unat v mod 2 ^ 24 = 64 * (64 * (64 * (unat v div 2 ^ 18 mod 64) + unat v div 2 ^ 12 mod 64) + unat v div 2 ^ 6 mod 64) + unat v mod 64"
    using split [of "unat v" 18] split [of "unat v" 12] split [of "unat v" 6] by simp
  then show "digits_value kBase64Url [sextet v 18, sextet v 12, sextet v 6, sextet v 0] = unat v mod 2 ^ 24"
   "64 * digits_value kBase64Url [sextet v 18, sextet v 12, sextet v 6] + unat v mod 64 = unat v mod 2 ^ 24"
    by (simp_all add: digits_value_def sextet_value l)
qed

text \<open>Thirty-two bytes are ten groups of three, and two more that fill two and two thirds of a group.\<close>

lemma base64url_value:
  "length bs mod 3 = 2 \<Longrightarrow> digits_value kBase64Url (base64url bs) = 4 * be_value bs"
proof (induction bs rule: base64url.induct)
  case (1 a b c rest)
  let ?v = "push_bit 16 (of_char a) OR push_bit 8 (of_char b) OR of_char c :: u32"
  have group: "unat ?v mod 2 ^ 24 = be_value [a, b, c]"
    using group_bound [of a b c] by (simp add: group_value be_value_def)
  have "length rest mod 3 = 2" using 1(2) by simp
  moreover from this obtain k where k: "length rest = 3 * k + 2" by (metis div_mod_decomp mult.commute)
  then have "length (base64url rest) = 4 * k + 3" by (simp add: length_base64url)
  moreover have l: "length kBase64Url = 64" by code_simp
  moreover have "(64 :: nat) ^ (4 * k + 3) = 4 * 256 ^ (3 * k + 2)" by (simp add: power_add power_mult)
  ultimately show ?case
    using 1(1) digits_value_append [of kBase64Url "[sextet ?v 18, sextet ?v 12, sextet ?v 6, sextet ?v 0]" "base64url rest"]
      be_value_append [of "[a, b, c]" rest] sextets_value(1) [of ?v] group k
    by (simp add: Let_def algebra_simps)
next
  case (2 a b)
  let ?v = "push_bit 16 (of_char a) OR push_bit 8 (of_char b) :: u32"
  have v: "unat ?v = 256 * be_value [a, b]" by (simp add: short_group_values be_value_def)
  have "unat ?v < 2 ^ 24" using group_bound [of a b "CHR 0x00"] by (simp add: short_group_values)
  then have "unat ?v mod 2 ^ 24 = unat ?v" by simp
  with sextets_value(2) [of ?v] v show ?case by (simp add: Let_def)
qed simp_all

text \<open>A credential without its dashes is the random bytes as a hexadecimal number.\<close>

lemma hex_digits: "i < 16 \<Longrightarrow> kHex ! i \<noteq> CHR ''-''" "i < 16 \<Longrightarrow> length (takeWhile (\<lambda>d. d \<noteq> kHex ! i) kHex) = i" "length kHex = 16"
proof -
  have "distinct kHex" and l: "length kHex = 16" and "CHR ''-'' \<notin> set kHex" by code_simp+
  then show "i < 16 \<Longrightarrow> kHex ! i \<noteq> CHR ''-''" "i < 16 \<Longrightarrow> length (takeWhile (\<lambda>d. d \<noteq> kHex ! i) kHex) = i" "length kHex = 16"
    by (metis nth_mem, metis takeWhile_digit, simp)
qed

lemma nibbles: "of_char b div 16 < (16 :: nat)" "of_char b mod 16 < (16 :: nat)"
  using of_char_less_256 [of b] by (simp_all add: less_mult_imp_div_less)

lemma hex_byte_value: "digits_value kHex (hex_byte b) = of_char b"
  by (simp add: digits_value_def hex_byte_def hex_digits nibbles)

lemma hex_bytes_value: "digits_value kHex (concat (map hex_byte bs)) = be_value bs"
proof (induction bs)
  case (Cons b bs)
  have "length (concat (map hex_byte bs)) = 2 * length bs" by (induction bs) (simp_all add: hex_byte_def)
  then show ?case
    using Cons digits_value_append [of kHex "hex_byte b" "concat (map hex_byte bs)"]
    by (simp add: hex_byte_value be_value_Cons hex_digits power_mult)
qed (simp add: digits_value_def)

lemma format_token_value: "digits_value kHex (filter (\<lambda>c. c \<noteq> CHR ''-'') (format_token bs)) = be_value bs"
proof -
  have byte: "filter (\<lambda>c. c \<noteq> CHR ''-'') (hex_byte b @ (if q then ''-'' else [])) = hex_byte b" for b q
    by (simp add: hex_byte_def hex_digits nibbles)
  have "map (\<lambda>i. hex_byte (bs ! i)) [0..<length bs] = map hex_byte bs" by (rule nth_equalityI) simp_all
  then have "filter (\<lambda>c. c \<noteq> CHR ''-'') (format_token bs) = concat (map hex_byte bs)"
    unfolding format_token_def filter_concat map_map comp_def byte by simp
  then show ?thesis by (simp add: hex_bytes_value)
qed

lemma format_token_dashes:
  "length bs = 16 \<Longrightarrow> map (\<lambda>c. c = CHR ''-'') (format_token bs) = map (\<lambda>i. i \<in> {8, 13, 18, 23}) [0..<36]"
  by (simp add: format_token_def hex_byte_def upt_rec hex_digits nibbles)

section \<open>Properties\<close>

text \<open>
  C37: A generated object token has the form the storage accepts, and read as a number in base 64 it is the thirty-two
  bytes that \<^verbatim>\<open>getrandom\<close> delivered, followed by two zero bits; a generated credential has 36 characters with dashes
  at the four places of a uuid, and without the dashes it is the hexadecimal number of the sixteen bytes that
  \<^verbatim>\<open>getrandom\<close> delivered. So no random bit is lost and none is added.
\<close>

theorem generated_tokens_well_formed:
  assumes "posix_laws X"
  shows "(\<forall>t os'. GenerateObjectToken X os = Some (Inr t, os') \<longrightarrow> IsBase64UrlToken t \<and>
      (\<exists>bs. drawn X kObjectTokenRandomBytes os bs os' \<and> length bs = 32 \<and> digits_value kBase64Url t = 4 * be_value bs)) \<and>
    (\<forall>t os'. GenerateToken X os = Some (Inr t, os') \<longrightarrow>
      map (\<lambda>c. c = CHR ''-'') t = map (\<lambda>i. i \<in> {8, 13, 18, 23}) [0..<36] \<and>
      (\<exists>bs. drawn X 16 os bs os' \<and> length bs = 16 \<and> digits_value kHex (filter (\<lambda>c. c \<noteq> CHR ''-'') t) = be_value bs))"
proof (intro conjI allI impI)
  fix t os' assume run: "GenerateObjectToken X os = Some (Inr t, os')"
  then show "IsBase64UrlToken t" using GenerateObjectToken_spec [OF assms, of os] by auto
  from run obtain bs where fill: "fill_random X kObjectTokenRandomBytes [] os = Some (Inr bs, os')" and t: "t = base64url bs"
    by (auto simp: GenerateObjectToken_def bind_inv)
  with fill_random_spec [OF assms, of "[]" kObjectTokenRandomBytes os] have "length bs = 32"
    by (auto simp: kObjectTokenRandomBytes_def)
  with fill_random_drawn [OF assms _ fill] base64url_value [of bs] t
  show "\<exists>bs. drawn X kObjectTokenRandomBytes os bs os' \<and> length bs = 32 \<and> digits_value kBase64Url t = 4 * be_value bs" by auto
next
  fix t os' assume run: "GenerateToken X os = Some (Inr t, os')"
  then obtain bs where fill: "fill_random X 16 [] os = Some (Inr bs, os')" and t: "t = format_token bs"
    by (auto simp: GenerateToken_def bind_inv)
  with fill_random_spec [OF assms, of "[]" 16 os] have len: "length bs = 16" by auto
  then show "map (\<lambda>c. c = CHR ''-'') t = map (\<lambda>i. i \<in> {8, 13, 18, 23}) [0..<36]" unfolding t by (rule format_token_dashes)
  from fill_random_drawn [OF assms _ fill] len t
  show "\<exists>bs. drawn X 16 os bs os' \<and> length bs = 16 \<and> digits_value kHex (filter (\<lambda>c. c \<noteq> CHR ''-'') t) = be_value bs"
    by (auto simp: format_token_value)
qed

theorem generated_tokens_well_formed_witness:
  "\<exists>t os' bs. GenerateObjectToken ref_posix (d_os (ref_core [])) = Some (Inr t, os') \<and> IsBase64UrlToken t \<and>
     drawn ref_posix 32 (d_os (ref_core [])) bs os' \<and> digits_value kBase64Url t = 4 * be_value bs"
proof -
  obtain t os' where run: "GenerateObjectToken ref_posix (d_os (ref_core [])) = Some (Inr t, os')"
    using ref_fill_random [of "[]" 32 "d_os (ref_core [])"]
    by (simp add: GenerateObjectToken_def kObjectTokenRandomBytes_def)
  from generated_tokens_well_formed [OF ref_posix_laws, of "d_os (ref_core [])"] run show ?thesis
    unfolding kObjectTokenRandomBytes_def by blast
qed

end
