(* ===== verification/Spec2Isabelle.thy ===== *)
theory Spec2Isabelle
  imports Server_Start Read_Snapshot Log_Properties Stream_Liveness Token_Properties
begin

text \<open>
  \<^bold>\<open>A verification of the OpenEvent server.\<close>

  OpenEvent keeps one totally ordered event log for many principals. Clients allocate uuids, publish messages
  to channels, fetch or subscribe to what they may read, and store immutable objects that are read with a
  secret token. The log is one RocksDB database, the objects are files beside it. This development models the
  server under \<^verbatim>\<open>src/src/\<close> from the encoding of a key to the shutdown of the process, and proves what a
  caller, and an operator who restarts it, can rely on.

  \<^bold>\<open>Parts and how they interact.\<close>
  \<^item> \<^verbatim>\<open>common/\<close>, \<^verbatim>\<open>storage/*.h\<close>: statuses with a fatal flag, limits, fault points, big-endian keys.
  \<^item> \<^verbatim>\<open>storage/object_file_store.cpp\<close>: an object is written to a temporary file, synced, renamed without
    replacement, and the directory is synced; it is read by range.
  \<^item> \<^verbatim>\<open>storage/unified_storage.cpp\<close>: typed reads from snapshots, write batches, scans, the object files,
    initialization, validation and recovery when the storage is opened, the handles of snapshots.
  \<^item> \<^verbatim>\<open>service/open_event_core.cpp\<close>: the operations, under a coordinator mutex; a commit whose outcome is
    unknown latches a fatal state; a thread refreshes the snapshot that subscriptions read.
  \<^item> \<^verbatim>\<open>service/grpc_services.cpp\<close>: the remote procedure calls over the core, the subscription streams and
    their registry.
  \<^item> \<^verbatim>\<open>server/server_config.cpp\<close>, \<^verbatim>\<open>server/main.cpp\<close>: the configuration, the start, and the threads that
    bring the process down on a signal or a fatal error.

  \<^bold>\<open>Theories.\<close> Definitions keep the names of the functions they translate; a prefix or suffix marks the part of
  a function (\<open>ScanMessages_loop\<close>, \<open>WriteObject_prepare\<close>) or avoids a clash (\<open>core_DeleteToken\<close> for
  \<^verbatim>\<open>OpenEventCore::DeleteToken\<close>, \<open>DeleteToken\<close> for the write of the storage).

  \<^emph>\<open>Foundations.\<close>
  \<^item> \<open>Prelude\<close>: results (\<open>'e + 'a\<close>, \<open>Inl\<close> the error), the state and error monad \<open>op\<close> with its rules for
    outcomes, the same with an option for loops over system calls, decimal numbers, bytes.
  \<^item> \<open>Status\<close>: \<^verbatim>\<open>Status\<close>, \<^verbatim>\<open>Result\<close>, \<^verbatim>\<open>RocksToStatus\<close>, \<^verbatim>\<open>ObjectIoStatus\<close>, the limits and fault
    points.
  \<^item> \<open>Encoding\<close>: \<^verbatim>\<open>EncodeUint64\<close>, \<^verbatim>\<open>NumericKey\<close>, \<^verbatim>\<open>TokenKey\<close> and their decoders. The locale
    \<open>key_codec\<close> derives from a fixed-width, order-preserving code that prefixed keys decode to what was encoded,
    sort by number and never collide; \<open>be64\<close> interprets it.
  \<^item> \<open>Wire\<close>: messages, channels, requests and stored objects as records; the interfaces of protobuf and RocksDB.
  \<^item> \<open>System_Messages\<close>: the JSON payloads the server writes and the checks it applies when it reads them.
    \<open>Json_Text\<close>: the documents these payloads denote, and that the checks accept what the server writes;
    \<open>Reference_Json\<close>: a reader of such documents.

  \<^emph>\<open>Storage.\<close>
  \<^item> \<open>Object_File_Store\<close>: \<^verbatim>\<open>object_file_store.cpp\<close> over an interface of system calls with partial writes,
    short reads and interruptions; effects of \<open>Write\<close>, \<open>ReadRange\<close>, \<open>Cleanup\<close> on the directory, and that the
    loops return.
  \<^item> \<open>Unified_Storage\<close>: reads, writes, scans, \<open>Commit\<close>, \<open>Validate\<close>, \<open>RecoverPreparingObjects\<close>.
  \<^item> \<open>Event_Log\<close>: the abstract log (\<open>event_log\<close>: messages, used uuids, channels, credentials, objects, counters)
    a database represents (\<open>log_of\<close>). The locale \<open>log_cell\<close> states for one kind of entry that reads return the
    abstract value and a write changes only it; the nine kinds of entries interpret it.
  \<^item> \<open>Message_Scan\<close>: \<open>ScanMessages\<close> equals a reference scan by sequence number. \<open>Listings\<close>: the locale
    \<open>prefix_listing\<close> for the two loops over a prefix, channels and objects in preparation.
  \<^item> \<open>Recovery\<close>: initialization, validation and recovery against the abstract log.
  \<^item> \<open>Storage_Open\<close>: \<^verbatim>\<open>UnifiedStorage::Open\<close> with the layout of the root, durable creation of directories,
    initialization and opening; \<open>Reopen\<close>: what is left by a server that stops at any moment opens again.
  \<^item> \<open>Stored_Cells\<close>: every cell the server writes is well formed. \<open>Stored_Reads\<close>: the locale \<open>answered_read\<close> (a read
    that the database answers returns the entry of the log, it never reports corruption), interpreted by the reads of
    counters, uuids, credentials, channels and objects; \<open>Stored_Events\<close>: the same for messages and scans;
    \<open>Object_Serving\<close>: for the files of committed objects.
  \<^item> \<open>Read_Snapshot\<close>: the move-only handles of snapshots as operations on a store of handles.

  \<^emph>\<open>Core.\<close>
  \<^item> \<open>Core_Base\<close>: the state (\<open>core\<close>, which extends the storage \<open>disk\<close>), availability, commits, the fatal latch,
    authentication and checks; \<open>Tokens\<close>: generation of credentials and object tokens.
  \<^item> \<open>Core_Contract\<close>: the rules on outcomes of core operations. The locale \<open>log_handler\<close>: a handler that succeeds
    has its effect on the log, one that fails leaves the log unchanged, or has latched the fatal state and left
    all of the effect or none. It is interpreted by publishing (twice), allocation, creation of channels, the two
    operations on members and the removal of credentials.
  \<^item> \<open>Core_Publish\<close>, \<open>Core_Channels\<close>, \<open>Core_Tokens\<close>, \<open>Core_Objects\<close>: the operations that change the state.
  \<^item> \<open>Core_Fetch\<close>: the reads of messages; the locale \<open>page_scan\<close> (a visitor that selects, counts and stops) is
    interpreted by \<open>Fetch\<close> and by \<open>ListAllMessages\<close>.
  \<^item> \<open>Core_Subscription\<close>: the refresh thread and its readers as steps between lock operations.

  \<^emph>\<open>Service and process.\<close>
  \<^item> \<open>Grpc_Services\<close>: the handlers, \<open>RunSubscription\<close> in its steps, the registry; \<open>Subscription_Stream\<close>: a stream
    interleaved with the running server (\<open>live_step\<close>), whose commits are those of the steps of the server;
    \<open>Stream_Liveness\<close>: fair runs of a stream and the refresh thread.
  \<^item> \<open>Server_Config\<close>: the configuration; \<open>Server_Start\<close>: the start of the process with what it prints and the servers
    it runs; \<open>Server_Main\<close>: the shutdown as a state machine of the signal thread, the fatal-error thread, the two
    servers and the main thread.

  \<^emph>\<open>Whole server.\<close>
  \<^item> \<open>Log_Invariant\<close>: well-formed logs (\<open>log_ok\<close>); \<open>Server_Steps\<close>: the server as a transition system
    (\<open>server_step\<close>) whose state has the object writes in flight, and the abstract log it refines (\<open>log_next\<close>);
    \<open>Server_Invariant\<close>: its invariants in every reachable state and along every run.
  \<^item> \<open>Server_Properties\<close>, \<open>Object_Properties\<close>, \<open>Stream_Properties\<close>, \<open>Service_Properties\<close>: properties that span
    components; \<open>Availability\<close>: what the server must grant; \<open>Log_Properties\<close>: at most one publication of a uuid, the
    listing of channels; \<open>Token_Properties\<close>: what generated tokens are made of. \<open>Reference_Env\<close>, \<open>Reference_Runs\<close>: a concrete environment in which all laws below hold, and
    runs of the model in it, for the witnesses.

  \<^bold>\<open>What is shown.\<close>
  \<^item> \<^emph>\<open>The log.\<close> Every step of the server is a step of the abstract log. In every reachable state the sequence
    numbers are contiguous, uuids and messages correspond, channels are valid; along every run nothing
    published, used or committed is lost or changed. A uuid is published at most once in the life of the
    server; a failed operation leaves no partial effect.
  \<^item> \<^emph>\<open>Objects.\<close> A committed object has its complete file; what a write stored is what every later read returns,
    to holders of the token only, over any interleaving, crashes and restarts; failed writes expose nothing.
  \<^item> \<^emph>\<open>Reading.\<close> Pages are exactly the visible messages of the range they cover; a stream sends in order
    what could be read and was asked for, judged by logs the server has had, and passes over nothing else; a subscription sees every commit that preceded it; listings are complete.
  \<^item> \<^emph>\<open>Availability.\<close> In every reachable state in which the database answers, lookups, pages and publications succeed
    exactly when the abstract log allows them; no message, record or counter the server has stored is rejected, and
    no committed object is reported as lost.
  \<^item> \<^emph>\<open>Life of the process.\<close> A failed start exits with 1, says why and leaves no server running; administration is
    served at its own address only. A new root becomes a storage with an initial log, a foreign root is refused untouched,
    a storage left at any moment opens again and recovery removes only what was unfinished. The servers are shut
    down once, the process ends, its exit code reports a fatal error, and in every fair run every stream ends. After a fatal error no call is served.
  \<^item> \<^emph>\<open>Termination.\<close> The loops over system calls return, the waiting readers are released, the shutdown is never stuck.
  \<^item> \<^emph>\<open>Bounds.\<close> Identifiers are 64-bit words. \<open>AllocateUuids\<close> does wrap at the end of the range, as is proved.

  \<^bold>\<open>Code outside the repository\<close> is a parameter of the model, and what the server relies on is a named hypothesis:
  \<open>rocks_laws\<close> (snapshots are faithful, reads agree with them, iteration is sorted and complete, a batch is atomic,
  and a write that reports an error may or may not have happened), \<open>proto_laws\<close> (parsing inverts serialization),
  \<open>json_laws\<close> (a document of string, number and array members is read as what it says; strings must be UTF-8),
  \<open>posix_laws\<close> (files, directory entries, random bytes; only finitely many interruptions in a row), \<open>host_laws\<close>
  (directories and opening of databases), the reader of YAML documents. Every operation may fail in every way these
  laws leave open, and the fault points of \<^verbatim>\<open>fault_injector.h\<close> are a parameter too: a fixed function of the fault point, where
  the code would accept a callback with a state of its own.

  \<^bold>\<open>Bounds and hypotheses.\<close> No fuel is used: loops are structural recursion over lists or over the distance to a
  bound, and the loops that retry interrupted system calls are \<^theory_text>\<open>partial_function (option)\<close> with a proof that
  they return. Runs are taken as long as the counters have room (\<open>roomy\<close>: a batch of uuids, one channel and one
  object fit into 64 bits), which excludes the wrap-around described above; pages need that the last sequence number is
  not the greatest word, and their availability that the texts of channels are UTF-8 (\<open>utf8_channels\<close>), which protobuf
  ensures for the requests it parses.

  \<^bold>\<open>Granularity.\<close> An operation that holds the coordinator mutex for its whole body is one step. \<open>WriteObject\<close> is
  five steps (check, token, preparation, file, commit), because it releases the mutex in
  between; the phases of different writes interleave. An operation that checked the availability before the fatal state
  was latched may still act after it (\<open>step_late\<close>). The lookup and the file read of \<open>ReadObject\<close> are one step, as are
  the two parts of the cleanup of a failed write. The refresh thread, its readers, the streams and the threads
  of the process are split where they take or release a lock, and memory is sequentially consistent. That a gRPC server
  has shut down and that a cancelled stream leaves the registry are steps the environment may take at any time; calls in
  flight do not appear in the state machine of the shutdown. A process
  may be killed at any step, leaving the files of unfinished objects in any condition, and recovery may fail or be
  killed itself; a batch of RocksDB is written or not, and what it and \<^verbatim>\<open>fsync\<close> report as durable stays.

  \<^bold>\<open>Not modelled.\<close> What the gRPC servers do with their options and addresses and the write options of RocksDB
  (behaviour of libraries); the lines printed during the shutdown; the time a
  call waits, of which only the outcome appears; allocation failures. The protobuf definitions, the clients under
  \<^verbatim>\<open>openevent-sdk\<close>, scripts, tests and documents are generated code or code in other languages.
\<close>

end
